(* ===== verification/Prelude.thy ===== *)
theory Prelude
  imports Main "HOL-Library.Word"
begin

text \<open>
  What every component of the development shares: the outcome of a Rust call (a value or a
  panic), \<open>std::task::Poll\<close>, \<open>usize\<close> arithmetic with the overflow checks of a
  development build, the standard collections the code uses (\<open>VecDeque\<close>, \<open>Vec\<close> used as a
  stack) and the interface of a first-in first-out buffer.  Strings that are only printed are
  not modelled.
\<close>

named_theorems laws_dest "projections of the documented laws of the libraries"
named_theorems op_simps "equations of the operations of the model"

section \<open>Outcomes\<close>

text \<open>
  A panic ends the thread or the task that runs the code.  The constructors name the panics
  of the code and of the library calls it makes.
\<close>

datatype panic =
    Unwrap_None
  | Unwrap_Err
  | Invalid_Response
  | Polled_After_Completion
  | Arith_Overflow
  | Index_Out_Of_Bounds
  | Library_Panic

type_synonym 'a run = "panic + 'a"

definition panics :: "'a run \<Rightarrow> bool" where
  "panics r = (case r of Inl _ \<Rightarrow> True | Inr _ \<Rightarrow> False)"

lemma panics_simps [simp]: "panics (Inl p)" "\<not> panics (Inr x)"
  by (simp_all add: panics_def)

lemma not_panics_iff: "\<not> panics r \<longleftrightarrow> (\<exists>x. r = Inr x)"
  by (cases r) simp_all

text \<open>\<open>std::task::Poll\<close>.\<close>

datatype 'a poll = Ready 'a | Pending

fun is_pending :: "'a poll \<Rightarrow> bool" where
  "is_pending (Ready _) = False"
| "is_pending Pending = True"

lemma is_pending_iff: "is_pending p \<longleftrightarrow> p = Pending"
  by (cases p) simp_all

text \<open>The handles the libraries give out and the task contexts (wakers) are opaque.\<close>

type_synonym handle = nat
type_synonym waker = nat

text \<open>\<open>std::io::Error\<close>: its kind and, where the code makes it, its message.\<close>

datatype io_kind = WouldBlock | Other | Other_Kind nat

datatype io_error = Io_Error (kind: io_kind) (message: string)

text \<open>
  An executor awaiting a future: it polls (\<open>f\<close>, with the future's state), lets the rest of the
  program run between two polls (the functions of the schedule) and stops at the first poll
  that is ready.  A schedule that ends first leaves the future pending.
\<close>

fun drive :: "('c \<Rightarrow> waker \<Rightarrow> 'w \<Rightarrow> ('r poll \<times> 'c \<times> 'w) run) \<Rightarrow> (waker \<times> ('w \<Rightarrow> 'w)) list
    \<Rightarrow> 'c \<Rightarrow> 'w \<Rightarrow> ('r poll \<times> 'c \<times> 'w) run" where
  "drive f [] c w = Inr (Pending, c, w)"
| "drive f ((cx, env) # xs) c w =
     (case f c cx (env w) of
        Inl p \<Rightarrow> Inl p
      | Inr (Ready r, c', w') \<Rightarrow> Inr (Ready r, c', w')
      | Inr (Pending, c', w') \<Rightarrow> drive f xs c' w')"

text \<open>
  The rule for facts about a whole run of an executor: an invariant of the future's state and
  of the world that every schedule entry and every pending poll keeps, and a conclusion that
  a ready poll establishes.
\<close>

lemma drive_induct:
  assumes start: "I c w"
    and env: "\<And>cx g c w. (cx, g) \<in> set xs \<Longrightarrow> I c w \<Longrightarrow> I c (g w)"
    and pend: "\<And>c cx w c' w'. I c w \<Longrightarrow> f c cx w = Inr (Pending, c', w') \<Longrightarrow> I c' w'"
    and ready: "\<And>c cx w r c' w'. I c w \<Longrightarrow> f c cx w = Inr (Ready r, c', w') \<Longrightarrow> Q r c' w'"
    and run: "drive f xs c w = Inr (r, c', w')"
  shows "case r of Pending \<Rightarrow> I c' w' | Ready x \<Rightarrow> Q x c' w'"
  using start env run
proof (induction xs arbitrary: c w)
  case Nil
  then show ?case by auto
next
  case (Cons x xs)
  obtain cx g where x: "x = (cx, g)" by (cases x)
  have now: "I c (g w)" using Cons.prems(1,2) x by auto
  show ?case
  proof (cases "f c cx (g w)")
    case (Inl p)
    then show ?thesis using Cons.prems(3) x by simp
  next
    case (Inr y)
    obtain r1 c1 w1 where y: "y = (r1, c1, w1)" by (cases y)
    show ?thesis
    proof (cases r1)
      case (Ready z)
      then show ?thesis using Cons.prems(3) x Inr y ready [OF now] by auto
    next
      case Pending
      have "I c1 w1" using pend [OF now] Inr y Pending by simp
      then show ?thesis
        using Cons.IH [of c1 w1] Cons.prems(2,3) x Inr y Pending by auto
    qed
  qed
qed

lemma drive_no_panic:
  assumes start: "I c w"
    and env: "\<And>cx g c w. (cx, g) \<in> set xs \<Longrightarrow> I c w \<Longrightarrow> I c (g w)"
    and pend: "\<And>c cx w c' w'. I c w \<Longrightarrow> f c cx w = Inr (Pending, c', w') \<Longrightarrow> I c' w'"
    and safe: "\<And>c cx w. I c w \<Longrightarrow> \<not> panics (f c cx w)"
  shows "\<not> panics (drive f xs c w)"
  using start env
proof (induction xs arbitrary: c w)
  case Nil
  then show ?case by simp
next
  case (Cons x xs)
  obtain cx g where x: "x = (cx, g)" by (cases x)
  have now: "I c (g w)" using Cons.prems(1,2) x by auto
  obtain r1 c1 w1 where y: "f c cx (g w) = Inr (r1, c1, w1)"
    using safe [OF now, of cx] by (cases "f c cx (g w)") auto
  show ?case
  proof (cases r1)
    case (Ready z)
    then show ?thesis using x y by simp
  next
    case Pending
    then have "I c1 w1" using pend [OF now] y by simp
    then show ?thesis using Cons.IH [of c1 w1] Cons.prems(2) x y Pending by auto
  qed
qed

section \<open>Machine integers\<close>

text \<open>
  \<open>usize\<close> on a 64-bit target, as a natural number below \<open>2 ^ 64\<close>; an addition or a
  subtraction that leaves the range panics, as it does in a build with overflow checks.
\<close>

definition usize_limit :: nat where
  "usize_limit = 2 ^ 64"

definition usize_add :: "nat \<Rightarrow> nat \<Rightarrow> nat run" where
  "usize_add a b = (if a + b < usize_limit then Inr (a + b) else Inl Arith_Overflow)"

definition usize_sub :: "nat \<Rightarrow> nat \<Rightarrow> nat run" where
  "usize_sub a b = (if b \<le> a then Inr (a - b) else Inl Arith_Overflow)"

lemma usize_add_ok [simp]: "a + b < usize_limit \<Longrightarrow> usize_add a b = Inr (a + b)"
  by (simp add: usize_add_def)

lemma usize_sub_ok [simp]: "b \<le> a \<Longrightarrow> usize_sub a b = Inr (a - b)"
  by (simp add: usize_sub_def)

lemma usize_add_InrD: "usize_add a b = Inr c \<Longrightarrow> c = a + b \<and> c < usize_limit"
  by (auto simp: usize_add_def split: if_splits)

lemma usize_sub_InrD: "usize_sub a b = Inr c \<Longrightarrow> c = a - b \<and> b \<le> a"
  by (auto simp: usize_sub_def split: if_splits)

section \<open>First-in first-out buffers\<close>

text \<open>
  The interface of \<open>VecDeque\<close> as the code uses it: \<open>push_back\<close>, \<open>pop_front\<close>,
  \<open>front\<close>, \<open>len\<close> and \<open>is_empty\<close>, with the abstraction \<open>items\<close> to the sequence of
  the elements from front to back.
\<close>

locale fifo =
  fixes items :: "'q \<Rightarrow> 'a list"
    and push :: "'q \<Rightarrow> 'a \<Rightarrow> 'q"
    and pop :: "'q \<Rightarrow> 'a option \<times> 'q"
    and head :: "'q \<Rightarrow> 'a option"
    and count :: "'q \<Rightarrow> nat"
    and vacant :: "'q \<Rightarrow> bool"
  assumes items_push: "items (push q x) = items q @ [x]"
    and items_pop_None: "pop q = (None, q') \<Longrightarrow> items q = [] \<and> items q' = []"
    and items_pop_Some: "pop q = (Some x, q') \<Longrightarrow> items q = x # items q'"
    and head_items: "head q = (case items q of [] \<Rightarrow> None | x # _ \<Rightarrow> Some x)"
    and count_items: "count q = length (items q)"
    and vacant_items: "vacant q \<longleftrightarrow> items q = []"
begin

lemma pop_vacant: "fst (pop q) = None \<longleftrightarrow> vacant q"
proof (cases "pop q")
  case (Pair r q')
  then show ?thesis
    using items_pop_None [of q q'] items_pop_Some [of q _ q']
    by (cases r) (auto simp: vacant_items)
qed

lemma head_is_popped: "pop q = (Some x, q') \<Longrightarrow> head q = Some x"
  using items_pop_Some [of q x q'] by (simp add: head_items)

lemma pop_not_vacant: "\<not> vacant q \<Longrightarrow> \<exists>x q'. pop q = (Some x, q')"
  using pop_vacant [of q] by (cases "pop q") auto

lemma count_push: "count (push q x) = Suc (count q)"
  by (simp add: count_items items_push)

lemma count_pop: "pop q = (Some x, q') \<Longrightarrow> count q = Suc (count q')"
  by (simp add: count_items items_pop_Some)

lemma push_pop_cons: "pop q = (Some x, q') \<Longrightarrow> items (push q' y) = tl (items q) @ [y]"
  by (simp add: items_push items_pop_Some)

text \<open>Pushing a whole sequence and popping it gives the sequence back, in order.\<close>

lemma items_foldl_push: "items (foldl push q xs) = items q @ xs"
  by (induction xs arbitrary: q) (simp_all add: items_push)

lemma pop_after_pushes:
  assumes "vacant q" and "pop (foldl push q (x # xs)) = (r, q')"
  shows "r = Some x \<and> items q' = xs"
proof -
  have all: "items (foldl push q (x # xs)) = x # xs"
    using assms(1) by (simp only: items_foldl_push vacant_items append_Nil)
  show ?thesis
  proof (cases r)
    case None
    with assms(2) items_pop_None [of "foldl push q (x # xs)" q'] all show ?thesis by simp
  next
    case (Some y)
    with assms(2) items_pop_Some [of "foldl push q (x # xs)" y q'] all show ?thesis by simp
  qed
qed

end

text \<open>\<open>std::collections::VecDeque\<close>, as the list of its elements from front to back.\<close>

datatype 'a vecdeque = VecDeque (elems: "'a list")

definition vd_new :: "'a vecdeque" where
  "vd_new = VecDeque []"

definition vd_push_back :: "'a vecdeque \<Rightarrow> 'a \<Rightarrow> 'a vecdeque" where
  "vd_push_back q x = VecDeque (elems q @ [x])"

definition vd_pop_front :: "'a vecdeque \<Rightarrow> 'a option \<times> 'a vecdeque" where
  "vd_pop_front q = (case elems q of [] \<Rightarrow> (None, q) | x # xs \<Rightarrow> (Some x, VecDeque xs))"

definition vd_front :: "'a vecdeque \<Rightarrow> 'a option" where
  "vd_front q = (case elems q of [] \<Rightarrow> None | x # _ \<Rightarrow> Some x)"

definition vd_len :: "'a vecdeque \<Rightarrow> nat" where
  "vd_len q = length (elems q)"

definition vd_is_empty :: "'a vecdeque \<Rightarrow> bool" where
  "vd_is_empty q = (elems q = [])"

lemmas vecdeque_defs = vd_new_def vd_push_back_def vd_pop_front_def vd_front_def vd_len_def
  vd_is_empty_def

interpretation deque: fifo elems vd_push_back vd_pop_front vd_front vd_len vd_is_empty
  by unfold_locales (auto simp: vecdeque_defs split: list.splits)

lemma elems_vd_new [simp]: "elems vd_new = []"
  by (simp add: vd_new_def)

lemma elems_vd_push_back [simp]: "elems (vd_push_back q x) = elems q @ [x]"
  by (rule deque.items_push)

text \<open>\<open>Vec::pop\<close>: the last element and the rest.\<close>

definition vec_pop :: "'a list \<Rightarrow> 'a option \<times> 'a list" where
  "vec_pop xs = (if xs = [] then (None, []) else (Some (last xs), butlast xs))"

lemma vec_pop_snoc [simp]: "vec_pop (xs @ [x]) = (Some x, xs)"
  by (simp add: vec_pop_def)

lemma vec_pop_Nil [simp]: "vec_pop [] = (None, [])"
  by (simp add: vec_pop_def)

section \<open>Sums of lengths\<close>

definition total_len :: "'a list list \<Rightarrow> nat" where
  "total_len xss = sum_list (map length xss)"

lemma total_len_simps [simp]:
  "total_len [] = 0"
  "total_len (xs # xss) = length xs + total_len xss"
  "total_len (xss @ yss) = total_len xss + total_len yss"
  by (simp_all add: total_len_def)

lemma total_len_concat: "total_len xss = length (concat xss)"
  by (induction xss) simp_all

end
