(* ===== verification/Library_Api.thy ===== *)
theory Library_Api
  imports Prelude
begin

text \<open>
  The third-party libraries that \<open>poll-read\<close> is written against (\<open>bytes\<close>, \<open>tokio\<close>,
  \<open>tokio_util\<close>) are parameters of the model: one record of functions per library type, passed
  to every definition that calls it.  The state the libraries keep (channels, one-shot cells,
  task wakers) is the world \<open>'w\<close>, which the functions take and return; an object of a library
  is known by its handle.  What the documentation of a library promises is stated as a
  predicate over its record (\<open>..._laws\<close>), which the theorems that need it take as a
  hypothesis.  Values of \<open>Bytes\<close>, \<open>BytesMut\<close> and \<open>&[u8]\<close> are represented by their
  contents, so \<open>len\<close>, \<open>is_empty\<close> and \<open>clone\<close> are list operations.
\<close>

type_synonym byte = "8 word"
type_synonym bytes = "byte list"

section \<open>The crate bytes\<close>

record bytes_api =
  split_to :: "bytes \<Rightarrow> nat \<Rightarrow> (bytes \<times> bytes) run"
  bytesmut_new :: bytes
  with_capacity :: "nat \<Rightarrow> bytes run"
  resize :: "bytes \<Rightarrow> nat \<Rightarrow> byte \<Rightarrow> bytes run"
  extend_from_slice :: "bytes \<Rightarrow> bytes \<Rightarrow> bytes run"
  freeze :: "bytes \<Rightarrow> bytes"

definition isize_max :: nat where
  "isize_max = 2 ^ 63 - 1"

definition bytes_laws :: "bytes_api \<Rightarrow> bool" where
  "bytes_laws B \<longleftrightarrow>
     (\<forall>b n. n \<le> length b \<longrightarrow> split_to B b n = Inr (take n b, drop n b)) \<and>
     bytesmut_new B = [] \<and>
     (\<forall>n. n \<le> isize_max \<longrightarrow> with_capacity B n = Inr []) \<and>
     (\<forall>b n v. n \<le> isize_max \<longrightarrow> resize B b n v = Inr (take n (b @ replicate n v))) \<and>
     (\<forall>b s. length b + length s \<le> isize_max \<longrightarrow> extend_from_slice B b s = Inr (b @ s)) \<and>
     (\<forall>b. freeze B b = b)"

lemma bytes_lawsD [laws_dest]:
  assumes "bytes_laws B"
  shows "n \<le> length b \<Longrightarrow> split_to B b n = Inr (take n b, drop n b)"
    and "bytesmut_new B = []"
    and "n \<le> isize_max \<Longrightarrow> with_capacity B n = Inr []"
    and "n \<le> isize_max \<Longrightarrow> resize B b n v = Inr (take n (b @ replicate n v))"
    and "length b + length s \<le> isize_max \<Longrightarrow> extend_from_slice B b s = Inr (b @ s)"
    and "freeze B b = b"
  using assms by (simp_all add: bytes_laws_def)

section \<open>\<open>tokio::io::ReadBuf\<close>\<close>

record 'rb readbuf_api =
  remaining :: "'rb \<Rightarrow> nat"
  put_slice :: "'rb \<Rightarrow> bytes \<Rightarrow> 'rb run"

definition readbuf_laws :: "'rb readbuf_api \<Rightarrow> ('rb \<Rightarrow> bytes) \<Rightarrow> bool" where
  "readbuf_laws R filled \<longleftrightarrow>
     (\<forall>rb s. length s \<le> remaining R rb \<longrightarrow>
        (\<exists>rb'. put_slice R rb s = Inr rb' \<and> filled rb' = filled rb @ s \<and>
               remaining R rb' = remaining R rb - length s))"

lemma readbuf_lawsE:
  assumes "readbuf_laws R filled" and "length s \<le> remaining R rb"
  obtains rb' where "put_slice R rb s = Inr rb'" and "filled rb' = filled rb @ s"
    and "remaining R rb' = remaining R rb - length s"
  using assms unfolding readbuf_laws_def by blast

section \<open>\<open>tokio::sync::mpsc\<close>\<close>

datatype try_recv_error = Recv_Empty | Recv_Disconnected

datatype try_send_error = Send_Full | Send_Closed

record ('w, 'a) receiver_api =
  poll_recv :: "handle \<Rightarrow> waker \<Rightarrow> 'w \<Rightarrow> 'a option poll \<times> 'w"
  try_recv :: "handle \<Rightarrow> 'w \<Rightarrow> (try_recv_error + 'a) \<times> 'w"

text \<open>
  \<open>taken w h\<close> is the sequence of the messages received on \<open>h\<close> so far.  A receive that
  delivers a message extends it, every other one leaves it.
\<close>

definition receiver_laws :: "('w, 'a) receiver_api \<Rightarrow> ('w \<Rightarrow> handle \<Rightarrow> 'a list) \<Rightarrow> bool" where
  "receiver_laws RX taken \<longleftrightarrow>
     (\<forall>h cx w r w'. poll_recv RX h cx w = (r, w') \<longrightarrow>
        taken w' = (case r of Ready (Some x) \<Rightarrow> (taken w)(h := taken w h @ [x]) | _ \<Rightarrow> taken w)) \<and>
     (\<forall>h w r w'. try_recv RX h w = (r, w') \<longrightarrow>
        taken w' = (case r of Inr x \<Rightarrow> (taken w)(h := taken w h @ [x]) | Inl _ \<Rightarrow> taken w))"

lemma receiver_lawsD:
  assumes "receiver_laws RX taken" and "poll_recv RX h cx w = (r, w')"
  shows "taken w' = (case r of Ready (Some x) \<Rightarrow> (taken w)(h := taken w h @ [x]) | _ \<Rightarrow> taken w)"
  using assms unfolding receiver_laws_def by blast

lemma receiver_laws_tryD:
  assumes "receiver_laws RX taken" and "try_recv RX h w = (r, w')"
  shows "taken w' = (case r of Inr x \<Rightarrow> (taken w)(h := taken w h @ [x]) | Inl _ \<Rightarrow> taken w)"
  using assms unfolding receiver_laws_def by blast

record ('w, 'a) sender_api =
  try_reserve :: "handle \<Rightarrow> 'w \<Rightarrow> (try_send_error + handle) \<times> 'w"
  permit_send :: "handle \<Rightarrow> 'a \<Rightarrow> 'w \<Rightarrow> 'w"

section \<open>\<open>tokio_util::sync::PollSender\<close>\<close>

text \<open>
  \<open>get_ref\<close> gives the underlying sender unless the \<open>PollSender\<close> is closed; \<open>capacity\<close> is
  the one of that sender.  The documentation of \<open>send_item\<close> says that it panics when no slot
  was reserved.
\<close>

datatype 'a poll_send_error = PollSendError "'a option"

record ('w, 'a) poll_sender_api =
  poll_reserve :: "handle \<Rightarrow> waker \<Rightarrow> 'w \<Rightarrow> ('a poll_send_error + unit) poll \<times> 'w"
  send_item :: "handle \<Rightarrow> 'a \<Rightarrow> 'w \<Rightarrow> (('a poll_send_error + unit) \<times> 'w) run"
  get_ref :: "handle \<Rightarrow> 'w \<Rightarrow> handle option"
  capacity :: "handle \<Rightarrow> 'w \<Rightarrow> nat"
  is_closed :: "handle \<Rightarrow> 'w \<Rightarrow> bool"
  close :: "handle \<Rightarrow> 'w \<Rightarrow> 'w"

text \<open>
  \<open>sent w h\<close>: the items sent through \<open>h\<close> so far; \<open>reserved w h\<close>: whether \<open>h\<close> holds a
  reserved slot.
\<close>

definition poll_sender_laws :: "('w, 'a) poll_sender_api \<Rightarrow> ('w \<Rightarrow> handle \<Rightarrow> 'a list)
    \<Rightarrow> ('w \<Rightarrow> handle \<Rightarrow> bool) \<Rightarrow> bool" where
  "poll_sender_laws PS sent reserved \<longleftrightarrow>
     (\<forall>h cx w r w'. poll_reserve PS h cx w = (r, w') \<longrightarrow>
        sent w' = sent w \<and> (r = Ready (Inr ()) \<longrightarrow> reserved w' h)) \<and>
     (\<forall>h x w. reserved w h \<longrightarrow> \<not> panics (send_item PS h x w)) \<and>
     (\<forall>h x w w'. send_item PS h x w = Inr (Inr (), w') \<longrightarrow>
        sent w' = (sent w)(h := sent w h @ [x])) \<and>
     (\<forall>h x w e w'. send_item PS h x w = Inr (Inl e, w') \<longrightarrow> sent w' = sent w)"

lemma poll_sender_lawsD:
  assumes "poll_sender_laws PS sent reserved"
  shows "poll_reserve PS h cx w = (r, w') \<Longrightarrow> sent w' = sent w"
    and "poll_reserve PS h cx w = (Ready (Inr ()), w') \<Longrightarrow> reserved w' h"
    and "reserved w h \<Longrightarrow> \<not> panics (send_item PS h x w)"
    and "send_item PS h x w = Inr (Inr (), w') \<Longrightarrow> sent w' = (sent w)(h := sent w h @ [x])"
    and "send_item PS h x w = Inr (Inl e, w') \<Longrightarrow> sent w' = sent w"
  using assms unfolding poll_sender_laws_def by blast+

section \<open>\<open>tokio::sync::oneshot\<close>\<close>

datatype recv_error = RecvError

record ('w, 'r) oneshot_api =
  channel :: "'w \<Rightarrow> (handle \<times> handle) \<times> 'w"
  poll_oneshot :: "handle \<Rightarrow> waker \<Rightarrow> 'w \<Rightarrow> ((recv_error + 'r) poll \<times> 'w) run"
  respond :: "handle \<Rightarrow> 'r \<Rightarrow> 'w \<Rightarrow> ('r + unit) \<times> 'w"

text \<open>
  \<open>live w rx\<close>: the receiving half \<open>rx\<close> has not completed, so polling it does not panic; a
  poll that is pending leaves it so.
\<close>

definition oneshot_laws :: "('w, 'r) oneshot_api \<Rightarrow> ('w \<Rightarrow> handle \<Rightarrow> bool) \<Rightarrow> bool" where
  "oneshot_laws OS live \<longleftrightarrow>
     (\<forall>w tx rx w'. channel OS w = ((tx, rx), w') \<longrightarrow> live w' rx) \<and>
     (\<forall>rx cx w. live w rx \<longrightarrow> \<not> panics (poll_oneshot OS rx cx w)) \<and>
     (\<forall>rx cx w w'. live w rx \<longrightarrow> poll_oneshot OS rx cx w = Inr (Pending, w') \<longrightarrow> live w' rx)"

lemma oneshot_lawsD:
  assumes "oneshot_laws OS live"
  shows "channel OS w = ((tx, rx), w') \<Longrightarrow> live w' rx"
    and "live w rx \<Longrightarrow> \<not> panics (poll_oneshot OS rx cx w)"
    and "live w rx \<Longrightarrow> poll_oneshot OS rx cx w = Inr (Pending, w') \<Longrightarrow> live w' rx"
  using assms unfolding oneshot_laws_def by blast+

text \<open>
  The two libraries do not touch each other's state: making or polling a one-shot cell
  neither sends on nor releases a slot of a \<open>PollSender\<close>, and sending leaves the one-shot
  cells as they are.
\<close>

definition separate_laws :: "('w, 'a) poll_sender_api \<Rightarrow> ('w, 'r) oneshot_api
    \<Rightarrow> ('w \<Rightarrow> handle \<Rightarrow> 'a list) \<Rightarrow> ('w \<Rightarrow> handle \<Rightarrow> bool) \<Rightarrow> ('w \<Rightarrow> handle \<Rightarrow> bool) \<Rightarrow> bool" where
  "separate_laws PS OS sent reserved live \<longleftrightarrow>
     (\<forall>w p w'. channel OS w = (p, w') \<longrightarrow> sent w' = sent w \<and> reserved w' = reserved w) \<and>
     (\<forall>rx cx w r w'. poll_oneshot OS rx cx w = Inr (r, w') \<longrightarrow> sent w' = sent w) \<and>
     (\<forall>h x w r w' rx. send_item PS h x w = Inr (r, w') \<longrightarrow> live w rx \<longrightarrow> live w' rx)"

lemma separate_lawsD:
  assumes "separate_laws PS OS sent reserved live"
  shows "channel OS w = (p, w') \<Longrightarrow> sent w' = sent w"
    and "channel OS w = (p, w') \<Longrightarrow> reserved w' = reserved w"
    and "poll_oneshot OS rx cx w = Inr (q, w') \<Longrightarrow> sent w' = sent w"
    and "send_item PS h x w = Inr (s, w') \<Longrightarrow> live w rx \<Longrightarrow> live w' rx"
  using assms unfolding separate_laws_def by blast+

end
