(* ===== verification/Command.thy ===== *)
theory Command
  imports Library_Api
begin

text \<open>
  The requests and responses of \<open>poll-read\<close> and its \<open>Command\<close>, the hand-written future that
  sends one request to the connection task and waits for the answer.  \<open>command_executor\<close> is
  the interface its three clients (\<open>QuicSendStream::poll_write\<close>, \<open>QuicWriteDgram::poll_ready\<close>,
  \<open>QuicWriteDgram::poll_flush\<close>) rely on, together with the table of pending commands they
  keep.
\<close>

section \<open>Requests, responses and commands\<close>

datatype request =
    Req_Read nat
  | Req_Write bytes
  | Req_WriteDgramFlush
  | Req_WriteDgramReady

datatype response =
    Resp_Read bytes
  | Resp_Write nat
  | Resp_ReadDgram bytes
  | Resp_WriteDgramFlush
  | Resp_WriteDgramReady

datatype request_error =
    NoRequest
  | SendError "(request \<times> handle) poll_send_error"
  | RecvFailed recv_error

datatype command =
    State0 (msg: "request option")
  | State1 (recv: handle)
  | Terminated

type_synonym 'w cmd_sender = "('w, request \<times> handle) poll_sender_api"
type_synonym 'w resp_cell = "('w, response) oneshot_api"

fun command_rank :: "command \<Rightarrow> nat" where
  "command_rank (State0 _) = 2"
| "command_rank (State1 _) = 1"
| "command_rank Terminated = 0"

text \<open>
  \<open>Command::poll_execute\<close>: the loop continues only from \<open>State0\<close> to \<open>State1\<close>.  The result
  carries the poll, the command (\<open>*self\<close>) and the world.  Where the slot is reserved but
  \<open>msg\<close> is gone, and where the send fails after \<open>msg.take()\<close>, the command stays in \<open>State0\<close>
  without its message, as in the source.
\<close>

function poll_execute :: "'w cmd_sender \<Rightarrow> 'w resp_cell \<Rightarrow> command \<Rightarrow> handle \<Rightarrow> waker \<Rightarrow> 'w
    \<Rightarrow> ((request_error + response) poll \<times> command \<times> 'w) run" where
  "poll_execute PS OS (State0 m) sender cx w =
     (case poll_reserve PS sender cx w of
        (Pending, w1) \<Rightarrow> Inr (Pending, State0 m, w1)
      | (Ready (Inl e), w1) \<Rightarrow> Inr (Ready (Inl (SendError e)), State0 m, w1)
      | (Ready (Inr _), w1) \<Rightarrow>
          (case m of
             None \<Rightarrow> Inr (Ready (Inl NoRequest), State0 None, w1)
           | Some req \<Rightarrow>
               (case channel OS w1 of
                  ((send, rx), w2) \<Rightarrow>
                    (case send_item PS sender (req, send) w2 of
                       Inl p \<Rightarrow> Inl p
                     | Inr (Inl e, w3) \<Rightarrow> Inr (Ready (Inl (SendError e)), State0 None, w3)
                     | Inr (Inr _, w3) \<Rightarrow> poll_execute PS OS (State1 rx) sender cx w3))))"
| "poll_execute PS OS (State1 rx) sender cx w =
     (case poll_oneshot OS rx cx w of
        Inl p \<Rightarrow> Inl p
      | Inr (Pending, w1) \<Rightarrow> Inr (Pending, State1 rx, w1)
      | Inr (Ready (Inr resp), w1) \<Rightarrow> Inr (Ready (Inr resp), Terminated, w1)
      | Inr (Ready (Inl e), w1) \<Rightarrow> Inr (Ready (Inl (RecvFailed e)), State1 rx, w1))"
| "poll_execute PS OS Terminated sender cx w = Inl Polled_After_Completion"
  by pat_completeness auto
termination
  by (relation "measure (\<lambda>(_, _, c, _, _, _). command_rank c)") simp_all

fun is_terminated :: "command \<Rightarrow> bool" where
  "is_terminated Terminated = True"
| "is_terminated (State0 _) = False"
| "is_terminated (State1 _) = False"

lemmas exec_splits = sum.splits poll.splits prod.splits option.splits

section \<open>The interface of a command\<close>

locale command_executor =
  fixes exec :: "'c \<Rightarrow> 's \<Rightarrow> waker \<Rightarrow> 'w \<Rightarrow> (('e + 'r) poll \<times> 'c \<times> 'w) run"
    and finished :: "'c \<Rightarrow> bool"
  assumes exec_pending: "exec c s cx w = Inr (Pending, c', w') \<Longrightarrow> \<not> finished c'"
    and exec_ok: "exec c s cx w = Inr (Ready (Inr r), c', w') \<Longrightarrow> finished c'"
    and exec_err: "exec c s cx w = Inr (Ready (Inl e), c', w') \<Longrightarrow> \<not> finished c'"
    and exec_finished: "finished c \<Longrightarrow> panics (exec c s cx w)"
begin

lemma finished_iff:
  assumes "exec c s cx w = Inr (q, c', w')"
  shows "finished c' \<longleftrightarrow> (\<exists>r. q = Ready (Inr r))"
proof (cases q)
  case (Ready x)
  with assms show ?thesis using exec_ok exec_err by (cases x) auto
next
  case Pending
  with assms show ?thesis using exec_pending by auto
qed

lemma started_unfinished:
  "exec c s cx w = Inr (q, c', w') \<Longrightarrow> \<not> finished c"
  using exec_finished [of c s cx w] by auto

text \<open>A second poll after the answer panics: a command answers once.\<close>

lemma exec_twice:
  assumes "exec c s cx w = Inr (Ready (Inr r), c', w')"
  shows "panics (exec c' s2 cx2 w2)"
  using exec_finished [OF exec_ok [OF assms]] .

lemma drive_finished_iff:
  assumes "drive (\<lambda>c. exec c s) xs c w = Inr (q, c', w')" and "\<not> finished c"
  shows "finished c' \<longleftrightarrow> (\<exists>r. q = Ready (Inr r))"
  using drive_induct [where I = "\<lambda>c _. \<not> finished c" and f = "\<lambda>c. exec c s"
      and Q = "\<lambda>x c _. finished c \<longleftrightarrow> (\<exists>r. x = Inr r)", OF assms(2) _ _ _ assms(1)]
    exec_pending finished_iff
  by (fastforce split: poll.splits)

end

lemma poll_execute_pending:
  "poll_execute PS OS c s cx w = Inr (Pending, c', w') \<Longrightarrow> \<not> is_terminated c'"
  by (induction PS OS c s cx w rule: poll_execute.induct) (auto split: exec_splits)

lemma poll_execute_ok:
  "poll_execute PS OS c s cx w = Inr (Ready (Inr r), c', w') \<Longrightarrow> is_terminated c'"
  by (induction PS OS c s cx w rule: poll_execute.induct) (auto split: exec_splits)

lemma poll_execute_err:
  "poll_execute PS OS c s cx w = Inr (Ready (Inl e), c', w') \<Longrightarrow> \<not> is_terminated c'"
  by (induction PS OS c s cx w rule: poll_execute.induct) (auto split: exec_splits)

interpretation cmd: command_executor "poll_execute PS OS" is_terminated for PS OS
proof unfold_locales
  fix c s cx w
  assume "is_terminated c"
  then show "panics (poll_execute PS OS c s cx w)" by (cases c) simp_all
qed (fact poll_execute_pending poll_execute_ok poll_execute_err)+

section \<open>What the library must promise, and what a command then guarantees\<close>

text \<open>The documented behaviour of the sender and of the one-shot cells, together.\<close>

definition command_laws :: "'w cmd_sender \<Rightarrow> 'w resp_cell \<Rightarrow> ('w \<Rightarrow> handle \<Rightarrow> (request \<times> handle) list)
    \<Rightarrow> ('w \<Rightarrow> handle \<Rightarrow> bool) \<Rightarrow> ('w \<Rightarrow> handle \<Rightarrow> bool) \<Rightarrow> bool" where
  "command_laws PS OS sent reserved live \<longleftrightarrow>
     poll_sender_laws PS sent reserved \<and> oneshot_laws OS live \<and>
     separate_laws PS OS sent reserved live"

text \<open>
  The invariant of a command between two polls, relative to the items \<open>old\<close> its sender had
  sent before it started and to the request \<open>req\<close> it was made for: nothing sent yet, or the
  request sent and the answer not yet received.
\<close>

fun command_inv :: "('w \<Rightarrow> handle \<Rightarrow> (request \<times> handle) list) \<Rightarrow> ('w \<Rightarrow> handle \<Rightarrow> bool) \<Rightarrow> handle
    \<Rightarrow> (request \<times> handle) list \<Rightarrow> request \<Rightarrow> command \<Rightarrow> 'w \<Rightarrow> bool" where
  "command_inv sent live s old req (State0 m) w = (m = Some req \<and> sent w s = old)"
| "command_inv sent live s old req (State1 rx) w =
     (live w rx \<and> (\<exists>tx. sent w s = old @ [(req, tx)]))"
| "command_inv sent live s old req Terminated w = False"

definition command_post :: "('w \<Rightarrow> handle \<Rightarrow> (request \<times> handle) list) \<Rightarrow> handle
    \<Rightarrow> (request \<times> handle) list \<Rightarrow> request \<Rightarrow> request_error + response \<Rightarrow> 'w \<Rightarrow> bool" where
  "command_post sent s old req x w \<longleftrightarrow>
     (case x of
        Inr _ \<Rightarrow> \<exists>tx. sent w s = old @ [(req, tx)]
      | Inl (RecvFailed _) \<Rightarrow> \<exists>tx. sent w s = old @ [(req, tx)]
      | Inl (SendError _) \<Rightarrow> sent w s = old
      | Inl NoRequest \<Rightarrow> False)"

lemma poll_execute_state1:
  assumes laws: "command_laws PS OS sent reserved live"
    and inv: "live w rx" "sent w s = old @ [(req, tx)]"
    and run: "poll_execute PS OS (State1 rx) s cx w = Inr (q, c', w')"
  shows "case q of Pending \<Rightarrow> command_inv sent live s old req c' w'
    | Ready x \<Rightarrow> command_post sent s old req x w'"
proof -
  note os = oneshot_lawsD [of OS live] and sep = separate_lawsD [of PS OS sent reserved live]
  from laws have os_laws: "oneshot_laws OS live" and sep_laws: "separate_laws PS OS sent reserved live"
    by (simp_all add: command_laws_def)
  obtain q1 w1 where poll: "poll_oneshot OS rx cx w = Inr (q1, w1)"
    using run by (cases "poll_oneshot OS rx cx w") auto
  have "sent w1 s = old @ [(req, tx)]" using sep(3) [OF sep_laws poll] inv(2) by simp
  moreover have "live w1 rx" if "q1 = Pending"
    using os(3) [OF os_laws inv(1)] poll that by simp
  ultimately show ?thesis
    using run poll by (auto simp: command_post_def split: poll.splits sum.splits)
qed

lemma poll_execute_inv:
  assumes laws: "command_laws PS OS sent reserved live"
    and inv: "command_inv sent live s old req c w"
    and run: "poll_execute PS OS c s cx w = Inr (q, c', w')"
  shows "case q of Pending \<Rightarrow> command_inv sent live s old req c' w'
    | Ready x \<Rightarrow> command_post sent s old req x w'"
proof (cases c)
  case (State1 rx)
  with inv obtain tx where "live w rx" "sent w s = old @ [(req, tx)]" by auto
  from poll_execute_state1 [OF laws this] run State1 show ?thesis by simp
next
  case (State0 m)
  with inv have m: "m = Some req" and old: "sent w s = old" by auto
  from laws have ps: "poll_sender_laws PS sent reserved" and os: "oneshot_laws OS live"
    and sep: "separate_laws PS OS sent reserved live"
    by (simp_all add: command_laws_def)
  obtain q1 w1 where r: "poll_reserve PS s cx w = (q1, w1)" by (cases "poll_reserve PS s cx w")
  have old1: "sent w1 s = old" using poll_sender_lawsD(1) [OF ps r] old by simp
  obtain tx rx w2 where ch: "channel OS w1 = ((tx, rx), w2)" by (metis surj_pair)
  have old2: "sent w2 s = old" using separate_lawsD(1) [OF sep ch] old1 by simp
  show ?thesis
  proof (cases "q1 = Ready (Inr ())")
    case False
    with run r State0 m old1 show ?thesis
      by (cases q1) (auto simp: command_post_def split: sum.splits)
  next
    case True
    note step = run [unfolded State0 m, simplified, unfolded r True, simplified, unfolded ch,
        simplified]
    obtain e w3 where snd: "send_item PS s (req, tx) w2 = Inr (e, w3)"
      using step by (cases "send_item PS s (req, tx) w2") auto
    show ?thesis
    proof (cases e)
      case (Inl x)
      with snd step poll_sender_lawsD(5) [OF ps, of s _ w2 x w3] old2 show ?thesis
        by (auto simp: command_post_def)
    next
      case (Inr u)
      with snd poll_sender_lawsD(4) [OF ps, of s _ w2 w3] old2
      have sent3: "sent w3 s = old @ [(req, tx)]" by simp
      have live3: "live w3 rx"
        using separate_lawsD(4) [OF sep snd] oneshot_lawsD(1) [OF os ch] by blast
      have "poll_execute PS OS (State1 rx) s cx w3 = Inr (q, c', w')"
        using step snd Inr by simp
      from poll_execute_state1 [OF laws live3 sent3 this] show ?thesis .
    qed
  qed
qed (use inv in simp)

lemma poll_execute_no_panic:
  assumes laws: "command_laws PS OS sent reserved live"
    and inv: "command_inv sent live s old req c w"
  shows "\<not> panics (poll_execute PS OS c s cx w)"
proof -
  from laws have ps: "poll_sender_laws PS sent reserved" and os: "oneshot_laws OS live"
    and sep: "separate_laws PS OS sent reserved live"
    by (simp_all add: command_laws_def)
  have state1: "\<not> panics (poll_execute PS OS (State1 rx) s cx v)" if "live v rx" for rx v
    using oneshot_lawsD(2) [OF os that, of cx]
    by (auto simp: not_panics_iff split: exec_splits)
  show ?thesis
  proof (cases c)
    case (State1 rx)
    with inv state1 show ?thesis by simp
  next
    case (State0 m)
    obtain q1 w1 where r: "poll_reserve PS s cx w = (q1, w1)" by (cases "poll_reserve PS s cx w")
    obtain tx rx w2 where ch: "channel OS w1 = ((tx, rx), w2)" by (metis surj_pair)
    show ?thesis
    proof (cases "q1 = Ready (Inr ())")
      case False
      with r State0 show ?thesis by (cases q1) (auto split: sum.splits)
    next
      case True
      then have "reserved w2 s"
        using poll_sender_lawsD(2) [OF ps, of s cx w w1] r separate_lawsD(2) [OF sep ch] by simp
      then obtain e w3 where snd: "send_item PS s (req, tx) w2 = Inr (e, w3)"
        using poll_sender_lawsD(3) [OF ps] by (metis not_panics_iff surj_pair)
      have "live w3 rx"
        using separate_lawsD(4) [OF sep snd] oneshot_lawsD(1) [OF os ch] by blast
      with state1 have "\<not> panics (poll_execute PS OS (State1 rx) s cx w3)" .
      with r True State0 inv ch snd show ?thesis by (auto split: sum.splits)
    qed
  qed (use inv in simp)
qed

end
