(* ===== verification/Sample_Runtime.thy ===== *)
theory Sample_Runtime
  imports Command
begin

text \<open>
  A small concrete runtime, used only in the witnesses: bounded channels, one-shot cells and
  a growable read buffer that satisfy the documented laws of \<open>Library_Api\<close>, so that every
  theorem with such a law as hypothesis is applied to an actual instance.  It models no code
  of the workspace.
\<close>

section \<open>Bytes and read buffers\<close>

definition sample_bytes :: bytes_api where
  "sample_bytes =
     \<lparr>split_to = (\<lambda>b n. if n \<le> length b then Inr (take n b, drop n b) else Inl Library_Panic),
      bytesmut_new = [],
      with_capacity = (\<lambda>n. if n \<le> isize_max then Inr [] else Inl Library_Panic),
      resize = (\<lambda>b n v. if n \<le> isize_max then Inr (take n (b @ replicate n v)) else Inl Library_Panic),
      extend_from_slice = (\<lambda>b s. Inr (b @ s)),
      freeze = (\<lambda>b. b)\<rparr>"

lemma sample_bytes_laws: "bytes_laws sample_bytes"
  by (simp add: bytes_laws_def sample_bytes_def)

record sample_buf =
  space :: nat
  content :: bytes

definition sample_readbuf :: "sample_buf readbuf_api" where
  "sample_readbuf =
     \<lparr>remaining = (\<lambda>rb. space rb - length (content rb)),
      put_slice = (\<lambda>rb s. if length s \<le> space rb - length (content rb)
        then Inr (rb\<lparr>content := content rb @ s\<rparr>) else Inl Library_Panic)\<rparr>"

lemma sample_readbuf_laws: "readbuf_laws sample_readbuf content"
  by (auto simp: readbuf_laws_def sample_readbuf_def)

section \<open>Channels\<close>

record 'a send_queue =
  sq_log :: "'a list"
  sq_free :: nat
  sq_held :: bool
  sq_shut :: bool

datatype cell = Cell_Empty | Cell_Full response | Cell_Done | Cell_Closed

record runtime =
  cmd_queue :: "handle \<Rightarrow> (request \<times> handle) send_queue"
  data_queue :: "handle \<Rightarrow> bytes send_queue"
  cells :: "handle \<Rightarrow> cell"
  next_handle :: handle
  inbox :: "handle \<Rightarrow> bytes list"
  inbox_open :: "handle \<Rightarrow> bool"
  inbox_log :: "handle \<Rightarrow> bytes list"

fun queue_reserve :: "'a send_queue \<Rightarrow> ('a poll_send_error + unit) poll \<times> 'a send_queue" where
  "queue_reserve q =
     (if sq_shut q then (Ready (Inl (PollSendError None)), q)
      else if sq_held q then (Ready (Inr ()), q)
      else if sq_free q = 0 then (Pending, q)
      else (Ready (Inr ()), q\<lparr>sq_free := sq_free q - 1, sq_held := True\<rparr>))"

fun queue_send :: "'a send_queue \<Rightarrow> 'a \<Rightarrow> (('a poll_send_error + unit) \<times> 'a send_queue) run" where
  "queue_send q x =
     (if sq_held q then Inr (Inr (), q\<lparr>sq_log := sq_log q @ [x], sq_held := False\<rparr>)
      else if sq_shut q then Inr (Inl (PollSendError (Some x)), q)
      else Inl Library_Panic)"

definition sample_cmds :: "runtime cmd_sender" where
  "sample_cmds =
     \<lparr>poll_reserve = (\<lambda>h cx w. case queue_reserve (cmd_queue w h) of
        (r, q) \<Rightarrow> (r, w\<lparr>cmd_queue := (cmd_queue w)(h := q)\<rparr>)),
      send_item = (\<lambda>h x w. case queue_send (cmd_queue w h) x of
        Inl p \<Rightarrow> Inl p | Inr (r, q) \<Rightarrow> Inr (r, w\<lparr>cmd_queue := (cmd_queue w)(h := q)\<rparr>)),
      get_ref = (\<lambda>h w. if sq_shut (cmd_queue w h) then None else Some h),
      capacity = (\<lambda>h w. sq_free (cmd_queue w h)),
      is_closed = (\<lambda>h w. sq_shut (cmd_queue w h)),
      close = (\<lambda>h w. w\<lparr>cmd_queue := (cmd_queue w)(h := (cmd_queue w h)\<lparr>sq_shut := True\<rparr>)\<rparr>)\<rparr>"

definition sample_data :: "(runtime, bytes) poll_sender_api" where
  "sample_data =
     \<lparr>poll_reserve = (\<lambda>h cx w. case queue_reserve (data_queue w h) of
        (r, q) \<Rightarrow> (r, w\<lparr>data_queue := (data_queue w)(h := q)\<rparr>)),
      send_item = (\<lambda>h x w. case queue_send (data_queue w h) x of
        Inl p \<Rightarrow> Inl p | Inr (r, q) \<Rightarrow> Inr (r, w\<lparr>data_queue := (data_queue w)(h := q)\<rparr>)),
      get_ref = (\<lambda>h w. if sq_shut (data_queue w h) then None else Some h),
      capacity = (\<lambda>h w. sq_free (data_queue w h)),
      is_closed = (\<lambda>h w. sq_shut (data_queue w h)),
      close = (\<lambda>h w. w\<lparr>data_queue := (data_queue w)(h := (data_queue w h)\<lparr>sq_shut := True\<rparr>)\<rparr>)\<rparr>"

definition sample_cells :: "runtime resp_cell" where
  "sample_cells =
     \<lparr>channel = (\<lambda>w. ((next_handle w, next_handle w),
        w\<lparr>next_handle := Suc (next_handle w), cells := (cells w)(next_handle w := Cell_Empty)\<rparr>)),
      poll_oneshot = (\<lambda>rx cx w. case cells w rx of
          Cell_Empty \<Rightarrow> Inr (Pending, w)
        | Cell_Full r \<Rightarrow> Inr (Ready (Inr r), w\<lparr>cells := (cells w)(rx := Cell_Done)\<rparr>)
        | Cell_Closed \<Rightarrow> Inr (Ready (Inl RecvError), w)
        | Cell_Done \<Rightarrow> Inl Library_Panic),
      respond = (\<lambda>tx r w. (Inr (), w\<lparr>cells := (cells w)(tx := Cell_Full r)\<rparr>))\<rparr>"

definition sample_inbox :: "(runtime, bytes) receiver_api" where
  "sample_inbox =
     \<lparr>poll_recv = (\<lambda>h cx w. case inbox w h of
          x # xs \<Rightarrow> (Ready (Some x), w\<lparr>inbox := (inbox w)(h := xs),
             inbox_log := (inbox_log w)(h := inbox_log w h @ [x])\<rparr>)
        | [] \<Rightarrow> (if inbox_open w h then Pending else Ready None, w)),
      try_recv = (\<lambda>h w. case inbox w h of
          x # xs \<Rightarrow> (Inr x, w\<lparr>inbox := (inbox w)(h := xs),
             inbox_log := (inbox_log w)(h := inbox_log w h @ [x])\<rparr>)
        | [] \<Rightarrow> (Inl (if inbox_open w h then Recv_Empty else Recv_Disconnected), w))\<rparr>"

definition sample_outbox :: "(runtime, bytes) sender_api" where
  "sample_outbox =
     \<lparr>try_reserve = (\<lambda>h w. (if \<not> inbox_open w h then Inl Send_Closed
          else if inbox w h \<noteq> [] then Inl Send_Full else Inr h, w)),
      permit_send = (\<lambda>h x w. w\<lparr>inbox := (inbox w)(h := inbox w h @ [x])\<rparr>)\<rparr>"

definition empty_queue :: "nat \<Rightarrow> 'a send_queue" where
  "empty_queue n = \<lparr>sq_log = [], sq_free = n, sq_held = False, sq_shut = False\<rparr>"

text \<open>A fresh runtime: the command channel has \<open>c\<close> free slots, the data channel \<open>d\<close>.\<close>

definition sample_world :: "nat \<Rightarrow> nat \<Rightarrow> runtime" where
  "sample_world c d =
     \<lparr>cmd_queue = (\<lambda>_. empty_queue c), data_queue = (\<lambda>_. empty_queue d),
      cells = (\<lambda>_. Cell_Empty), next_handle = 100, inbox = (\<lambda>_. []),
      inbox_open = (\<lambda>_. True), inbox_log = (\<lambda>_. [])\<rparr>"

lemmas sample_defs = sample_cmds_def sample_data_def sample_cells_def sample_inbox_def
  sample_outbox_def sample_bytes_def sample_readbuf_def sample_world_def empty_queue_def

abbreviation sample_sent :: "runtime \<Rightarrow> handle \<Rightarrow> (request \<times> handle) list" where
  "sample_sent w h \<equiv> sq_log (cmd_queue w h)"

abbreviation sample_reserved :: "runtime \<Rightarrow> handle \<Rightarrow> bool" where
  "sample_reserved w h \<equiv> sq_held (cmd_queue w h)"

abbreviation sample_live :: "runtime \<Rightarrow> handle \<Rightarrow> bool" where
  "sample_live w h \<equiv> cells w h \<noteq> Cell_Done"

lemma sample_receiver_laws: "receiver_laws sample_inbox inbox_log"
  by (auto simp: receiver_laws_def sample_inbox_def split: list.splits poll.splits)

lemma sample_poll_sender_laws: "poll_sender_laws sample_cmds sample_sent sample_reserved"
  by (auto simp: poll_sender_laws_def sample_cmds_def fun_eq_iff split: if_splits)

lemma sample_command_laws:
  "command_laws sample_cmds sample_cells sample_sent sample_reserved sample_live"
  unfolding command_laws_def
proof (intro conjI)
  show "oneshot_laws sample_cells sample_live"
    by (auto simp: oneshot_laws_def sample_cells_def split: cell.splits)
  show "separate_laws sample_cmds sample_cells sample_sent sample_reserved sample_live"
    by (auto simp: separate_laws_def sample_cells_def sample_cmds_def fun_eq_iff
        split: cell.splits if_splits)
qed (rule sample_poll_sender_laws)

abbreviation sample_dsent :: "runtime \<Rightarrow> handle \<Rightarrow> bytes list" where
  "sample_dsent w h \<equiv> sq_log (data_queue w h)"

abbreviation sample_dreserved :: "runtime \<Rightarrow> handle \<Rightarrow> bool" where
  "sample_dreserved w h \<equiv> sq_held (data_queue w h)"

lemma sample_data_sender_laws: "poll_sender_laws sample_data sample_dsent sample_dreserved"
  by (auto simp: poll_sender_laws_def sample_data_def fun_eq_iff split: if_splits)

lemma sample_frames:
  "poll_reserve sample_cmds h cx w = (r, w') \<Longrightarrow> data_queue w' = data_queue w"
  "send_item sample_cmds h x w = Inr (e, w') \<Longrightarrow> data_queue w' = data_queue w"
  "channel sample_cells w = (c, w') \<Longrightarrow> data_queue w' = data_queue w"
  "poll_oneshot sample_cells rx cx w = Inr (q, w') \<Longrightarrow> data_queue w' = data_queue w"
  "poll_reserve sample_data h cx w = (d, w') \<Longrightarrow> cmd_queue w' = cmd_queue w \<and> cells w' = cells w"
  by (auto simp: sample_cmds_def sample_cells_def sample_data_def split: if_splits cell.splits)

end
