(* ===== verification/Command_Correct.thy ===== *)
theory Command_Correct
  imports Sample_Runtime
begin

text \<open>
  What a \<open>Command\<close> guarantees to the futures built on it, over a whole run of polls with the
  rest of the program running in between.
\<close>

text \<open>
  The rest of the program neither uses the command's own sender nor completes its one-shot
  cell from the receiving side.
\<close>

definition schedule_ok :: "('w \<Rightarrow> handle \<Rightarrow> (request \<times> handle) list) \<Rightarrow> ('w \<Rightarrow> handle \<Rightarrow> bool)
    \<Rightarrow> handle \<Rightarrow> (waker \<times> ('w \<Rightarrow> 'w)) list \<Rightarrow> bool" where
  "schedule_ok sent live s xs \<longleftrightarrow>
     (\<forall>x \<in> set xs. \<forall>w. sent (snd x w) s = sent w s \<and> (\<forall>rx. live w rx \<longrightarrow> live (snd x w) rx))"

lemma schedule_ok_inv:
  assumes "schedule_ok sent live s xs" and "(cx, g) \<in> set xs"
    and "command_inv sent live s old req c w"
  shows "command_inv sent live s old req c (g w)"
  using assms by (cases c) (force simp: schedule_ok_def)+

text \<open>
  C11: However often a fresh command is polled, and whatever the rest of the program does in
  between, its request goes out at most once: a pending command has sent nothing or exactly
  its request, an answered one (and one whose answer was lost) has sent it exactly once, and
  one that failed to send has sent nothing.
\<close>

theorem command_sends_once:
  assumes laws: "command_laws PS OS sent reserved live"
    and env: "schedule_ok sent live s xs"
    and run: "drive (\<lambda>c. poll_execute PS OS c s) xs (State0 (Some req)) w = Inr (q, c', w')"
  shows "case q of
      Pending \<Rightarrow> sent w' s = sent w s \<or> (\<exists>tx. sent w' s = sent w s @ [(req, tx)])
    | Ready (Inl (SendError _)) \<Rightarrow> sent w' s = sent w s
    | Ready (Inl NoRequest) \<Rightarrow> False
    | Ready _ \<Rightarrow> \<exists>tx. sent w' s = sent w s @ [(req, tx)]"
proof -
  have "case q of Pending \<Rightarrow> command_inv sent live s (sent w s) req c' w'
    | Ready x \<Rightarrow> command_post sent s (sent w s) req x w'"
    by (rule drive_induct [OF _ _ _ _ run])
      (auto simp: schedule_ok_inv [OF env] dest: poll_execute_inv [OF laws])
  then show ?thesis
    by (cases c') (auto simp: command_post_def split: poll.splits sum.splits request_error.splits)
qed

text \<open>An answer arrives between the first and the second poll.\<close>

definition sample_schedule :: "(waker \<times> (runtime \<Rightarrow> runtime)) list" where
  "sample_schedule = [(1, \<lambda>w. w),
     (1, \<lambda>w. w\<lparr>cells := (\<lambda>h. if cells w h = Cell_Empty then Cell_Full (Resp_Write 4) else cells w h)\<rparr>)]"

lemma sample_schedule_ok: "schedule_ok sample_sent sample_live s sample_schedule"
  by (auto simp: schedule_ok_def sample_schedule_def)

lemma sample_drive:
  "drive (\<lambda>c. poll_execute sample_cmds sample_cells c 7) sample_schedule
     (State0 (Some (Req_Write [1, 2, 3, 4]))) (sample_world 1 0) =
   Inr (Ready (Inr (Resp_Write 4)), Terminated,
     (sample_world 1 0)\<lparr>cmd_queue := (cmd_queue (sample_world 1 0))(7 := (empty_queue 0)
          \<lparr>sq_log := [(Req_Write [1, 2, 3, 4], 100)]\<rparr>),
        cells := (\<lambda>h. Cell_Full (Resp_Write 4))(100 := Cell_Done), next_handle := 101\<rparr>)"
  by (simp add: sample_schedule_def sample_defs fun_eq_iff)

theorem command_sends_once_witness:
  "\<exists>w'. drive (\<lambda>c. poll_execute sample_cmds sample_cells c 7) sample_schedule
      (State0 (Some (Req_Write [1, 2, 3, 4]))) (sample_world 1 0) =
      Inr (Ready (Inr (Resp_Write 4)), Terminated, w') \<and>
    (\<exists>tx. sample_sent w' 7 = [(Req_Write [1, 2, 3, 4], tx)])"
  using command_sends_once [OF sample_command_laws sample_schedule_ok sample_drive] sample_drive
  by (simp add: sample_world_def empty_queue_def)

text \<open>
  A command made for a request never panics while it is awaited: the send is always behind
  a reserved slot, the one-shot cell is polled only until it completes, and an answered
  command is not polled again.
\<close>

theorem command_never_panics:
  assumes laws: "command_laws PS OS sent reserved live"
    and env: "schedule_ok sent live s xs"
  shows "\<not> panics (drive (\<lambda>c. poll_execute PS OS c s) xs (State0 (Some req)) w)"
proof (rule drive_no_panic [where I = "command_inv sent live s (sent w s) req"])
  fix c cx w1 c' w1'
  assume "command_inv sent live s (sent w s) req c w1"
    and "poll_execute PS OS c s cx w1 = Inr (Pending, c', w1')"
  from poll_execute_inv [OF laws this] show "command_inv sent live s (sent w s) req c' w1'" by simp
qed (auto simp: schedule_ok_inv [OF env] poll_execute_no_panic [OF laws])

theorem command_never_panics_witness:
  "\<not> panics (drive (\<lambda>c. poll_execute sample_cmds sample_cells c 7) sample_schedule
     (State0 (Some (Req_Write [1, 2, 3, 4]))) (sample_world 1 0))"
  by (rule command_never_panics [OF sample_command_laws sample_schedule_ok])

text \<open>
  Awaiting a command leaves it \<open>Terminated\<close> exactly when it was answered, and every later
  poll of a terminated command panics (\<open>future polled after completion\<close>); this holds of any
  libraries.
\<close>

theorem command_terminated_iff_answered:
  assumes run: "drive (\<lambda>c. poll_execute PS OS c s) xs c w = Inr (q, c', w')"
    and fresh: "\<not> is_terminated c"
  shows "(is_terminated c' \<longleftrightarrow> (\<exists>resp. q = Ready (Inr resp))) \<and>
    (is_terminated c' \<longrightarrow> panics (poll_execute PS OS c' s cx w2))"
  using cmd.drive_finished_iff [OF run fresh] cmd.exec_finished [of c' PS OS s cx w2] by blast

theorem command_terminated_iff_answered_witness:
  "panics (poll_execute sample_cmds sample_cells Terminated 7 1 (sample_world 1 0))"
  using command_terminated_iff_answered [OF sample_drive, of 1 "sample_world 1 0"] by simp

end
