(* ===== verification/Recv_Stream.thy ===== *)
theory Recv_Stream
  imports Sample_Runtime
begin

text \<open>
  \<open>QuicRecvStream\<close> of \<open>poll-read\<close>: \<open>poll_read\<close> fills the caller's buffer from the bytes left
  over from the last call (\<open>local_storage\<close>) and then from the chunks of its channel.  The two
  loops have no bound of their own, so they are partial functions; \<open>None\<close> is \<open>does not
  return\<close>.
\<close>

section \<open>The model\<close>

record recv_stream =
  rs_receiver :: handle
  rs_local_storage :: "bytes option"
  rs_sender :: handle
  rs_stream_id :: nat
  rs_cmd_pending :: "nat \<rightharpoonup> command"

text \<open>
  The inner loop \<open>while let Some(mut bytes) = me.local_storage.take()\<close>.  The flag of the result
  says whether it left the outer loop (\<open>break 'outer\<close>).
\<close>

partial_function (option) copy_local :: "bytes_api \<Rightarrow> 'rb readbuf_api \<Rightarrow> recv_stream \<Rightarrow> 'rb
    \<Rightarrow> (bool \<times> recv_stream \<times> 'rb) run option" where
  "copy_local B R me buf =
     (case rs_local_storage me of
        None \<Rightarrow> Some (Inr (False, me, buf))
      | Some bytes \<Rightarrow>
          (case split_to B bytes (min (remaining R buf) (length bytes)) of
             Inl p \<Rightarrow> Some (Inl p)
           | Inr (front, rest) \<Rightarrow>
               (case put_slice R buf front of
                  Inl p \<Rightarrow> Some (Inl p)
                | Inr buf1 \<Rightarrow>
                    (let me1 = me\<lparr>rs_local_storage := (if rest \<noteq> [] then Some rest else None)\<rparr>
                     in if remaining R buf1 = 0 then Some (Inr (True, me1, buf1))
                        else copy_local B R me1 buf1))))"

partial_function (option) poll_read_loop :: "bytes_api \<Rightarrow> 'rb readbuf_api
    \<Rightarrow> ('w, bytes) receiver_api \<Rightarrow> recv_stream \<Rightarrow> waker \<Rightarrow> 'rb \<Rightarrow> 'w
    \<Rightarrow> ((io_error + unit) poll \<times> recv_stream \<times> 'rb \<times> 'w) run option" where
  "poll_read_loop B R RX me cx buf w =
     Option.bind (copy_local B R me buf) (\<lambda>r.
       case r of
         Inl p \<Rightarrow> Some (Inl p)
       | Inr (full, me1, buf1) \<Rightarrow>
           if full then Some (Inr (Ready (Inr ()), me1, buf1, w))
           else
             (case poll_recv RX (rs_receiver me1) cx w of
                (Pending, w1) \<Rightarrow> Some (Inr (Pending, me1, buf1, w1))
              | (Ready None, w1) \<Rightarrow>
                  Some (Inr (Ready (Inl (Io_Error Other ''oneshot recv failed'')), me1, buf1, w1))
              | (Ready (Some bytes), w1) \<Rightarrow>
                  poll_read_loop B R RX (me1\<lparr>rs_local_storage := Some bytes\<rparr>) cx buf1 w1))"

text \<open>\<open>QuicRecvStream::poll_read\<close>.\<close>

definition poll_read :: "bytes_api \<Rightarrow> 'rb readbuf_api \<Rightarrow> ('w, bytes) receiver_api
    \<Rightarrow> recv_stream \<Rightarrow> waker \<Rightarrow> 'rb \<Rightarrow> 'w
    \<Rightarrow> ((io_error + unit) poll \<times> recv_stream \<times> 'rb \<times> 'w) run option" where
  "poll_read B R RX me cx buf w =
     (if remaining R buf = 0 then Some (Inr (Ready (Inr ()), me, buf, w))
      else poll_read_loop B R RX me cx buf w)"

section \<open>The inner loop in closed form\<close>

text \<open>The bytes a stream has received and not yet handed to a caller.\<close>

definition stored :: "recv_stream \<Rightarrow> bytes" where
  "stored me = (case rs_local_storage me of None \<Rightarrow> [] | Some b \<Rightarrow> b)"

lemma stored_simps [simp]:
  "stored (me\<lparr>rs_local_storage := None\<rparr>) = []"
  "stored (me\<lparr>rs_local_storage := Some b\<rparr>) = b"
  "stored (me\<lparr>rs_local_storage := if b \<noteq> [] then Some b else None\<rparr>) = b"
  "rs_local_storage me = None \<Longrightarrow> stored me = []"
  "rs_local_storage me = Some b \<Longrightarrow> stored me = b"
  by (simp_all add: stored_def)

lemma copy_local_closed:
  assumes B: "bytes_laws B" and R: "readbuf_laws R filled" and room: "0 < remaining R buf"
  obtains buf1 me1 where
    "copy_local B R me buf = Some (Inr (remaining R buf \<le> length (stored me), me1, buf1))"
    and "filled buf1 @ stored me1 = filled buf @ stored me"
    and "remaining R buf1 = remaining R buf - length (stored me)"
    and "rs_receiver me1 = rs_receiver me"
    and "rs_local_storage me1 =
      (if remaining R buf < length (stored me) then Some (drop (remaining R buf) (stored me)) else None)"
proof (cases "rs_local_storage me")
  case None
  then show thesis
    using that [of me buf] room by (simp add: copy_local.simps)
next
  case (Some b)
  let ?n = "min (remaining R buf) (length b)"
  obtain buf1 where put: "put_slice R buf (take ?n b) = Inr buf1"
    and fill: "filled buf1 = filled buf @ take ?n b"
    and rem: "remaining R buf1 = remaining R buf - ?n"
    using readbuf_lawsE [OF R, of "take ?n b" buf] by auto
  let ?me1 = "me\<lparr>rs_local_storage := (if drop ?n b \<noteq> [] then Some (drop ?n b) else None)\<rparr>"
  have "copy_local B R me buf = Some (Inr (remaining R buf \<le> length b, ?me1, buf1))"
  proof (cases "remaining R buf \<le> length b")
    case True
    then show ?thesis
      using Some put rem bytes_lawsD(1) [OF B, of ?n b]
      by (subst copy_local.simps) (simp add: Let_def)
  next
    case False
    have again: "copy_local B R (me\<lparr>rs_local_storage := None\<rparr>) buf1 =
        Some (Inr (False, me\<lparr>rs_local_storage := None\<rparr>, buf1))"
      by (subst copy_local.simps) simp
    from False show ?thesis
      using Some put rem bytes_lawsD(1) [OF B, of ?n b] again
      by (subst copy_local.simps) (simp add: Let_def)
  qed
  then show thesis
    using that [of ?me1 buf1] Some fill rem by (auto simp: min_def split: if_splits)
qed

section \<open>Every byte is handed on, once and in order\<close>

text \<open>
  The outcome of a call, relative to the buffer, the stored bytes and the received chunks
  before it.
\<close>

definition read_post :: "'rb readbuf_api \<Rightarrow> ('rb \<Rightarrow> bytes) \<Rightarrow> ('w \<Rightarrow> handle \<Rightarrow> bytes list)
    \<Rightarrow> recv_stream \<Rightarrow> 'rb \<Rightarrow> 'w \<Rightarrow> (io_error + unit) poll \<Rightarrow> recv_stream \<Rightarrow> 'rb \<Rightarrow> 'w \<Rightarrow> bool" where
  "read_post R filled taken me buf w r me' buf' w' \<longleftrightarrow>
     (\<exists>new. taken w' (rs_receiver me) = taken w (rs_receiver me) @ new \<and>
        filled buf' @ stored me' = filled buf @ stored me @ concat new) \<and>
     (r = Ready (Inr ()) \<longleftrightarrow> remaining R buf' = 0) \<and>
     (r \<noteq> Ready (Inr ()) \<longrightarrow> rs_local_storage me' = None) \<and>
     rs_receiver me' = rs_receiver me"

lemma poll_read_loop_unfold:
  assumes "copy_local B R me buf = Some (Inr (full, me1, buf1))"
  shows "poll_read_loop B R RX me cx buf w =
    (if full then Some (Inr (Ready (Inr ()), me1, buf1, w))
     else (case poll_recv RX (rs_receiver me1) cx w of
         (Pending, w1) \<Rightarrow> Some (Inr (Pending, me1, buf1, w1))
       | (Ready None, w1) \<Rightarrow>
           Some (Inr (Ready (Inl (Io_Error Other ''oneshot recv failed'')), me1, buf1, w1))
       | (Ready (Some bytes), w1) \<Rightarrow>
           poll_read_loop B R RX (me1\<lparr>rs_local_storage := Some bytes\<rparr>) cx buf1 w1))"
  by (subst poll_read_loop.simps) (simp add: assms)

lemma read_post_chunk:
  assumes "read_post R filled taken (me1\<lparr>rs_local_storage := Some b\<rparr>) buf1 w1 r me' buf' w'"
    and "filled buf1 @ stored me1 = filled buf @ stored me" and "rs_local_storage me1 = None"
    and "rs_receiver me1 = rs_receiver me"
    and "taken w1 = (taken w)(rs_receiver me := taken w (rs_receiver me) @ [b])"
  shows "read_post R filled taken me buf w r me' buf' w'"
proof -
  from assms(1,4) obtain new where
    "taken w' (rs_receiver me) = taken w1 (rs_receiver me) @ new"
    "filled buf' @ stored me' = filled buf1 @ b @ concat new"
    by (auto simp: read_post_def)
  with assms(2,3,5) have "taken w' (rs_receiver me) = taken w (rs_receiver me) @ (b # new)"
    "filled buf' @ stored me' = filled buf @ stored me @ concat (b # new)"
    by simp_all
  with assms(1,4) show ?thesis by (auto simp: read_post_def)
qed

lemma poll_read_loop_post:
  assumes B: "bytes_laws B" and R: "readbuf_laws R filled" and RX: "receiver_laws RX taken"
    and ret: "poll_read_loop B R RX me cx buf w = Some res" and room: "0 < remaining R buf"
  shows "\<exists>r me' buf' w'. res = Inr (r, me', buf', w') \<and> read_post R filled taken me buf w r me' buf' w'"
proof -
  let ?P = "\<lambda>B' R' RX' me cx buf w res. B' = B \<longrightarrow> R' = R \<longrightarrow> RX' = RX \<longrightarrow> 0 < remaining R buf \<longrightarrow>
    (\<exists>r me' buf' w'. res = Inr (r, me', buf', w') \<and> read_post R filled taken me buf w r me' buf' w')"
  have "?P B R RX me cx buf w res"
  proof (rule poll_read_loop.raw_induct [where P = ?P, OF _ ret], intro impI)
    fix f B' R' RX' me cx buf w res
    assume IH: "\<And>B' R' RX' me cx buf w res. f B' R' RX' me cx buf w = Some res \<Longrightarrow> ?P B' R' RX' me cx buf w res"
      and eq: "Option.bind (copy_local B' R' me buf) (\<lambda>r. case r of
          Inl p \<Rightarrow> Some (Inl p)
        | Inr (full, me1, buf1) \<Rightarrow> if full then Some (Inr (Ready (Inr ()), me1, buf1, w))
          else (case poll_recv RX' (rs_receiver me1) cx w of
              (Pending, w1) \<Rightarrow> Some (Inr (Pending, me1, buf1, w1))
            | (Ready None, w1) \<Rightarrow>
                Some (Inr (Ready (Inl (Io_Error Other ''oneshot recv failed'')), me1, buf1, w1))
            | (Ready (Some bytes), w1) \<Rightarrow>
                f B' R' RX' (me1\<lparr>rs_local_storage := Some bytes\<rparr>) cx buf1 w1)) = Some res"
      and same: "B' = B" "R' = R" "RX' = RX" and room: "0 < remaining R buf"
    obtain buf1 me1 where
      cl: "copy_local B R me buf = Some (Inr (remaining R buf \<le> length (stored me), me1, buf1))"
      and keep: "filled buf1 @ stored me1 = filled buf @ stored me"
      and rem: "remaining R buf1 = remaining R buf - length (stored me)"
      and h: "rs_receiver me1 = rs_receiver me"
      and loc: "rs_local_storage me1 = (if remaining R buf < length (stored me)
        then Some (drop (remaining R buf) (stored me)) else None)"
      by (rule copy_local_closed [OF B R room])
    show "\<exists>r me' buf' w'. res = Inr (r, me', buf', w') \<and> read_post R filled taken me buf w r me' buf' w'"
    proof (cases "remaining R buf \<le> length (stored me)")
      case True
      then show ?thesis using eq cl same keep rem h by (auto simp: read_post_def)
    next
      case False
      then have none: "rs_local_storage me1 = None" and room1: "0 < remaining R buf1"
        using loc rem by simp_all
      obtain q w1 where recv: "poll_recv RX (rs_receiver me) cx w = (q, w1)"
        by (cases "poll_recv RX (rs_receiver me) cx w")
      note tk = receiver_lawsD [OF RX recv]
      show ?thesis
      proof (cases "\<exists>b. q = Ready (Some b)")
        case True
        then obtain b where q: "q = Ready (Some b)" by blast
        have "f B R RX (me1\<lparr>rs_local_storage := Some b\<rparr>) cx buf1 w1 = Some res"
          using eq cl same False recv q h by simp
        from IH [OF this] room1 obtain r me' buf' w' where "res = Inr (r, me', buf', w')"
          and "read_post R filled taken (me1\<lparr>rs_local_storage := Some b\<rparr>) buf1 w1 r me' buf' w'"
          by auto
        with read_post_chunk [OF this(2) keep none h] tk q show ?thesis by auto
      next
        case other: False
        then show ?thesis
          using eq cl same False recv h tk none room1 keep
          by (auto simp: read_post_def split: poll.splits option.splits)
      qed
    qed
  qed
  with room show ?thesis by simp
qed

lemma poll_read_post:
  assumes "bytes_laws B" and "readbuf_laws R filled" and "receiver_laws RX taken"
    and "poll_read B R RX me cx buf w = Some res" and "0 < remaining R buf"
  shows "\<exists>r me' buf' w'. res = Inr (r, me', buf', w') \<and> read_post R filled taken me buf w r me' buf' w'"
  using poll_read_loop_post [OF assms(1-3) _ assms(5)] assms(4,5) by (simp add: poll_read_def)

text \<open>
  C8: \<open>poll_read\<close> loses, repeats and reorders no byte: after a call, the bytes in the caller's
  buffer followed by the bytes kept in \<open>local_storage\<close> are those that were there before it,
  followed by the chunks the call received, in order.  This holds whether the call is ready,
  pending or fails, and a call never panics.
\<close>

theorem poll_read_conserves_bytes:
  assumes "bytes_laws B" and "readbuf_laws R filled" and "receiver_laws RX taken"
    and "poll_read B R RX me cx buf w = Some res"
  shows "\<exists>r me' buf' w' new. res = Inr (r, me', buf', w') \<and>
    taken w' (rs_receiver me) = taken w (rs_receiver me) @ new \<and>
    filled buf' @ stored me' = filled buf @ stored me @ concat new"
proof (cases "remaining R buf = 0")
  case True
  with assms(4) show ?thesis by (auto simp: poll_read_def intro: exI [of _ "[]"])
next
  case False
  with poll_read_post [OF assms] show ?thesis by (auto simp: read_post_def)
qed

definition sample_recv :: recv_stream where
  "sample_recv = \<lparr>rs_receiver = 3, rs_local_storage = Some [1, 2], rs_sender = 7, rs_stream_id = 0,
     rs_cmd_pending = Map.empty\<rparr>"

definition sample_chunks :: "bytes list \<Rightarrow> runtime" where
  "sample_chunks xs = (sample_world 1 0)\<lparr>inbox := (\<lambda>_. [])(3 := xs)\<rparr>"

lemma sample_read:
  "poll_read sample_bytes sample_readbuf sample_inbox sample_recv 1 \<lparr>space = 4, content = []\<rparr>
     (sample_chunks [[3, 4, 5]]) =
   Some (Inr (Ready (Inr ()), sample_recv\<lparr>rs_local_storage := Some [5]\<rparr>,
     \<lparr>space = 4, content = [1, 2, 3, 4]\<rparr>,
     (sample_chunks [])\<lparr>inbox_log := (\<lambda>_. [])(3 := [[3, 4, 5]])\<rparr>))"
  by (simp add: poll_read_def poll_read_loop.simps copy_local.simps sample_recv_def
      sample_chunks_def sample_defs Let_def)

theorem poll_read_conserves_bytes_witness:
  "\<exists>me' buf' w'. poll_read sample_bytes sample_readbuf sample_inbox sample_recv 1
     \<lparr>space = 4, content = []\<rparr> (sample_chunks [[3, 4, 5]]) = Some (Inr (Ready (Inr ()), me', buf', w')) \<and>
   content buf' @ stored me' = [1, 2, 3, 4, 5]"
  using poll_read_conserves_bytes [OF sample_bytes_laws sample_readbuf_laws sample_receiver_laws
      sample_read] sample_read
  by (simp add: sample_recv_def sample_chunks_def sample_world_def)

text \<open>
  C32: \<open>poll_read\<close> is ready with success exactly when it has filled the caller's buffer; when it
  is pending or fails, it has already moved everything it had stored into the buffer.
\<close>

theorem poll_read_ready_iff_full:
  assumes "bytes_laws B" and "readbuf_laws R filled" and "receiver_laws RX taken"
    and "poll_read B R RX me cx buf w = Some (Inr (r, me', buf', w'))"
  shows "(r = Ready (Inr ()) \<longleftrightarrow> remaining R buf' = 0) \<and>
    (r \<noteq> Ready (Inr ()) \<longrightarrow> rs_local_storage me' = None)"
proof (cases "remaining R buf = 0")
  case True
  with assms(4) show ?thesis by (auto simp: poll_read_def)
next
  case False
  with poll_read_post [OF assms] show ?thesis by (auto simp: read_post_def)
qed

lemma sample_read_short:
  "poll_read sample_bytes sample_readbuf sample_inbox sample_recv 1 \<lparr>space = 4, content = []\<rparr>
     (sample_chunks []) =
   Some (Inr (Pending, sample_recv\<lparr>rs_local_storage := None\<rparr>,
     \<lparr>space = 4, content = [1, 2]\<rparr>, sample_chunks []))"
  by (simp add: poll_read_def poll_read_loop.simps copy_local.simps sample_recv_def
      sample_chunks_def sample_defs Let_def)

theorem poll_read_ready_iff_full_witness:
  "remaining sample_readbuf \<lparr>space = 4, content = [1, 2]\<rparr> \<noteq> 0"
  using poll_read_ready_iff_full [OF sample_bytes_laws sample_readbuf_laws sample_receiver_laws
      sample_read_short] by simp

text \<open>
  C39: A call returns \<open>Pending\<close> (or the end-of-channel error) after it has written into the
  caller's buffer: with stored bytes that do not fill the buffer and no chunk waiting, the
  stored bytes are in the buffer although the result says that nothing is ready.
\<close>

theorem poll_read_pending_after_write:
  assumes B: "bytes_laws B" and R: "readbuf_laws R filled" and RX: "receiver_laws RX taken"
    and short: "length (stored me) < remaining R buf"
    and empty: "poll_recv RX (rs_receiver me) cx w = (q, w1)" and q: "q = Pending \<or> q = Ready None"
  shows "\<exists>buf' me'. poll_read B R RX me cx buf w =
      Some (Inr (if q = Pending then Pending
        else Ready (Inl (Io_Error Other ''oneshot recv failed'')), me', buf', w1)) \<and>
    filled buf' = filled buf @ stored me \<and> stored me' = []"
proof -
  have room: "0 < remaining R buf" using short by simp
  obtain buf1 me1 where
    "copy_local B R me buf = Some (Inr (remaining R buf \<le> length (stored me), me1, buf1))"
    and keep: "filled buf1 @ stored me1 = filled buf @ stored me"
    and h: "rs_receiver me1 = rs_receiver me"
    and none: "rs_local_storage me1 = (if remaining R buf < length (stored me)
      then Some (drop (remaining R buf) (stored me)) else None)"
    by (rule copy_local_closed [OF B R room])
  with short have cl: "copy_local B R me buf = Some (Inr (False, me1, buf1))"
    and none1: "rs_local_storage me1 = None" by simp_all
  with poll_read_loop_unfold [OF cl, of RX cx w] empty q h room keep show ?thesis
    by (auto simp: poll_read_def)
qed

theorem poll_read_pending_after_write_witness:
  "\<exists>buf' me'. poll_read sample_bytes sample_readbuf sample_inbox sample_recv 1
     \<lparr>space = 4, content = []\<rparr> (sample_chunks []) = Some (Inr (Pending, me', buf', sample_chunks [])) \<and>
   content buf' = [1, 2]"
proof -
  have short: "length (stored sample_recv) < remaining sample_readbuf \<lparr>space = 4, content = []\<rparr>"
    by (simp add: sample_recv_def sample_readbuf_def)
  have empty: "poll_recv sample_inbox (rs_receiver sample_recv) 1 (sample_chunks []) =
      (Pending, sample_chunks [])"
    by (simp add: sample_recv_def sample_chunks_def sample_defs)
  show ?thesis
    using poll_read_pending_after_write [OF sample_bytes_laws sample_readbuf_laws
        sample_receiver_laws short empty]
    by (auto simp: sample_recv_def)
qed

section \<open>A call returns\<close>

text \<open>No chunk that arrives on the channel is empty.\<close>

definition nonempty_chunks :: "('w, bytes) receiver_api \<Rightarrow> bool" where
  "nonempty_chunks RX \<longleftrightarrow>
     (\<forall>h cx w b w'. poll_recv RX h cx w = (Ready (Some b), w') \<longrightarrow> b \<noteq> [])"

lemma poll_read_loop_returns:
  assumes B: "bytes_laws B" and R: "readbuf_laws R filled" and RX: "nonempty_chunks RX"
    and "0 < remaining R buf"
  shows "\<exists>r. poll_read_loop B R RX me cx buf w = Some (Inr r)"
  using assms(4)
proof (induction "remaining R buf + (if stored me = [] then 1 else 0)" arbitrary: me buf w
    rule: less_induct)
  case less
  obtain buf1 me1 where
    cl: "copy_local B R me buf = Some (Inr (remaining R buf \<le> length (stored me), me1, buf1))"
    and rem: "remaining R buf1 = remaining R buf - length (stored me)"
    and none: "rs_local_storage me1 = (if remaining R buf < length (stored me)
      then Some (drop (remaining R buf) (stored me)) else None)"
    by (rule copy_local_closed [OF B R less.prems])
  note unfold = poll_read_loop_unfold [OF cl, of RX cx w]
  obtain q w1 where recv: "poll_recv RX (rs_receiver me1) cx w = (q, w1)"
    by (cases "poll_recv RX (rs_receiver me1) cx w")
  show ?case
  proof (cases "remaining R buf \<le> length (stored me) \<or> (\<nexists>b. q = Ready (Some b))")
    case True
    with unfold recv show ?thesis by (auto split: poll.splits option.splits)
  next
    case False
    then obtain b where q: "q = Ready (Some b)" and lt: "length (stored me) < remaining R buf"
      by auto
    from RX recv q have "b \<noteq> []" unfolding nonempty_chunks_def by blast
    then have "remaining R buf1 + (if stored (me1\<lparr>rs_local_storage := Some b\<rparr>) = [] then 1 else 0)
        < remaining R buf + (if stored me = [] then 1 else 0)"
      using rem lt by (cases "stored me") auto
    moreover have "0 < remaining R buf1" using rem lt by simp
    ultimately obtain r where
      "poll_read_loop B R RX (me1\<lparr>rs_local_storage := Some b\<rparr>) cx buf1 w1 = Some (Inr r)"
      using less.hyps by blast
    with unfold recv q lt show ?thesis by (intro exI [of _ r]) simp
  qed
qed

text \<open>
  C20: \<open>poll_read\<close> returns, and without a panic, whenever no chunk of the channel is empty: each
  round of its outer loop then moves at least one byte into the caller's buffer.  (The
  connection task only ever sends chunks of 1300 bytes.)
\<close>

theorem poll_read_returns:
  assumes "bytes_laws B" and "readbuf_laws R filled" and "nonempty_chunks RX"
  shows "\<exists>r. poll_read B R RX me cx buf w = Some (Inr r)"
  using poll_read_loop_returns [OF assms] by (simp add: poll_read_def)

definition chunk_source :: "(nat, bytes) receiver_api" where
  "chunk_source = \<lparr>poll_recv = (\<lambda>h cx n. if n = 0 then (Pending, 0) else (Ready (Some [7, 7]), n - 1)),
     try_recv = (\<lambda>h n. if n = 0 then (Inl Recv_Empty, 0) else (Inr [7, 7], n - 1))\<rparr>"

theorem poll_read_returns_witness:
  "\<exists>r. poll_read sample_bytes sample_readbuf chunk_source sample_recv 1
     \<lparr>space = 9, content = []\<rparr> 5 = Some (Inr r)"
  by (rule poll_read_returns [OF sample_bytes_laws sample_readbuf_laws])
    (simp add: nonempty_chunks_def chunk_source_def)

text \<open>
  When the stored bytes cover the caller's buffer, \<open>poll_read\<close> serves the call from them
  alone: it succeeds at once, leaves the channel untouched and keeps exactly the rest.  (The
  second read of \<open>main\<close> asks for the 652 bytes that its first read of 1948 left of two chunks
  of 1300.)
\<close>

theorem poll_read_from_storage:
  assumes B: "bytes_laws B" and R: "readbuf_laws R filled"
    and room: "0 < remaining R buf" and enough: "remaining R buf \<le> length (stored me)"
  shows "\<exists>buf'. poll_read B R RX me cx buf w = Some (Inr (Ready (Inr ()),
      me\<lparr>rs_local_storage := (if remaining R buf < length (stored me)
        then Some (drop (remaining R buf) (stored me)) else None)\<rparr>, buf', w)) \<and>
    filled buf' = filled buf @ take (remaining R buf) (stored me) \<and> remaining R buf' = 0"
proof -
  obtain b where b: "rs_local_storage me = Some b"
    using room enough by (cases "rs_local_storage me") auto
  with enough have n: "min (remaining R buf) (length b) = remaining R buf" by simp
  obtain buf1 where put: "put_slice R buf (take (remaining R buf) b) = Inr buf1"
    and fin: "filled buf1 = filled buf @ take (remaining R buf) b" "remaining R buf1 = 0"
    using readbuf_lawsE [OF R, of "take (remaining R buf) b" buf] enough b by auto
  have cl: "copy_local B R me buf = Some (Inr (True,
      me\<lparr>rs_local_storage := (if drop (remaining R buf) b \<noteq> [] then Some (drop (remaining R buf) b) else None)\<rparr>,
      buf1))"
    using b n put bytes_lawsD(1) [OF B, of "remaining R buf" b] enough fin(2)
    by (subst copy_local.simps) (simp add: Let_def)
  show ?thesis
    using poll_read_loop_unfold [OF cl, of RX cx w] b room fin by (simp add: poll_read_def)
qed

theorem poll_read_from_storage_witness:
  "\<exists>buf'. poll_read sample_bytes sample_readbuf sample_inbox
      (sample_recv\<lparr>rs_local_storage := Some (replicate 652 0)\<rparr>) 1
      \<lparr>space = 652, content = []\<rparr> (sample_world 1 0) =
    Some (Inr (Ready (Inr ()), sample_recv\<lparr>rs_local_storage := None\<rparr>, buf', sample_world 1 0))"
  using poll_read_from_storage [OF sample_bytes_laws sample_readbuf_laws,
      of "\<lparr>space = 652, content = []\<rparr>" "sample_recv\<lparr>rs_local_storage := Some (replicate 652 0)\<rparr>"
      sample_inbox 1 "sample_world 1 0"]
  by (simp add: sample_readbuf_def) blast

end
