(* ===== verification/Pending_Table.thy ===== *)
theory Pending_Table
  imports Command_Correct
begin

text \<open>
  The pattern that \<open>QuicSendStream\<close> and \<open>QuicWriteDgram\<close> share: a table of pending commands
  (\<open>cmd_pending: HashMap<usize, Command>\<close>), a command made on the first poll under a key,
  polled until it completes and removed then.  \<open>table_exec\<close> is the reference description of
  that pattern; the clients are compared with it.
\<close>

type_synonym 'c table = "nat \<rightharpoonup> 'c"

definition table_exec :: "('c \<Rightarrow> waker \<Rightarrow> 'w \<Rightarrow> ('r poll \<times> 'c \<times> 'w) run) \<Rightarrow> 'c \<Rightarrow> nat
    \<Rightarrow> 'c table \<Rightarrow> waker \<Rightarrow> 'w \<Rightarrow> ('r poll \<times> 'c table \<times> 'w) run" where
  "table_exec f fresh key tbl cx w =
     (case f (case tbl key of None \<Rightarrow> fresh | Some c \<Rightarrow> c) cx w of
        Inl p \<Rightarrow> Inl p
      | Inr (q, c', w') \<Rightarrow> Inr (q, if is_pending q then tbl(key \<mapsto> c') else tbl(key := None), w'))"

lemma table_exec_dom:
  "table_exec f fresh key tbl cx w = Inr (q, tbl', w') \<Longrightarrow>
     dom tbl' = (if q = Pending then insert key (dom tbl) else dom tbl - {key})"
  by (auto simp: table_exec_def is_pending_iff split: sum.splits if_splits)

lemma table_exec_frame:
  "table_exec f fresh key tbl cx w = Inr (q, tbl', w') \<Longrightarrow> k \<noteq> key \<Longrightarrow> tbl' k = tbl k"
  by (auto simp: table_exec_def split: sum.splits if_splits)

text \<open>Awaiting through the table is awaiting the command itself.\<close>

lemma drive_table_exec_pending:
  assumes "tbl key = Some c"
  shows "drive (table_exec f fresh key) xs tbl w =
    (case drive f xs c w of
       Inl p \<Rightarrow> Inl p
     | Inr (q, c', w') \<Rightarrow> Inr (q, if is_pending q then tbl(key \<mapsto> c') else tbl(key := None), w'))"
  using assms
proof (induction xs arbitrary: tbl c w)
  case Nil
  then show ?case by (simp add: fun_upd_idem)
next
  case (Cons x xs)
  obtain cx g where x: "x = (cx, g)" by (cases x)
  show ?case
  proof (cases "f c cx (g w)")
    case (Inl p)
    with Cons.prems x show ?thesis by (simp add: table_exec_def)
  next
    case (Inr y)
    obtain q c1 w1 where y: "y = (q, c1, w1)" by (cases y)
    have "drive (table_exec f fresh key) xs (tbl(key \<mapsto> c1)) w1 =
      (case drive f xs c1 w1 of
         Inl p \<Rightarrow> Inl p
       | Inr (q, c', w') \<Rightarrow> Inr (q, if is_pending q then tbl(key \<mapsto> c') else tbl(key := None), w'))"
      using Cons.IH [of "tbl(key \<mapsto> c1)" c1 w1, OF fun_upd_same] by (simp only: fun_upd_upd)
    moreover have "table_exec f fresh key tbl cx (g w) =
        Inr (q, if is_pending q then tbl(key \<mapsto> c1) else tbl(key := None), w1)"
      using Cons.prems Inr y by (simp add: table_exec_def)
    ultimately show ?thesis using x Inr y by (cases q) simp_all
  qed
qed

lemma table_exec_fresh:
  "tbl key = None \<Longrightarrow> table_exec f fresh key tbl cx w = table_exec f fresh key (tbl(key \<mapsto> fresh)) cx w"
  by (simp add: table_exec_def fun_upd_idem split: sum.splits)

lemma drive_table_exec_fresh:
  assumes "tbl key = None" and "xs \<noteq> []"
  shows "drive (table_exec f fresh key) xs tbl w =
    (case drive f xs fresh w of
       Inl p \<Rightarrow> Inl p
     | Inr (q, c', w') \<Rightarrow> Inr (q, if is_pending q then tbl(key \<mapsto> c') else tbl, w'))"
proof -
  obtain cx g ys where xs: "xs = (cx, g) # ys" using assms(2) by (cases xs) auto
  have "drive (table_exec f fresh key) xs tbl w =
      drive (table_exec f fresh key) xs (tbl(key \<mapsto> fresh)) w"
    using table_exec_fresh [of tbl key f fresh cx "g w", OF assms(1)] xs by simp
  then show ?thesis
    using drive_table_exec_pending [of "tbl(key \<mapsto> fresh)" key fresh f fresh xs w] assms(1)
    by (simp add: fun_upd_idem split: sum.splits)
qed

section \<open>Tables of live commands\<close>

definition live_table :: "('c \<Rightarrow> bool) \<Rightarrow> 'c table \<Rightarrow> bool" where
  "live_table fin tbl \<longleftrightarrow> (\<forall>k c. tbl k = Some c \<longrightarrow> \<not> fin c)"

lemma live_table_simps [simp]:
  "live_table fin Map.empty"
  "live_table fin tbl \<Longrightarrow> \<not> fin c \<Longrightarrow> live_table fin (tbl(k \<mapsto> c))"
  "live_table fin tbl \<Longrightarrow> live_table fin (tbl(k := None))"
  by (auto simp: live_table_def)

context command_executor begin

text \<open>The reference pattern keeps no finished command: nothing in the table panics when polled again.\<close>

lemma table_exec_live:
  assumes "table_exec (\<lambda>c. exec c s) fresh key tbl cx w = Inr (q, tbl', w')"
    and "live_table finished tbl"
  shows "live_table finished tbl'"
  using assms exec_pending
  by (auto simp: table_exec_def is_pending_iff split: sum.splits if_splits)

lemma table_exec_done_removed:
  assumes "table_exec (\<lambda>c. exec c s) fresh key tbl cx w = Inr (Ready r, tbl', w')"
  shows "tbl' key = None"
  using assms by (auto simp: table_exec_def split: sum.splits)

lemma drive_table_live:
  assumes "drive (\<lambda>tbl cx. table_exec (\<lambda>c. exec c s) fresh key tbl cx) xs tbl w = Inr (q, tbl', w')"
    and "live_table finished tbl"
  shows "live_table finished tbl'"
proof -
  have "case q of Pending \<Rightarrow> live_table finished tbl' | Ready x \<Rightarrow> live_table finished tbl'"
    by (rule drive_induct [where I = "\<lambda>tbl _. live_table finished tbl"
        and Q = "\<lambda>_ tbl _. live_table finished tbl", OF assms(2) _ _ _ assms(1)])
      (auto dest: table_exec_live)
  then show ?thesis by (cases q) simp_all
qed

end

section \<open>One request through the table\<close>

text \<open>
  The invariant of a table between two polls for one request: the command under the key is
  where \<open>command_inv\<close> says, and nothing else in the table has changed since the first poll.
\<close>

definition table_inv :: "('w \<Rightarrow> handle \<Rightarrow> (request \<times> handle) list) \<Rightarrow> ('w \<Rightarrow> handle \<Rightarrow> bool) \<Rightarrow> handle
    \<Rightarrow> command table \<Rightarrow> nat \<Rightarrow> (request \<times> handle) list \<Rightarrow> request \<Rightarrow> command table \<Rightarrow> 'w \<Rightarrow> bool" where
  "table_inv sent live s tbl0 key old req tbl w \<longleftrightarrow>
     (\<exists>c. tbl = tbl0(key \<mapsto> c) \<and> command_inv sent live s old req c w) \<or>
     (tbl = tbl0 \<and> sent w s = old)"

definition sent_at_most :: "('w \<Rightarrow> handle \<Rightarrow> (request \<times> handle) list) \<Rightarrow> handle
    \<Rightarrow> (request \<times> handle) list \<Rightarrow> request \<Rightarrow> 'w \<Rightarrow> bool" where
  "sent_at_most sent s old req w \<longleftrightarrow> sent w s = old \<or> (\<exists>tx. sent w s = old @ [(req, tx)])"

lemma table_inv_start: "table_inv sent live s tbl key (sent w s) req tbl w"
  by (simp add: table_inv_def)

lemma table_inv_sent: "table_inv sent live s tbl0 key old req tbl w \<Longrightarrow> sent_at_most sent s old req w"
  by (auto simp: table_inv_def sent_at_most_def elim!: command_inv.elims)

lemma table_inv_frame: "table_inv sent live s tbl0 key old req tbl w \<Longrightarrow> k \<noteq> key \<Longrightarrow> tbl k = tbl0 k"
  by (auto simp: table_inv_def)

lemma table_inv_env:
  assumes env: "schedule_ok sent live s xs" and x: "(cx, g) \<in> set xs"
    and inv: "table_inv sent live s tbl0 key old req tbl w"
  shows "table_inv sent live s tbl0 key old req tbl (g w)"
proof -
  from env x have "sent (g w) s = sent w s" by (force simp: schedule_ok_def)
  with inv schedule_ok_inv [OF env x] show ?thesis by (auto simp: table_inv_def)
qed

lemma command_post_sent: "command_post sent s old req x w \<Longrightarrow> sent_at_most sent s old req w"
  by (auto simp: command_post_def sent_at_most_def split: sum.splits request_error.splits)

lemma table_inv_exec:
  assumes laws: "command_laws PS OS sent reserved live" and fresh: "tbl0 key = None"
    and inv: "table_inv sent live s tbl0 key old req tbl w"
    and run: "table_exec (\<lambda>c. poll_execute PS OS c s) (State0 (Some req)) key tbl cx w = Inr (q, tbl', w')"
  shows "case q of Pending \<Rightarrow> table_inv sent live s tbl0 key old req tbl' w'
    | Ready x \<Rightarrow> tbl' = tbl0 \<and> command_post sent s old req x w'"
proof -
  obtain c where c: "command_inv sent live s old req c w"
    and at: "(case tbl key of None \<Rightarrow> State0 (Some req) | Some c \<Rightarrow> c) = c"
    and upd: "\<And>x. tbl(key := x) = tbl0(key := x)"
  proof (cases "tbl = tbl0 \<and> sent w s = old")
    case True
    with fresh that [of "State0 (Some req)"] show ?thesis by simp
  next
    case False
    with inv obtain c where "tbl = tbl0(key \<mapsto> c)" and "command_inv sent live s old req c w"
      by (auto simp: table_inv_def)
    with that [of c] show ?thesis by simp
  qed
  have "tbl0(key := None) = tbl0" using fresh by (simp add: fun_upd_idem)
  with run [unfolded table_exec_def at upd] obtain c1 where
    ex: "poll_execute PS OS c s cx w = Inr (q, c1, w')"
    and tbl': "tbl' = (if is_pending q then tbl0(key \<mapsto> c1) else tbl0)"
    by (auto split: sum.splits prod.splits if_splits)
  from poll_execute_inv [OF laws c ex] tbl' show ?thesis
    by (auto simp: table_inv_def split: poll.splits)
qed

end
