(* ===== verification/Send_Stream.thy ===== *)
theory Send_Stream
  imports Pending_Table
begin

text \<open>
  \<open>QuicSendStream\<close> of \<open>poll-read\<close>.  The key of the table of pending commands is
  \<open>std::ptr::addr_of!(cx) as usize\<close>: the address of the slot that holds the parameter
  \<open>cx\<close> during this call.  The compiler chooses it, so it is an argument of the model.
\<close>

section \<open>The model\<close>

record send_stream =
  ss_sender :: handle
  ss_stream_id :: nat
  ss_cmd_pending :: "nat \<rightharpoonup> command"

text \<open>\<open>QuicSendStream::poll_write\<close>; \<open>key\<close> is the address of \<open>cx\<close>.\<close>

definition poll_write :: "bytes_api \<Rightarrow> 'w cmd_sender \<Rightarrow> 'w resp_cell \<Rightarrow> nat \<Rightarrow> bytes
    \<Rightarrow> send_stream \<Rightarrow> waker \<Rightarrow> 'w \<Rightarrow> ((io_error + nat) poll \<times> send_stream \<times> 'w) run" where
  "poll_write B PS OS key buf me cx w =
     (case (if ss_cmd_pending me key = None
            then (case extend_from_slice B (bytesmut_new B) buf of
                    Inl p \<Rightarrow> Inl p
                  | Inr bytes_mut \<Rightarrow>
                      Inr (me\<lparr>ss_cmd_pending := (ss_cmd_pending me)
                        (key \<mapsto> State0 (Some (Req_Write (freeze B bytes_mut))))\<rparr>))
            else Inr me) of
        Inl p \<Rightarrow> Inl p
      | Inr me1 \<Rightarrow>
          (case ss_cmd_pending me1 key of
             None \<Rightarrow> Inl Unwrap_None
           | Some cmd \<Rightarrow>
               (case poll_execute PS OS cmd (ss_sender me1) cx w of
                  Inl p \<Rightarrow> Inl p
                | Inr (q, cmd', w1) \<Rightarrow>
                    (let me2 = me1\<lparr>ss_cmd_pending := (ss_cmd_pending me1)(key \<mapsto> cmd')\<rparr>;
                         me3 = me2\<lparr>ss_cmd_pending := (ss_cmd_pending me2)(key := None)\<rparr>
                     in case q of
                          Ready (Inr (Resp_Write written)) \<Rightarrow> Inr (Ready (Inr written), me3, w1)
                        | Ready (Inr _) \<Rightarrow> Inl Invalid_Response
                        | Ready (Inl e) \<Rightarrow>
                            Inr (Ready (Inl (Io_Error Other ''oneshot recv failed'')), me3, w1)
                        | Pending \<Rightarrow> Inr (Pending, me2, w1)))))"

text \<open>\<open>poll_flush\<close> and \<open>poll_shutdown\<close>: both are always ready.\<close>

definition stream_poll_flush :: "send_stream \<Rightarrow> waker \<Rightarrow> (io_error + unit) poll \<times> send_stream" where
  "stream_poll_flush me cx = (Ready (Inr ()), me)"

definition stream_poll_shutdown :: "send_stream \<Rightarrow> waker \<Rightarrow> (io_error + unit) poll \<times> send_stream" where
  "stream_poll_shutdown me cx = (Ready (Inr ()), me)"

section \<open>The pattern of the pending table\<close>

text \<open>How \<open>poll_write\<close> reads the answer of its command.\<close>

fun write_answer :: "(request_error + response) poll \<Rightarrow> (io_error + nat) poll run" where
  "write_answer (Ready (Inr (Resp_Write n))) = Inr (Ready (Inr n))"
| "write_answer (Ready (Inr _)) = Inl Invalid_Response"
| "write_answer (Ready (Inl _)) = Inr (Ready (Inl (Io_Error Other ''oneshot recv failed'')))"
| "write_answer Pending = Inr Pending"

lemma poll_write_table:
  assumes B: "bytes_laws B" and "length buf \<le> isize_max"
  shows "poll_write B PS OS key buf me cx w =
    (case table_exec (\<lambda>c. poll_execute PS OS c (ss_sender me)) (State0 (Some (Req_Write buf))) key
        (ss_cmd_pending me) cx w of
       Inl p \<Rightarrow> Inl p
     | Inr (q, tbl', w') \<Rightarrow>
         (case write_answer q of
            Inl p \<Rightarrow> Inl p
          | Inr a \<Rightarrow> Inr (a, me\<lparr>ss_cmd_pending := tbl'\<rparr>, w')))"
  using assms(2) bytes_lawsD(5) [OF B, of "[]" buf]
  by (auto simp: poll_write_def table_exec_def bytes_lawsD(2,6) [OF B] Let_def fun_upd_idem
      split: sum.splits poll.splits response.splits option.splits)

lemma write_answer_Pending: "write_answer q = Inr Pending \<longleftrightarrow> q = Pending"
  by (cases q rule: write_answer.cases) simp_all

lemma write_answer_ok: "write_answer q = Inr (Ready (Inr n)) \<longleftrightarrow> q = Ready (Inr (Resp_Write n))"
  by (cases q rule: write_answer.cases) simp_all

text \<open>One poll of a write, from and to the invariant of the table.\<close>

lemma poll_write_inv:
  assumes B: "bytes_laws B" and len: "length buf \<le> isize_max"
    and laws: "command_laws PS OS sent reserved live"
    and fresh: "ss_cmd_pending me0 key = None"
    and me: "me = me0\<lparr>ss_cmd_pending := tbl\<rparr>"
    and inv: "table_inv sent live (ss_sender me0) (ss_cmd_pending me0) key old (Req_Write buf) tbl w"
    and run: "poll_write B PS OS key buf me cx w = Inr (r, me', w')"
  shows "case r of
      Pending \<Rightarrow> \<exists>tbl'. me' = me0\<lparr>ss_cmd_pending := tbl'\<rparr> \<and>
        table_inv sent live (ss_sender me0) (ss_cmd_pending me0) key old (Req_Write buf) tbl' w'
    | Ready (Inr _) \<Rightarrow> me' = me0 \<and> (\<exists>tx. sent w' (ss_sender me0) = old @ [(Req_Write buf, tx)])
    | Ready (Inl _) \<Rightarrow> me' = me0 \<and> sent_at_most sent (ss_sender me0) old (Req_Write buf) w'"
proof -
  from run [unfolded poll_write_table [OF B len]] me obtain q tbl' where
    ex: "table_exec (\<lambda>c. poll_execute PS OS c (ss_sender me0)) (State0 (Some (Req_Write buf))) key
      tbl cx w = Inr (q, tbl', w')"
    and a: "write_answer q = Inr r" and me': "me' = me0\<lparr>ss_cmd_pending := tbl'\<rparr>"
    by (auto split: sum.splits prod.splits)
  note post = table_inv_exec [OF laws fresh inv ex]
  show ?thesis
  proof (cases q)
    case Pending
    with a post me' show ?thesis by auto
  next
    case (Ready x)
    with post me' have "me' = me0" and p: "command_post sent (ss_sender me0) old (Req_Write buf) x w'"
      by simp_all
    with command_post_sent [OF p] a Ready show ?thesis
      by (cases q rule: write_answer.cases) (auto simp: command_post_def)
  qed
qed

text \<open>
  C12: A write that is polled under one key until it is ready sends its bytes to the connection
  exactly once, whatever happens between the polls, and leaves the stream as it was (its entry
  is gone from \<open>cmd_pending\<close>, the other entries are untouched); until then it has sent them at
  most once.
\<close>

theorem poll_write_sends_once:
  assumes B: "bytes_laws B" and len: "length buf \<le> isize_max"
    and laws: "command_laws PS OS sent reserved live"
    and env: "schedule_ok sent live (ss_sender me) xs"
    and fresh: "ss_cmd_pending me key = None"
    and run: "drive (poll_write B PS OS key buf) xs me w = Inr (r, me', w')"
  shows "case r of
      Ready (Inr _) \<Rightarrow> me' = me \<and>
        (\<exists>tx. sent w' (ss_sender me) = sent w (ss_sender me) @ [(Req_Write buf, tx)])
    | Ready (Inl _) \<Rightarrow> me' = me \<and> (sent w' (ss_sender me) = sent w (ss_sender me) \<or>
        (\<exists>tx. sent w' (ss_sender me) = sent w (ss_sender me) @ [(Req_Write buf, tx)]))
    | Pending \<Rightarrow> (\<forall>k. k \<noteq> key \<longrightarrow> ss_cmd_pending me' k = ss_cmd_pending me k) \<and>
        (sent w' (ss_sender me) = sent w (ss_sender me) \<or>
        (\<exists>tx. sent w' (ss_sender me) = sent w (ss_sender me) @ [(Req_Write buf, tx)]))"
proof -
  let ?s = "ss_sender me" and ?old = "sent w (ss_sender me)"
  let ?I = "\<lambda>m v. \<exists>tbl. m = me\<lparr>ss_cmd_pending := tbl\<rparr> \<and>
    table_inv sent live ?s (ss_cmd_pending me) key ?old (Req_Write buf) tbl v"
  let ?Q = "\<lambda>x m v. m = me \<and> (case x of
        Inr _ \<Rightarrow> \<exists>tx. sent v ?s = ?old @ [(Req_Write buf, tx)]
      | Inl _ \<Rightarrow> sent_at_most sent ?s ?old (Req_Write buf) v)"
  have out: "case r of Pending \<Rightarrow> ?I me' w' | Ready x \<Rightarrow> ?Q x me' w'"
  proof (rule drive_induct [OF _ _ _ _ run])
    show "?I me w" using table_inv_start by (intro exI [of _ "ss_cmd_pending me"]) simp
  next
    fix m cx v m' v' assume "?I m v" and "poll_write B PS OS key buf m cx v = Inr (Pending, m', v')"
    then show "?I m' v'" using poll_write_inv [OF B len laws fresh] by fastforce
  next
    fix m cx v x m' v' assume "?I m v" and run: "poll_write B PS OS key buf m cx v = Inr (Ready x, m', v')"
    then obtain tbl where "m = me\<lparr>ss_cmd_pending := tbl\<rparr>"
      and "table_inv sent live ?s (ss_cmd_pending me) key ?old (Req_Write buf) tbl v" by blast
    from poll_write_inv [OF B len laws fresh this run] show "?Q x m' v'" by (cases x) simp_all
  qed (blast intro: table_inv_env [OF env])
  show ?thesis
  proof (cases r)
    case Pending
    with out obtain tbl where "me' = me\<lparr>ss_cmd_pending := tbl\<rparr>"
      and inv: "table_inv sent live ?s (ss_cmd_pending me) key ?old (Req_Write buf) tbl w'" by auto
    with Pending table_inv_sent [OF inv] table_inv_frame [OF inv] show ?thesis
      by (simp add: sent_at_most_def)
  next
    case (Ready x)
    with out show ?thesis by (cases x) (simp_all add: sent_at_most_def)
  qed
qed

definition sample_send :: send_stream where
  "sample_send = \<lparr>ss_sender = 7, ss_stream_id = 0, ss_cmd_pending = Map.empty\<rparr>"

lemma sample_write:
  "drive (poll_write sample_bytes sample_cmds sample_cells 4096 [1, 2, 3, 4]) sample_schedule
     sample_send (sample_world 1 0) =
   Inr (Ready (Inr 4), sample_send,
     (sample_world 1 0)\<lparr>cmd_queue := (cmd_queue (sample_world 1 0))(7 := (empty_queue 0)
          \<lparr>sq_log := [(Req_Write [1, 2, 3, 4], 100)]\<rparr>),
        cells := (\<lambda>h. Cell_Full (Resp_Write 4))(100 := Cell_Done), next_handle := 101\<rparr>)"
  by (simp add: poll_write_def sample_schedule_def sample_send_def sample_defs fun_eq_iff Let_def)

theorem poll_write_sends_once_witness:
  "\<exists>w'. drive (poll_write sample_bytes sample_cmds sample_cells 4096 [1, 2, 3, 4]) sample_schedule
      sample_send (sample_world 1 0) = Inr (Ready (Inr 4), sample_send, w') \<and>
    (\<exists>tx. sample_sent w' 7 = [(Req_Write [1, 2, 3, 4], tx)])"
proof -
  have "length [1, 2, 3, 4 :: byte] \<le> isize_max" by (simp add: isize_max_def)
  from poll_write_sends_once [OF sample_bytes_laws this sample_command_laws sample_schedule_ok _
      sample_write] show ?thesis
    using sample_write by (simp add: sample_send_def sample_world_def empty_queue_def)
qed

text \<open>
  While a command is pending under the key, \<open>poll_write\<close> ignores the buffer it is given: it
  goes on with the bytes copied by the first poll.
\<close>

theorem poll_write_ignores_later_buffer:
  assumes "ss_cmd_pending me key \<noteq> None"
  shows "poll_write B PS OS key buf me cx w = poll_write B PS OS key buf' me cx w"
proof -
  obtain c where "ss_cmd_pending me key = Some c" using assms by blast
  then show ?thesis by (simp add: poll_write_def)
qed

theorem poll_write_ignores_later_buffer_witness:
  "poll_write sample_bytes sample_cmds sample_cells 8 [1] (sample_send\<lparr>ss_cmd_pending := [8 \<mapsto> State1 100]\<rparr>)
     1 (sample_world 0 0) =
   poll_write sample_bytes sample_cmds sample_cells 8 [2, 3] (sample_send\<lparr>ss_cmd_pending := [8 \<mapsto> State1 100]\<rparr>)
     1 (sample_world 0 0)"
  by (rule poll_write_ignores_later_buffer) simp

text \<open>
  The key is the address of a stack slot, and a poll that finds the slot at another
  address does not see the pending write: it sends the bytes again, under the new key, and
  leaves the first command where it was.
\<close>

theorem poll_write_other_key_sends_again:
  assumes B: "bytes_laws B" and len: "length buf \<le> isize_max"
    and laws: "command_laws PS OS sent reserved live"
    and keys: "key \<noteq> key1" "ss_cmd_pending me key1 = Some c1" "ss_cmd_pending me key = None"
    and slot: "poll_reserve PS (ss_sender me) cx w = (Ready (Inr ()), w1)"
    and ok: "channel OS w1 = ((tx, rx), w2)"
      "send_item PS (ss_sender me) (Req_Write buf, tx) w2 = Inr (Inr (), w3)"
    and run: "poll_write B PS OS key buf me cx w = Inr (r, me', w')"
  shows "sent w' (ss_sender me) = sent w (ss_sender me) @ [(Req_Write buf, tx)] \<and>
    ss_cmd_pending me' key1 = Some c1"
proof -
  from laws have ps: "poll_sender_laws PS sent reserved"
    and sep: "separate_laws PS OS sent reserved live"
    by (simp_all add: command_laws_def)
  have s3: "sent w3 (ss_sender me) = sent w (ss_sender me) @ [(Req_Write buf, tx)]"
    using poll_sender_lawsD(1) [OF ps slot] separate_lawsD(1) [OF sep ok(1)]
      poll_sender_lawsD(4) [OF ps ok(2)] by simp
  obtain q c' where ex: "poll_execute PS OS (State1 rx) (ss_sender me) cx w3 = Inr (q, c', w')"
    and tbl: "ss_cmd_pending me' key1 = ss_cmd_pending me key1"
    using run keys slot ok
    by (auto simp: poll_write_table [OF B len] table_exec_def
        split: sum.splits prod.splits if_splits)
  from ex have "\<exists>r. poll_oneshot OS rx cx w3 = Inr (r, w')"
    by (auto split: sum.splits prod.splits poll.splits)
  then have "sent w' = sent w3" using separate_lawsD(3) [OF sep] by blast
  with s3 tbl keys(2) show ?thesis by simp
qed

text \<open>Two polls of one write, at two addresses: the connection receives the bytes twice.\<close>

theorem poll_write_other_key_sends_again_witness:
  "\<exists>r me1 w1 me2 w2. poll_write sample_bytes sample_cmds sample_cells 8 [5] sample_send 1 (sample_world 2 0) =
      Inr (Pending, me1, w1) \<and>
    poll_write sample_bytes sample_cmds sample_cells 16 [5] me1 1 w1 = Inr (r, me2, w2) \<and>
    sample_sent w2 7 = [(Req_Write [5], 100), (Req_Write [5], 101)]"
proof -
  let ?me1 = "sample_send\<lparr>ss_cmd_pending := [8 \<mapsto> State1 100]\<rparr>"
  let ?w1 = "(sample_world 2 0)\<lparr>cmd_queue := (cmd_queue (sample_world 2 0))(7 := (empty_queue 1)
      \<lparr>sq_log := [(Req_Write [5], 100)]\<rparr>), cells := \<lambda>h. Cell_Empty, next_handle := 101\<rparr>"
  have first: "poll_write sample_bytes sample_cmds sample_cells 8 [5] sample_send 1 (sample_world 2 0) =
      Inr (Pending, ?me1, ?w1)"
    by (simp add: poll_write_def sample_send_def sample_defs Let_def fun_eq_iff)
  obtain r me2 w2 where second:
    "poll_write sample_bytes sample_cmds sample_cells 16 [5] ?me1 1 ?w1 = Inr (r, me2, w2)"
    by (simp add: poll_write_def sample_send_def sample_defs Let_def)
  have "length [5 :: byte] \<le> isize_max" by (simp add: isize_max_def)
  from poll_write_other_key_sends_again [OF sample_bytes_laws this sample_command_laws _ _ _ _ _ _ second,
      of 8 "State1 100"]
  have "sample_sent w2 7 = [(Req_Write [5], 100), (Req_Write [5], 101)]"
    by (simp add: sample_send_def sample_defs)
  with first second show ?thesis by blast
qed

end
