(* ===== verification/Dgram_Write.thy ===== *)
theory Dgram_Write
  imports Pending_Table
begin

text \<open>
  \<open>QuicWriteDgram\<close> of \<open>poll-read\<close>: the sending half of the datagram interface, with its
  \<open>Sink\<close> implementation.  It talks to the connection task over the command channel
  (\<open>cmd_sender\<close>) and hands datagrams over a second channel (\<open>write_sender\<close>).  As in
  \<open>Send_Stream\<close>, \<open>key\<close> is the address of the parameter \<open>cx\<close> of the call.
\<close>

section \<open>The model\<close>

datatype write_dgram_error = Write_ConnectionClosed

record write_dgram =
  wd_cmd_sender :: handle
  wd_cmd_pending :: "nat \<rightharpoonup> command"
  wd_write_sender :: handle

type_synonym 'w data_sender = "('w, bytes) poll_sender_api"

text \<open>
  The first part of \<open>poll_ready\<close>: make sure that a command is pending under the key.  With
  capacity on the data channel there is nothing to ask for, and the entry is
  \<open>Command::Terminated\<close>.  \<open>None\<close> is the early return of \<open>ConnectionClosed\<close>.
\<close>

definition ready_entry :: "'w data_sender \<Rightarrow> nat \<Rightarrow> write_dgram \<Rightarrow> 'w \<Rightarrow> write_dgram option" where
  "ready_entry DS key me w =
     (if wd_cmd_pending me key = None
      then (case get_ref DS (wd_write_sender me) w of
              Some write_sender \<Rightarrow>
                Some (me\<lparr>wd_cmd_pending := (wd_cmd_pending me)(key \<mapsto>
                  (if capacity DS write_sender w > 0 then Terminated
                   else State0 (Some Req_WriteDgramReady)))\<rparr>)
            | None \<Rightarrow> None)
      else Some me)"

text \<open>The last part: reserve a slot of the data channel, then drop the entry.\<close>

definition ready_reserve :: "'w data_sender \<Rightarrow> nat \<Rightarrow> write_dgram \<Rightarrow> waker \<Rightarrow> 'w
    \<Rightarrow> (write_dgram_error + unit) poll \<times> write_dgram \<times> 'w" where
  "ready_reserve DS key me cx w =
     (case poll_reserve DS (wd_write_sender me) cx w of
        (Pending, w1) \<Rightarrow> (Pending, me, w1)
      | (Ready (Inr _), w1) \<Rightarrow>
          (Ready (Inr ()), me\<lparr>wd_cmd_pending := (wd_cmd_pending me)(key := None)\<rparr>, w1)
      | (Ready (Inl _), w1) \<Rightarrow>
          (Ready (Inl Write_ConnectionClosed), me\<lparr>wd_cmd_pending := (wd_cmd_pending me)(key := None)\<rparr>, w1))"

text \<open>\<open>QuicWriteDgram::poll_ready\<close>.\<close>

definition wd_poll_ready :: "'w cmd_sender \<Rightarrow> 'w resp_cell \<Rightarrow> 'w data_sender \<Rightarrow> nat \<Rightarrow> write_dgram
    \<Rightarrow> waker \<Rightarrow> 'w \<Rightarrow> ((write_dgram_error + unit) poll \<times> write_dgram \<times> 'w) run" where
  "wd_poll_ready PS OS DS key me cx w =
     (case ready_entry DS key me w of
        None \<Rightarrow> Inr (Ready (Inl Write_ConnectionClosed), me, w)
      | Some me1 \<Rightarrow>
          (case wd_cmd_pending me1 key of
             None \<Rightarrow> Inl Unwrap_None
           | Some cmd \<Rightarrow>
               if \<not> is_terminated cmd then
                 (case poll_execute PS OS cmd (wd_cmd_sender me1) cx w of
                    Inl p \<Rightarrow> Inl p
                  | Inr (q, cmd', w1) \<Rightarrow>
                      (let me2 = me1\<lparr>wd_cmd_pending := (wd_cmd_pending me1)(key \<mapsto> cmd')\<rparr>
                       in case q of
                            Pending \<Rightarrow> Inr (Pending, me2, w1)
                          | Ready (Inr Resp_WriteDgramReady) \<Rightarrow> Inr (ready_reserve DS key me2 cx w1)
                          | Ready (Inr _) \<Rightarrow> Inl Invalid_Response
                          | Ready (Inl e) \<Rightarrow> Inr (Ready (Inl Write_ConnectionClosed), me2, w1)))
               else Inr (ready_reserve DS key me1 cx w)))"

text \<open>\<open>QuicWriteDgram::poll_write_chunk\<close>.\<close>

definition poll_write_chunk :: "'w cmd_sender \<Rightarrow> 'w resp_cell \<Rightarrow> 'w data_sender \<Rightarrow> nat \<Rightarrow> bytes
    \<Rightarrow> write_dgram \<Rightarrow> waker \<Rightarrow> 'w \<Rightarrow> ((write_dgram_error + unit) poll \<times> write_dgram \<times> 'w) run" where
  "poll_write_chunk PS OS DS key buf me cx w =
     (case wd_poll_ready PS OS DS key me cx w of
        Inl p \<Rightarrow> Inl p
      | Inr (Pending, me1, w1) \<Rightarrow> Inr (Pending, me1, w1)
      | Inr (Ready (Inr _), me1, w1) \<Rightarrow>
          (case send_item DS (wd_write_sender me1) buf w1 of
             Inl p \<Rightarrow> Inl p
           | Inr (Inl _, w2) \<Rightarrow> Inr (Ready (Inl Write_ConnectionClosed), me1, w2)
           | Inr (Inr _, w2) \<Rightarrow> Inr (Ready (Inr ()), me1, w2))
      | Inr (Ready (Inl _), me1, w1) \<Rightarrow> Inr (Ready (Inl Write_ConnectionClosed), me1, w1))"

text \<open>\<open>QuicWriteDgram::poll_flush\<close>.\<close>

definition wd_poll_flush :: "'w cmd_sender \<Rightarrow> 'w resp_cell \<Rightarrow> nat \<Rightarrow> write_dgram
    \<Rightarrow> waker \<Rightarrow> 'w \<Rightarrow> ((write_dgram_error + unit) poll \<times> write_dgram \<times> 'w) run" where
  "wd_poll_flush PS OS key me cx w =
     (let me1 = (if wd_cmd_pending me key = None
                 then me\<lparr>wd_cmd_pending := (wd_cmd_pending me)(key \<mapsto> State0 (Some Req_WriteDgramFlush))\<rparr>
                 else me)
      in case wd_cmd_pending me1 key of
           None \<Rightarrow> Inl Unwrap_None
         | Some cmd \<Rightarrow>
             (case poll_execute PS OS cmd (wd_cmd_sender me1) cx w of
                Inl p \<Rightarrow> Inl p
              | Inr (q, cmd', w1) \<Rightarrow>
                  (let me2 = me1\<lparr>wd_cmd_pending := (wd_cmd_pending me1)(key \<mapsto> cmd')\<rparr>;
                       me3 = me2\<lparr>wd_cmd_pending := (wd_cmd_pending me2)(key := None)\<rparr>
                   in case q of
                        Pending \<Rightarrow> Inr (Pending, me2, w1)
                      | Ready (Inr Resp_WriteDgramFlush) \<Rightarrow> Inr (Ready (Inr ()), me3, w1)
                      | Ready (Inr _) \<Rightarrow> Inl Invalid_Response
                      | Ready (Inl e) \<Rightarrow> Inr (Ready (Inl Write_ConnectionClosed), me3, w1))))"

text \<open>\<open>QuicWriteDgram::poll_close\<close>.\<close>

definition wd_poll_close :: "'w cmd_sender \<Rightarrow> 'w resp_cell \<Rightarrow> 'w data_sender \<Rightarrow> nat \<Rightarrow> write_dgram
    \<Rightarrow> waker \<Rightarrow> 'w \<Rightarrow> ((write_dgram_error + unit) poll \<times> write_dgram \<times> 'w) run" where
  "wd_poll_close PS OS DS key me cx w =
     (let w1 = (if \<not> is_closed PS (wd_cmd_sender me) w then close PS (wd_cmd_sender me) w else w)
      in case wd_poll_ready PS OS DS key me cx w1 of
           Inl p \<Rightarrow> Inl p
         | Inr (Pending, me1, w2) \<Rightarrow> Inr (Pending, me1, w2)
         | Inr (Ready (Inr _), me1, w2) \<Rightarrow> Inr (Ready (Inr ()), me1, w2)
         | Inr (Ready (Inl _), me1, w2) \<Rightarrow> Inr (Ready (Inl Write_ConnectionClosed), me1, w2))"

text \<open>\<open>impl Sink<Bytes> for QuicWriteDgram\<close>.\<close>

definition sink_poll_ready where
  "sink_poll_ready PS OS DS key me cx w = wd_poll_ready PS OS DS key me cx w"

definition sink_start_send :: "'w data_sender \<Rightarrow> write_dgram \<Rightarrow> bytes \<Rightarrow> 'w
    \<Rightarrow> ((write_dgram_error + unit) \<times> write_dgram \<times> 'w) run" where
  "sink_start_send DS me item w =
     (case send_item DS (wd_write_sender me) item w of
        Inl p \<Rightarrow> Inl p
      | Inr (Inl _, w1) \<Rightarrow> Inr (Inl Write_ConnectionClosed, me, w1)
      | Inr (Inr _, w1) \<Rightarrow> Inr (Inr (), me, w1))"

definition sink_poll_flush where
  "sink_poll_flush PS OS key me cx w = wd_poll_flush PS OS key me cx w"

definition sink_poll_close where
  "sink_poll_close PS OS DS key me cx w = wd_poll_close PS OS DS key me cx w"

section \<open>Helper facts\<close>

lemma ready_entry_SomeD:
  assumes "ready_entry DS key me w = Some me1"
  shows "wd_cmd_sender me1 = wd_cmd_sender me \<and> wd_write_sender me1 = wd_write_sender me \<and>
    (\<exists>cmd. me1 = me\<lparr>wd_cmd_pending := (wd_cmd_pending me)(key \<mapsto> cmd)\<rparr> \<and>
      (case wd_cmd_pending me key of
         None \<Rightarrow> cmd = Terminated \<or> cmd = State0 (Some Req_WriteDgramReady)
       | Some c \<Rightarrow> cmd = c))"
  using assms by (auto simp: ready_entry_def fun_upd_idem split: if_splits option.splits)

lemma ready_entry_key: "ready_entry DS key me w = Some me1 \<Longrightarrow> wd_cmd_pending me1 key \<noteq> None"
  using ready_entry_SomeD [of DS key me w me1] by auto

lemma ready_reserve_ok:
  assumes "ready_reserve DS key me cx w = (Ready (Inr ()), me', w')"
  shows "poll_reserve DS (wd_write_sender me) cx w = (Ready (Inr ()), w') \<and>
    me' = me\<lparr>wd_cmd_pending := (wd_cmd_pending me)(key := None)\<rparr>"
  using assms by (auto simp: ready_reserve_def split: prod.splits poll.splits sum.splits)

lemma ready_reserve_sender: "ready_reserve DS key me cx w = (r, me', w') \<Longrightarrow>
    wd_write_sender me' = wd_write_sender me"
  by (auto simp: ready_reserve_def split: prod.splits poll.splits sum.splits)

text \<open>The two ways \<open>poll_ready\<close> can go after its entry is in place.\<close>

lemma wd_poll_ready_cases:
  assumes "wd_poll_ready PS OS DS key me cx w = Inr (r, me', w')"
  obtains (closed) "ready_entry DS key me w = None" "r = Ready (Inl Write_ConnectionClosed)"
      "me' = me" "w' = w"
    | (reserve) me1 w1 where "ready_reserve DS key me1 cx w1 = (r, me', w')"
      "wd_write_sender me1 = wd_write_sender me" "wd_cmd_pending me1 key = Some Terminated"
      "\<And>k. k \<noteq> key \<Longrightarrow> wd_cmd_pending me1 k = wd_cmd_pending me k"
      "w1 = w \<or> (\<exists>cmd cmd' resp. poll_execute PS OS cmd (wd_cmd_sender me) cx w = Inr (Ready (Inr resp), cmd', w1))"
    | (command) cmd q cmd' where "poll_execute PS OS cmd (wd_cmd_sender me) cx w = Inr (q, cmd', w')"
      "\<not> is_terminated cmd'"
      "cmd = (case wd_cmd_pending me key of None \<Rightarrow> State0 (Some Req_WriteDgramReady) | Some c \<Rightarrow> c)"
      "me' = me\<lparr>wd_cmd_pending := (wd_cmd_pending me)(key \<mapsto> cmd')\<rparr>"
      "r = (if q = Pending then Pending else Ready (Inl Write_ConnectionClosed))"
      "\<nexists>resp. q = Ready (Inr resp)"
proof (cases "ready_entry DS key me w")
  case None
  with assms have "r = Ready (Inl Write_ConnectionClosed) \<and> me' = me \<and> w' = w"
    by (auto simp: wd_poll_ready_def)
  with None closed show thesis by blast
next
  case (Some me1)
  from ready_entry_SomeD [OF this] obtain cmd where
    me1: "me1 = me\<lparr>wd_cmd_pending := (wd_cmd_pending me)(key \<mapsto> cmd)\<rparr>"
    and entry: "case wd_cmd_pending me key of
         None \<Rightarrow> cmd = Terminated \<or> cmd = State0 (Some Req_WriteDgramReady)
       | Some c \<Rightarrow> cmd = c" by blast
  show thesis
  proof (cases "is_terminated cmd")
    case True
    then have "cmd = Terminated" by (cases cmd) simp_all
    then have "ready_reserve DS key me1 cx w = (r, me', w')"
      using assms Some me1 by (simp add: wd_poll_ready_def)
    then show thesis by (rule reserve) (simp_all add: me1 \<open>cmd = Terminated\<close>)
  next
    case False
    obtain q cmd' w1 where ex: "poll_execute PS OS cmd (wd_cmd_sender me) cx w = Inr (q, cmd', w1)"
      using assms Some me1 False
      by (cases "poll_execute PS OS cmd (wd_cmd_sender me) cx w") (auto simp: wd_poll_ready_def)
    show thesis
    proof (cases "\<exists>resp. q = Ready (Inr resp)")
      case True
      then obtain resp where q: "q = Ready (Inr resp)" by blast
      have "is_terminated cmd'" using cmd.finished_iff [OF ex] q by simp
      then have "cmd' = Terminated" by (cases cmd') simp_all
      with assms Some me1 False ex q
      have "ready_reserve DS key (me\<lparr>wd_cmd_pending := (wd_cmd_pending me)(key \<mapsto> Terminated)\<rparr>) cx w1 =
          (r, me', w')"
        by (simp add: wd_poll_ready_def Let_def split: response.splits)
      then show thesis by (rule reserve) (use ex q in auto)
    next
      case other: False
      have "\<not> is_terminated cmd'" using cmd.finished_iff [OF ex] other by blast
      moreover have "me' = me\<lparr>wd_cmd_pending := (wd_cmd_pending me)(key \<mapsto> cmd')\<rparr> \<and> w' = w1 \<and>
          r = (if q = Pending then Pending else Ready (Inl Write_ConnectionClosed))"
        using assms Some me1 False ex other
        by (cases q) (auto simp: wd_poll_ready_def Let_def split: sum.splits)
      moreover have "cmd = (case wd_cmd_pending me key of None \<Rightarrow> State0 (Some Req_WriteDgramReady) | Some c \<Rightarrow> c)"
        using entry False by (auto split: option.splits)
      ultimately show thesis using ex other by (intro command [of cmd q cmd']) simp_all
    qed
  qed
qed

section \<open>The two channels are independent\<close>

text \<open>
  The documented behaviour of the two \<open>PollSender\<close>s and of the one-shot cells, and that the
  command side and the data side do not touch each other's state.
\<close>

definition dgram_laws :: "'w cmd_sender \<Rightarrow> 'w resp_cell \<Rightarrow> 'w data_sender
    \<Rightarrow> ('w \<Rightarrow> handle \<Rightarrow> (request \<times> handle) list) \<Rightarrow> ('w \<Rightarrow> handle \<Rightarrow> bool) \<Rightarrow> ('w \<Rightarrow> handle \<Rightarrow> bool)
    \<Rightarrow> ('w \<Rightarrow> handle \<Rightarrow> bytes list) \<Rightarrow> ('w \<Rightarrow> handle \<Rightarrow> bool) \<Rightarrow> bool" where
  "dgram_laws PS OS DS sent reserved live dsent dreserved \<longleftrightarrow>
     command_laws PS OS sent reserved live \<and> poll_sender_laws DS dsent dreserved \<and>
     (\<forall>h cx w r w'. poll_reserve PS h cx w = (r, w') \<longrightarrow> dsent w' = dsent w) \<and>
     (\<forall>h x w r w'. send_item PS h x w = Inr (r, w') \<longrightarrow> dsent w' = dsent w) \<and>
     (\<forall>w c w'. channel OS w = (c, w') \<longrightarrow> dsent w' = dsent w) \<and>
     (\<forall>rx cx w q w'. poll_oneshot OS rx cx w = Inr (q, w') \<longrightarrow> dsent w' = dsent w) \<and>
     (\<forall>h cx w r w'. poll_reserve DS h cx w = (r, w') \<longrightarrow> sent w' = sent w \<and> live w' = live w)"

lemma dgram_lawsD:
  assumes "dgram_laws PS OS DS sent reserved live dsent dreserved"
  shows "command_laws PS OS sent reserved live" and "poll_sender_laws DS dsent dreserved"
    and "poll_reserve PS h cx w = (r, w') \<Longrightarrow> dsent w' = dsent w"
    and "send_item PS h x w = Inr (e, w') \<Longrightarrow> dsent w' = dsent w"
    and "channel OS w = (c, w') \<Longrightarrow> dsent w' = dsent w"
    and "poll_oneshot OS rx cx w = Inr (q, w') \<Longrightarrow> dsent w' = dsent w"
    and "poll_reserve DS h cx w = (d, w') \<Longrightarrow> sent w' = sent w"
    and "poll_reserve DS h cx w = (d, w') \<Longrightarrow> live w' = live w"
  using assms unfolding dgram_laws_def by (elim conjE; metis)+

lemma sample_dgram_laws: "dgram_laws sample_cmds sample_cells sample_data sample_sent sample_reserved
    sample_live sample_dsent sample_dreserved"
  unfolding dgram_laws_def
proof (intro conjI allI impI)
  fix h cx w r w' assume "poll_reserve sample_data h cx w = (r, w')"
  from sample_frames(5) [OF this]
  show "sample_sent w' = sample_sent w" "sample_live w' = sample_live w" by simp_all
qed (simp_all add: sample_command_laws sample_data_sender_laws sample_frames)

lemma poll_execute_data:
  assumes "poll_execute PS OS c s cx w = Inr (q, c', w')"
    and "dgram_laws PS OS DS sent reserved live dsent dreserved"
  shows "dsent w' = dsent w"
  using assms
proof (induction PS OS c s cx w rule: poll_execute.induct)
  case (1 PS OS m s cx w)
  note laws = dgram_lawsD(3-6) [OF 1(3)]
  from 1 show ?case by (fastforce split: exec_splits dest: laws)
next
  case (2 PS OS rx s cx w)
  from 2 show ?case by (auto split: exec_splits dest: dgram_lawsD(6) [OF 2(2)])
qed simp

section \<open>The contract of the sink\<close>

lemma wd_poll_ready_data:
  assumes laws: "dgram_laws PS OS DS sent reserved live dsent dreserved"
    and run: "wd_poll_ready PS OS DS key me cx w = Inr (r, me', w')"
  shows "dsent w' = dsent w \<and> wd_write_sender me' = wd_write_sender me \<and>
    (r = Ready (Inr ()) \<longrightarrow> dreserved w' (wd_write_sender me) \<and> wd_cmd_pending me' key = None)"
  using run
proof (cases rule: wd_poll_ready_cases)
  case (reserve me1 w1)
  have w1: "dsent w1 = dsent w" using reserve(5) poll_execute_data [OF _ laws] by auto
  obtain d where "poll_reserve DS (wd_write_sender me1) cx w1 = (d, w')"
    using reserve(1) by (auto simp: ready_reserve_def split: prod.splits poll.splits sum.splits)
  with poll_sender_lawsD(1) [OF dgram_lawsD(2) [OF laws] this] w1
  have "dsent w' = dsent w" by simp
  moreover have "dreserved w' (wd_write_sender me) \<and> wd_cmd_pending me' key = None" if "r = Ready (Inr ())"
    using ready_reserve_ok [OF reserve(1) [unfolded that]] reserve(2)
      poll_sender_lawsD(2) [OF dgram_lawsD(2) [OF laws]] by auto
  ultimately show ?thesis using ready_reserve_sender [OF reserve(1)] reserve(2) by simp
next
  case (command cmd q cmd')
  with poll_execute_data [OF command(1) laws] show ?thesis by simp
qed simp

text \<open>
  After \<open>poll_ready\<close> succeeded, \<open>start_send\<close> does not panic: a slot of the data channel is
  reserved.  The entry of the poll is gone from \<open>cmd_pending\<close>.
\<close>

theorem sink_ready_then_send:
  assumes laws: "dgram_laws PS OS DS sent reserved live dsent dreserved"
    and run: "sink_poll_ready PS OS DS key me cx w = Inr (Ready (Inr ()), me', w')"
  shows "\<not> panics (sink_start_send DS me' item w') \<and> wd_cmd_pending me' key = None"
proof -
  from wd_poll_ready_data [OF laws run [unfolded sink_poll_ready_def]]
  have "dreserved w' (wd_write_sender me')" and none: "wd_cmd_pending me' key = None" by simp_all
  with poll_sender_lawsD(3) [OF dgram_lawsD(2) [OF laws]]
  have "\<not> panics (send_item DS (wd_write_sender me') item w')" by blast
  with none show ?thesis
    by (auto simp: sink_start_send_def not_panics_iff split: sum.splits)
qed

definition sample_dgram :: write_dgram where
  "sample_dgram = \<lparr>wd_cmd_sender = 7, wd_cmd_pending = Map.empty, wd_write_sender = 9\<rparr>"

lemma sample_ready:
  "sink_poll_ready sample_cmds sample_cells sample_data 8 sample_dgram 1 (sample_world 1 1) =
   Inr (Ready (Inr ()), sample_dgram, (sample_world 1 1)\<lparr>data_queue :=
      (data_queue (sample_world 1 1))(9 := (empty_queue 0)\<lparr>sq_held := True\<rparr>)\<rparr>)"
  by (simp add: sink_poll_ready_def wd_poll_ready_def ready_entry_def ready_reserve_def
      sample_dgram_def sample_defs fun_eq_iff)

theorem sink_ready_then_send_witness:
  "\<not> panics (sink_start_send sample_data sample_dgram [1, 2, 3] ((sample_world 1 1)\<lparr>data_queue :=
      (data_queue (sample_world 1 1))(9 := (empty_queue 0)\<lparr>sq_held := True\<rparr>)\<rparr>))"
  using sink_ready_then_send [OF sample_dgram_laws sample_ready] by blast

text \<open>
  C14: \<open>poll_write_chunk\<close> hands its datagram to the data channel exactly when it succeeds, and
  exactly once; a pending or failed call sends nothing.
\<close>

theorem poll_write_chunk_sends_iff_ok:
  assumes laws: "dgram_laws PS OS DS sent reserved live dsent dreserved"
    and run: "poll_write_chunk PS OS DS key buf me cx w = Inr (r, me', w')"
  shows "dsent w' = (if r = Ready (Inr ())
    then (dsent w)(wd_write_sender me := dsent w (wd_write_sender me) @ [buf]) else dsent w)"
proof -
  note ps = dgram_lawsD(2) [OF laws]
  obtain q me1 w1 where ready: "wd_poll_ready PS OS DS key me cx w = Inr (q, me1, w1)"
    using run by (cases "wd_poll_ready PS OS DS key me cx w") (auto simp: poll_write_chunk_def)
  from wd_poll_ready_data [OF laws ready]
  have d1: "dsent w1 = dsent w" and h: "wd_write_sender me1 = wd_write_sender me" by simp_all
  show ?thesis
  proof (cases "q = Ready (Inr ())")
    case True
    then obtain e w2 where snd: "send_item DS (wd_write_sender me1) buf w1 = Inr (e, w2)"
      using run ready
      by (cases "send_item DS (wd_write_sender me1) buf w1") (auto simp: poll_write_chunk_def)
    show ?thesis
    proof (cases e)
      case (Inl x)
      with snd poll_sender_lawsD(5) [OF ps] have "dsent w2 = dsent w1" by blast
      with run ready True snd Inl d1 show ?thesis by (auto simp: poll_write_chunk_def)
    next
      case (Inr u)
      with snd poll_sender_lawsD(4) [OF ps, of "wd_write_sender me1" buf w1 w2]
      have "dsent w2 = (dsent w1)(wd_write_sender me1 := dsent w1 (wd_write_sender me1) @ [buf])"
        by simp
      with run ready True snd Inr d1 h show ?thesis by (auto simp: poll_write_chunk_def)
    qed
  next
    case False
    with run ready d1 show ?thesis
      by (cases q) (auto simp: poll_write_chunk_def split: sum.splits)
  qed
qed

lemma sample_write_chunk:
  "poll_write_chunk sample_cmds sample_cells sample_data 8 [4, 2] sample_dgram 1 (sample_world 1 1) =
   Inr (Ready (Inr ()), sample_dgram, (sample_world 1 1)\<lparr>data_queue :=
      (data_queue (sample_world 1 1))(9 := (empty_queue 0)\<lparr>sq_log := [[4, 2]]\<rparr>)\<rparr>)"
  by (simp add: poll_write_chunk_def wd_poll_ready_def ready_entry_def ready_reserve_def
      sample_dgram_def sample_defs fun_eq_iff)

theorem poll_write_chunk_sends_iff_ok_witness:
  "sample_dsent ((sample_world 1 1)\<lparr>data_queue :=
      (data_queue (sample_world 1 1))(9 := (empty_queue 0)\<lparr>sq_log := [[4, 2]]\<rparr>)\<rparr>) 9 = [[4, 2]]"
  using fun_cong [OF poll_write_chunk_sends_iff_ok [OF sample_dgram_laws sample_write_chunk], of 9]
  by (simp add: sample_dgram_def sample_defs)

section \<open>Entries that stay behind\<close>

text \<open>What \<open>poll_flush\<close> does with an entry that is there.\<close>

lemma wd_poll_flush_entry:
  assumes "wd_cmd_pending me key = Some c"
    and "poll_execute PS OS c (wd_cmd_sender me) cx w = Inr (q, c', w')"
  shows "wd_poll_flush PS OS key me cx w =
    (case q of
       Pending \<Rightarrow> Inr (Pending, me\<lparr>wd_cmd_pending := (wd_cmd_pending me)(key \<mapsto> c')\<rparr>, w')
     | Ready (Inr r) \<Rightarrow>
         if r = Resp_WriteDgramFlush
         then Inr (Ready (Inr ()), me\<lparr>wd_cmd_pending := (wd_cmd_pending me)(key := None)\<rparr>, w')
         else Inl Invalid_Response
     | Ready (Inl _) \<Rightarrow>
         Inr (Ready (Inl Write_ConnectionClosed), me\<lparr>wd_cmd_pending := (wd_cmd_pending me)(key := None)\<rparr>, w'))"
  using assms by (auto simp: wd_poll_flush_def Let_def split: poll.splits sum.splits response.splits)

text \<open>
  C33: \<open>poll_ready\<close> and \<open>poll_flush\<close> share one table.  After any pending \<open>poll_ready\<close> (the first or a
  later one, \<open>old\<close> being what its sender had sent before) a \<open>poll_flush\<close> whose \<open>cx\<close> has the same address
  takes over its entry.  If that is \<open>Command::Terminated\<close> (the reservation was pending) the flush
  panics with \<open>future polled after completion\<close>.  Otherwise it drives the ready request: no flush
  request goes out, at most the \<open>WriteDgramReady\<close>, and exactly that once it has an answer; and every
  answer but \<open>WriteDgramFlush\<close>, so also the fitting \<open>WriteDgramReady\<close>, is a panic (\<open>Invalid response!\<close>).
\<close>

theorem poll_flush_takes_over_ready:
  assumes laws: "command_laws PS OS sent reserved live"
    and entry: "case wd_cmd_pending me key of
        None \<Rightarrow> sent w (wd_cmd_sender me) = old
      | Some c \<Rightarrow> c = Terminated \<or> command_inv sent live (wd_cmd_sender me) old Req_WriteDgramReady c w"
    and pend: "wd_poll_ready PS OS DS key me cx w = Inr (Pending, me1, w1)"
    and env: "sent w2 (wd_cmd_sender me) = sent w1 (wd_cmd_sender me)" "\<And>rx. live w1 rx \<Longrightarrow> live w2 rx"
  shows "\<exists>c. wd_cmd_pending me1 key = Some c \<and>
    (if c = Terminated then wd_poll_flush PS OS key me1 cx2 w2 = Inl Polled_After_Completion
     else \<exists>q c' w3. poll_execute PS OS c (wd_cmd_sender me) cx2 w2 = Inr (q, c', w3) \<and>
       (sent w3 (wd_cmd_sender me) = old \<and> (\<nexists>r. q = Ready (Inr r)) \<or>
        (\<exists>tx. sent w3 (wd_cmd_sender me) = old @ [(Req_WriteDgramReady, tx)])) \<and>
       wd_poll_flush PS OS key me1 cx2 w2 =
         (case q of
            Pending \<Rightarrow> Inr (Pending, me1\<lparr>wd_cmd_pending := (wd_cmd_pending me1)(key \<mapsto> c')\<rparr>, w3)
          | Ready (Inr r) \<Rightarrow>
              if r = Resp_WriteDgramFlush
              then Inr (Ready (Inr ()), me1\<lparr>wd_cmd_pending := (wd_cmd_pending me1)(key := None)\<rparr>, w3)
              else Inl Invalid_Response
          | Ready (Inl _) \<Rightarrow> Inr (Ready (Inl Write_ConnectionClosed),
              me1\<lparr>wd_cmd_pending := (wd_cmd_pending me1)(key := None)\<rparr>, w3)))"
  using pend
proof (cases rule: wd_poll_ready_cases)
  case (reserve me2 v)
  then have "wd_cmd_pending me1 key = Some Terminated"
    by (auto simp: ready_reserve_def split: prod.splits poll.splits sum.splits)
  then show ?thesis by (simp add: wd_poll_flush_def)
next
  case (command cmd q c)
  let ?h = "wd_cmd_sender me"
  have me1: "wd_cmd_pending me1 key = Some c" "wd_cmd_sender me1 = ?h" using command(4) by simp_all
  have "cmd \<noteq> Terminated" using command(1) by auto
  then have "command_inv sent live ?h old Req_WriteDgramReady cmd w"
    using command(3) entry by (auto split: option.splits)
  from poll_execute_inv [OF laws this command(1)] command(5,6)
  have "command_inv sent live ?h old Req_WriteDgramReady c w1" by (auto split: poll.splits if_splits)
  with env have inv: "command_inv sent live ?h old Req_WriteDgramReady c w2" by (cases c) auto
  then obtain q2 c' w3 where ex: "poll_execute PS OS c ?h cx2 w2 = Inr (q2, c', w3)"
    using poll_execute_no_panic [OF laws inv, of cx2] by (auto simp: not_panics_iff)
  have "sent w3 ?h = old \<and> (\<nexists>r. q2 = Ready (Inr r)) \<or> (\<exists>tx. sent w3 ?h = old @ [(Req_WriteDgramReady, tx)])"
    using poll_execute_inv [OF laws inv ex]
    by (cases c') (auto simp: command_post_def split: poll.splits sum.splits request_error.splits)
  moreover have "c \<noteq> Terminated" using command(2) by auto
  ultimately show ?thesis
    using me1 ex wd_poll_flush_entry [of me1 key c PS OS cx2 w2 q2 c' w3] by auto
qed simp

text \<open>
  The data channel is full, so the ready request goes out; the task answers it, and the next poll under
  this key is a flush.
\<close>

lemma sample_ready_pending:
  "wd_poll_ready sample_cmds sample_cells sample_data 8 sample_dgram 1 (sample_world 1 0) =
   Inr (Pending, sample_dgram\<lparr>wd_cmd_pending := [8 \<mapsto> State1 100]\<rparr>,
     (sample_world 1 0)\<lparr>cmd_queue := (cmd_queue (sample_world 1 0))(7 := (empty_queue 0)
          \<lparr>sq_log := [(Req_WriteDgramReady, 100)]\<rparr>), next_handle := 101\<rparr>)"
  by (simp add: wd_poll_ready_def ready_entry_def Let_def sample_dgram_def sample_defs fun_eq_iff)

theorem poll_flush_takes_over_ready_witness:
  "wd_poll_flush sample_cmds sample_cells 8 (sample_dgram\<lparr>wd_cmd_pending := [8 \<mapsto> State1 100]\<rparr>) 2
     ((sample_world 1 0)\<lparr>cmd_queue := (cmd_queue (sample_world 1 0))(7 := (empty_queue 0)
        \<lparr>sq_log := [(Req_WriteDgramReady, 100)]\<rparr>), next_handle := 101,
        cells := (\<lambda>_. Cell_Empty)(100 := Cell_Full Resp_WriteDgramReady)\<rparr>) = Inl Invalid_Response"
    (is "?flush = _")
proof -
  let ?w2 = "(sample_world 1 0)\<lparr>cmd_queue := (cmd_queue (sample_world 1 0))(7 := (empty_queue 0)
        \<lparr>sq_log := [(Req_WriteDgramReady, 100)]\<rparr>), next_handle := 101,
        cells := (\<lambda>_. Cell_Empty)(100 := Cell_Full Resp_WriteDgramReady)\<rparr>"
  have exec: "\<exists>w3. poll_execute sample_cmds sample_cells (State1 100) 7 2 ?w2 =
      Inr (Ready (Inr Resp_WriteDgramReady), Terminated, w3)" by (simp add: sample_defs)
  have entry: "case wd_cmd_pending sample_dgram 8 of
        None \<Rightarrow> sample_sent (sample_world 1 0) (wd_cmd_sender sample_dgram) = []
      | Some c \<Rightarrow> c = Terminated \<or> command_inv sample_sent sample_live (wd_cmd_sender sample_dgram) []
          Req_WriteDgramReady c (sample_world 1 0)" by (simp add: sample_dgram_def sample_defs)
  show ?thesis
    using poll_flush_takes_over_ready [OF sample_command_laws entry sample_ready_pending, of ?w2 2] exec
    by (auto simp: sample_dgram_def sample_defs)
qed

text \<open>
  A \<open>poll_ready\<close> whose command fails returns \<open>ConnectionClosed\<close> without removing its entry:
  with a full data channel and a closed command channel, the unsent \<open>WriteDgramReady\<close> request
  stays under the key, and a later \<open>poll_flush\<close> under that key executes it instead of a flush
  request.
\<close>

theorem poll_ready_failure_keeps_entry:
  assumes none: "wd_cmd_pending me key = None"
    and full: "get_ref DS (wd_write_sender me) w = Some h" "capacity DS h w = 0"
    and shut: "poll_reserve PS (wd_cmd_sender me) cx w = (Ready (Inl e), w1)"
  shows "\<exists>me1. wd_poll_ready PS OS DS key me cx w = Inr (Ready (Inl Write_ConnectionClosed), me1, w1) \<and>
    wd_cmd_pending me1 key = Some (State0 (Some Req_WriteDgramReady)) \<and>
    wd_poll_flush PS OS key me1 cx2 w2 =
      (case poll_execute PS OS (State0 (Some Req_WriteDgramReady)) (wd_cmd_sender me) cx2 w2 of
         Inl p \<Rightarrow> Inl p
       | Inr (Pending, c, w3) \<Rightarrow> Inr (Pending, me1\<lparr>wd_cmd_pending := (wd_cmd_pending me1)(key \<mapsto> c)\<rparr>, w3)
       | Inr (Ready (Inr Resp_WriteDgramFlush), c, w3) \<Rightarrow> Inr (Ready (Inr ()), me, w3)
       | Inr (Ready (Inr _), c, w3) \<Rightarrow> Inl Invalid_Response
       | Inr (Ready (Inl _), c, w3) \<Rightarrow> Inr (Ready (Inl Write_ConnectionClosed), me, w3))"
proof -
  let ?me1 = "me\<lparr>wd_cmd_pending := (wd_cmd_pending me)(key \<mapsto> State0 (Some Req_WriteDgramReady))\<rparr>"
  have drop_key: "me\<lparr>wd_cmd_pending := (wd_cmd_pending me)(key := None)\<rparr> = me"
    using none by (simp add: fun_upd_idem)
  have "wd_poll_ready PS OS DS key me cx w = Inr (Ready (Inl Write_ConnectionClosed), ?me1, w1)"
    using assms by (simp add: wd_poll_ready_def ready_entry_def Let_def)
  then show ?thesis
    by (intro exI [of _ ?me1])
      (simp add: wd_poll_flush_def Let_def drop_key split: sum.splits prod.splits poll.splits response.splits)
qed

theorem poll_ready_failure_keeps_entry_witness:
  "\<exists>me1. wd_poll_ready sample_cmds sample_cells sample_data 8 sample_dgram 1
      (close sample_cmds 7 (sample_world 1 0)) =
      Inr (Ready (Inl Write_ConnectionClosed), me1, close sample_cmds 7 (sample_world 1 0)) \<and>
    wd_cmd_pending me1 8 = Some (State0 (Some Req_WriteDgramReady))"
proof -
  have "poll_reserve sample_cmds (wd_cmd_sender sample_dgram) 1 (close sample_cmds 7 (sample_world 1 0)) =
      (Ready (Inl (PollSendError None)), close sample_cmds 7 (sample_world 1 0))"
    by (simp add: sample_dgram_def sample_defs fun_eq_iff)
  from poll_ready_failure_keeps_entry [OF _ _ _ this, of 8 sample_data 9] show ?thesis
    by (simp add: sample_dgram_def sample_defs) blast
qed

text \<open>
  Closing a datagram writer while the data channel is full fails: \<open>poll_close\<close> first closes
  the command channel and then needs it to ask for room, so it returns \<open>ConnectionClosed\<close>
  although the connection is up.
\<close>

theorem poll_close_fails_when_full:
  assumes none: "wd_cmd_pending me key = None"
    and v: "v = (if is_closed PS (wd_cmd_sender me) w then w else close PS (wd_cmd_sender me) w)"
    and full: "get_ref DS (wd_write_sender me) v = Some h" "capacity DS h v = 0"
    and shut: "poll_reserve PS (wd_cmd_sender me) cx v = (Ready (Inl e), w1)"
  shows "\<exists>me1. sink_poll_close PS OS DS key me cx w = Inr (Ready (Inl Write_ConnectionClosed), me1, w1)"
  using assms
  by (auto simp: sink_poll_close_def wd_poll_close_def wd_poll_ready_def ready_entry_def Let_def)

theorem poll_close_fails_when_full_witness:
  "\<exists>me1. sink_poll_close sample_cmds sample_cells sample_data 8 sample_dgram 1 (sample_world 1 0) =
     Inr (Ready (Inl Write_ConnectionClosed), me1, close sample_cmds 7 (sample_world 1 0))"
  by (rule poll_close_fails_when_full [OF _ refl, where h = 9])
    (simp_all add: sample_dgram_def sample_defs fun_eq_iff)

end
