(* ===== verification/Dgram_Read.thy ===== *)
theory Dgram_Read
  imports Sample_Runtime
begin

text \<open>
  \<open>QuicReadDgram\<close> of \<open>poll-read\<close>: the receiving half of the datagram interface, as a poll
  function, as the future \<open>ReadChunk\<close> and as a \<open>Stream\<close>.
\<close>

datatype read_dgram_error = Read_ConnectionClosed

record read_dgram =
  rd_req_sender :: handle
  rd_read_receiver :: handle

text \<open>\<open>QuicReadDgram::poll_read_chunk\<close>.\<close>

definition poll_read_chunk :: "('w, bytes) receiver_api \<Rightarrow> read_dgram \<Rightarrow> waker \<Rightarrow> 'w
    \<Rightarrow> (read_dgram_error + bytes) poll \<times> 'w" where
  "poll_read_chunk RX me cx w =
     (case poll_recv RX (rd_read_receiver me) cx w of
        (Ready (Some bytes), w1) \<Rightarrow> (Ready (Inr bytes), w1)
      | (Ready None, w1) \<Rightarrow> (Ready (Inl Read_ConnectionClosed), w1)
      | (Pending, w1) \<Rightarrow> (Pending, w1))"

text \<open>\<open>ReadChunk::poll\<close>; the future borrows the reader, so its state is the reader.\<close>

definition read_chunk_poll :: "('w, bytes) receiver_api \<Rightarrow> read_dgram \<Rightarrow> waker \<Rightarrow> 'w
    \<Rightarrow> ((read_dgram_error + bytes) poll \<times> read_dgram \<times> 'w) run" where
  "read_chunk_poll RX me cx w = (case poll_read_chunk RX me cx w of (r, w1) \<Rightarrow> Inr (r, me, w1))"

text \<open>\<open>QuicReadDgram::read_chunk\<close>: awaiting a \<open>ReadChunk\<close>.\<close>

definition read_chunk :: "('w, bytes) receiver_api \<Rightarrow> (waker \<times> ('w \<Rightarrow> 'w)) list \<Rightarrow> read_dgram \<Rightarrow> 'w
    \<Rightarrow> ((read_dgram_error + bytes) poll \<times> read_dgram \<times> 'w) run" where
  "read_chunk RX xs me w = drive (read_chunk_poll RX) xs me w"

text \<open>\<open>Stream::poll_next\<close>.\<close>

definition poll_next :: "('w, bytes) receiver_api \<Rightarrow> read_dgram \<Rightarrow> waker \<Rightarrow> 'w
    \<Rightarrow> (read_dgram_error + bytes) option poll \<times> 'w" where
  "poll_next RX me cx w =
     (case poll_read_chunk RX me cx w of
        (Ready r, w1) \<Rightarrow> (Ready (Some r), w1)
      | (Pending, w1) \<Rightarrow> (Pending, w1))"

text \<open>The datagrams a consumer of the stream gets from a sequence of polls.\<close>

fun stream_items :: "('w, bytes) receiver_api \<Rightarrow> read_dgram \<Rightarrow> (waker \<times> ('w \<Rightarrow> 'w)) list \<Rightarrow> 'w
    \<Rightarrow> bytes list \<times> 'w" where
  "stream_items RX me [] w = ([], w)"
| "stream_items RX me ((cx, g) # xs) w =
     (case poll_next RX me cx (g w) of
        (Ready (Some (Inr b)), w1) \<Rightarrow>
          (case stream_items RX me xs w1 of (bs, w2) \<Rightarrow> (b # bs, w2))
      | (_, w1) \<Rightarrow> stream_items RX me xs w1)"

text \<open>
  C37: The stream of datagrams delivers what arrived on the channel, every datagram once and in
  order of arrival, and it never ends: a closed channel makes \<open>poll_next\<close> yield
  \<open>Some(Err(ConnectionClosed))\<close>, never \<open>None\<close>.
\<close>

theorem stream_delivers_in_order:
  assumes RX: "receiver_laws RX taken"
    and env: "\<forall>x \<in> set xs. \<forall>w. taken (snd x w) = taken w"
  shows "taken (snd (stream_items RX me xs w)) (rd_read_receiver me) =
      taken w (rd_read_receiver me) @ fst (stream_items RX me xs w) \<and>
    fst (poll_next RX me cx w) \<noteq> Ready None"
proof -
  have "taken (snd (stream_items RX me xs w)) (rd_read_receiver me) =
      taken w (rd_read_receiver me) @ fst (stream_items RX me xs w)"
    using env
  proof (induction xs arbitrary: w)
    case Nil
    then show ?case by simp
  next
    case (Cons x xs)
    obtain cx g where x: "x = (cx, g)" by (cases x)
    have g: "taken (g w) = taken w" using Cons.prems x by auto
    obtain q w1 where recv: "poll_recv RX (rd_read_receiver me) cx (g w) = (q, w1)"
      by (cases "poll_recv RX (rd_read_receiver me) cx (g w)")
    have "taken (snd (stream_items RX me xs w1)) (rd_read_receiver me) =
        taken w1 (rd_read_receiver me) @ fst (stream_items RX me xs w1)"
      using Cons by simp
    with recv x g receiver_lawsD [OF RX recv] show ?case
      by (auto simp: poll_next_def poll_read_chunk_def split: poll.splits option.splits prod.splits)
  qed
  moreover have "fst (poll_next RX me cx w) \<noteq> Ready None"
    by (simp add: poll_next_def split: prod.splits poll.splits)
  ultimately show ?thesis by blast
qed

definition sample_reader :: read_dgram where
  "sample_reader = \<lparr>rd_req_sender = 7, rd_read_receiver = 5\<rparr>"

theorem stream_delivers_in_order_witness:
  "inbox_log (snd (stream_items sample_inbox sample_reader [(1, id), (1, id), (1, id)]
     ((sample_world 1 1)\<lparr>inbox := (\<lambda>_. [])(5 := [[1], [2, 3]])\<rparr>))) 5 = [[1], [2, 3]]"
proof -
  have env: "\<forall>x \<in> set [(1, id), (1, id), (1 :: waker, id)]. \<forall>w. inbox_log (snd x w) = inbox_log w"
    by simp
  show ?thesis
    using stream_delivers_in_order [OF sample_receiver_laws env, of sample_reader
        "(sample_world 1 1)\<lparr>inbox := (\<lambda>_. [])(5 := [[1], [2, 3]])\<rparr>"]
    by (simp add: sample_reader_def poll_next_def poll_read_chunk_def sample_defs)
qed

text \<open>A \<open>read_chunk\<close> that completes gives the next datagram of the channel.\<close>

lemma read_chunk_next:
  assumes RX: "receiver_laws RX taken"
    and env: "\<forall>x \<in> set xs. \<forall>w. taken (snd x w) = taken w"
    and run: "read_chunk RX xs me w = Inr (Ready (Inr b), me', w')"
  shows "me' = me \<and> taken w' = (taken w)(rd_read_receiver me := taken w (rd_read_receiver me) @ [b])"
proof -
  let ?I = "\<lambda>m v. m = me \<and> taken v = taken w"
  let ?Q = "\<lambda>r m v. m = me \<and> (\<forall>b. r = Inr b \<longrightarrow>
    taken v = (taken w)(rd_read_receiver me := taken w (rd_read_receiver me) @ [b]))"
  have step: "case q of Pending \<Rightarrow> ?I m' v' | Ready r \<Rightarrow> ?Q r m' v'"
    if "?I m v" "read_chunk_poll RX m cx v = Inr (q, m', v')" for m cx v q m' v'
  proof -
    obtain p v1 where recv: "poll_recv RX (rd_read_receiver m) cx v = (p, v1)"
      by (cases "poll_recv RX (rd_read_receiver m) cx v")
    with that receiver_lawsD [OF RX recv] show ?thesis
      by (auto simp: read_chunk_poll_def poll_read_chunk_def split: poll.splits option.splits)
  qed
  have "case Ready (Inr b :: read_dgram_error + bytes) of Pending \<Rightarrow> ?I me' w' | Ready r \<Rightarrow> ?Q r me' w'"
  proof (rule drive_induct [where I = ?I and Q = ?Q, OF _ _ _ _ run [unfolded read_chunk_def]])
    fix c cx v r c' v' assume "?I c v" "read_chunk_poll RX c cx v = Inr (Ready r, c', v')"
    from step [OF this] show "?Q r c' v'" by simp
  next
    fix c cx v c' v' assume "?I c v" "read_chunk_poll RX c cx v = Inr (Pending, c', v')"
    from step [OF this] show "?I c' v'" by simp
  qed (use env in auto)
  then show ?thesis by simp
qed

end
