(* ===== verification/Connection_Task.thy ===== *)
theory Connection_Task
  imports Command Sample_Runtime
begin

text \<open>
  The task that \<open>main\<close> of \<open>poll-read\<close> spawns: the emulated QUIC connection.  Each round of its
  loop waits for a request or a timer tick (\<open>tokio::select!\<close>), moves datagrams from the
  application's channel to its send queue, offers data to the readers and sends what the
  congestion window allows.  Which branch of the \<open>select!\<close> fires is the event of the round.
\<close>

section \<open>The model\<close>

record task =
  t_write_dgrams :: "bytes vecdeque"
  t_sent_dgrams :: "bytes vecdeque"
  t_waiting :: "bytes option"
  t_flush_notifiers :: "handle list"
  t_ready_notifiers :: "handle list"
  t_cwnd :: nat

definition MAX_SEND_DGRAMS :: nat where
  "MAX_SEND_DGRAMS = 2"

definition task_init :: task where
  "task_init = \<lparr>t_write_dgrams = vd_new, t_sent_dgrams = vd_new, t_waiting = None,
     t_flush_notifiers = [], t_ready_notifiers = [], t_cwnd = 10000\<rparr>"

text \<open>The channel ends that are moved into the task.\<close>

record task_chans =
  c_dgram_write :: handle
  c_stream_read :: handle
  c_dgram_read :: handle

datatype select_event =
    Request_Arrived "(request \<times> handle) option"
  | Timer_Fired

text \<open>The \<open>tokio::select!\<close> block.  The flag says whether the loop goes on.\<close>

fun on_select :: "bytes_api \<Rightarrow> 'w resp_cell \<Rightarrow> select_event \<Rightarrow> task \<Rightarrow> 'w
    \<Rightarrow> (bool \<times> task \<times> 'w) run" where
  "on_select B OS (Request_Arrived (Some (Req_Read len, respond_to))) t w =
     (case with_capacity B len of
        Inl p \<Rightarrow> Inl p
      | Inr buf \<Rightarrow>
          (case usize_sub len 1 of
             Inl p \<Rightarrow> Inl p
           | Inr n \<Rightarrow>
               (case resize B buf n 0 of
                  Inl p \<Rightarrow> Inl p
                | Inr buf1 \<Rightarrow> Inr (True, t, snd (respond OS respond_to (Resp_Read (freeze B buf1)) w)))))"
| "on_select B OS (Request_Arrived (Some (Req_Write buf, respond_to))) t w =
     Inr (True, t, snd (respond OS respond_to (Resp_Write (length buf)) w))"
| "on_select B OS (Request_Arrived (Some (Req_WriteDgramReady, respond_to))) t w =
     Inr (True, t\<lparr>t_ready_notifiers := t_ready_notifiers t @ [respond_to]\<rparr>, w)"
| "on_select B OS (Request_Arrived (Some (Req_WriteDgramFlush, respond_to))) t w =
     Inr (True, t\<lparr>t_flush_notifiers := t_flush_notifiers t @ [respond_to]\<rparr>, w)"
| "on_select B OS (Request_Arrived None) t w = Inr (False, t, w)"
| "on_select B OS Timer_Fired t w =
     (case vd_pop_front (t_sent_dgrams t) of
        (Some buf, q) \<Rightarrow>
          (case usize_add (t_cwnd t) (length buf) of
             Inl p \<Rightarrow> Inl p
           | Inr c \<Rightarrow> Inr (True, t\<lparr>t_sent_dgrams := q, t_cwnd := c\<rparr>, w))
      | (None, q) \<Rightarrow> Inr (True, t\<lparr>t_sent_dgrams := q\<rparr>, w))"

text \<open>Lines 476 to 481: a datagram that was waiting for room moves to the queue.\<close>

definition promote_waiting :: "task \<Rightarrow> task" where
  "promote_waiting t =
     (if vd_len (t_write_dgrams t) < MAX_SEND_DGRAMS
      then (case t_waiting t of
              Some buf \<Rightarrow> t\<lparr>t_waiting := None, t_write_dgrams := vd_push_back (t_write_dgrams t) buf\<rparr>
            | None \<Rightarrow> t)
      else t)"

text \<open>The loops \<open>while !notifiers.is_empty()\<close>: the last notifier is answered first.\<close>

function notify_all :: "'w resp_cell \<Rightarrow> response \<Rightarrow> handle list \<Rightarrow> 'w \<Rightarrow> 'w" where
  "notify_all OS r txs w =
     (case vec_pop txs of
        (None, _) \<Rightarrow> w
      | (Some respond_to, rest) \<Rightarrow> notify_all OS r rest (snd (respond OS respond_to r w)))"
  by pat_completeness auto
termination
  by (relation "measure (\<lambda>(_, _, txs, _). length txs)") (auto simp: vec_pop_def split: if_splits)

text \<open>
  Lines 482 to 512, the receive loop: it goes on only after a push to the queue, so the room
  left in the queue bounds it.
\<close>

function recv_loop :: "'w resp_cell \<Rightarrow> ('w, bytes) receiver_api \<Rightarrow> handle \<Rightarrow> task \<Rightarrow> 'w \<Rightarrow> task \<times> 'w" where
  "recv_loop OS RX h t w =
     (case try_recv RX h w of
        (Inr buf, w1) \<Rightarrow>
          (let w2 = notify_all OS Resp_WriteDgramReady (t_ready_notifiers t) w1;
               t1 = t\<lparr>t_ready_notifiers := []\<rparr>
           in if vd_len (t_write_dgrams t1) < MAX_SEND_DGRAMS
              then recv_loop OS RX h (t1\<lparr>t_write_dgrams := vd_push_back (t_write_dgrams t1) buf\<rparr>) w2
              else (t1\<lparr>t_waiting := Some buf\<rparr>, w2))
      | (Inl _, w1) \<Rightarrow>
          (t\<lparr>t_flush_notifiers := []\<rparr>,
           notify_all OS Resp_WriteDgramFlush (t_flush_notifiers t) w1))"
  by pat_completeness auto
termination
  by (relation "measure (\<lambda>(_, _, _, t, _). MAX_SEND_DGRAMS - vd_len (t_write_dgrams t))")
    (auto simp: vd_len_def)

declare notify_all.simps [simp del] recv_loop.simps [simp del]

definition recv_phase :: "'w resp_cell \<Rightarrow> ('w, bytes) receiver_api \<Rightarrow> handle \<Rightarrow> task \<Rightarrow> 'w \<Rightarrow> task \<times> 'w" where
  "recv_phase OS RX h t w = (if t_waiting t = None then recv_loop OS RX h t w else (t, w))"

text \<open>Lines 514 to 539: a chunk of 1300 zero bytes for a reader with room for it.\<close>

definition offer_chunk :: "bytes_api \<Rightarrow> ('w, bytes) sender_api \<Rightarrow> handle \<Rightarrow> 'w \<Rightarrow> (bool \<times> 'w) run" where
  "offer_chunk B TX h w =
     (case try_reserve TX h w of
        (Inr permit, w1) \<Rightarrow>
          (case with_capacity B 1300 of
             Inl p \<Rightarrow> Inl p
           | Inr buf \<Rightarrow>
               (case resize B buf 1300 0 of
                  Inl p \<Rightarrow> Inl p
                | Inr buf1 \<Rightarrow> Inr (True, permit_send TX permit (freeze B buf1) w1)))
      | (Inl Send_Full, w1) \<Rightarrow> Inr (True, w1)
      | (Inl Send_Closed, w1) \<Rightarrow> Inr (False, w1))"

text \<open>Lines 541 to 548, the emulated sending of packets.\<close>

function send_loop :: "task \<Rightarrow> task run" where
  "send_loop t =
     (if \<not> vd_is_empty (t_write_dgrams t) \<and>
         (case vd_front (t_write_dgrams t) of None \<Rightarrow> 0 | Some v \<Rightarrow> length v) \<le> t_cwnd t
      then (case vd_pop_front (t_write_dgrams t) of
              (None, _) \<Rightarrow> Inl Unwrap_None
            | (Some buf, q) \<Rightarrow>
                (case usize_sub (t_cwnd t) (length buf) of
                   Inl p \<Rightarrow> Inl p
                 | Inr c \<Rightarrow> send_loop (t\<lparr>t_write_dgrams := q, t_cwnd := c,
                     t_sent_dgrams := vd_push_back (t_sent_dgrams t) buf\<rparr>)))
      else Inr t)"
  by pat_completeness auto
termination
  by (relation "measure (\<lambda>t. vd_len (t_write_dgrams t))")
    (auto simp: vd_len_def vd_pop_front_def split: list.splits)

declare send_loop.simps [simp del]

text \<open>One round of \<open>'outer: loop\<close>.\<close>

definition task_iter :: "bytes_api \<Rightarrow> 'w resp_cell \<Rightarrow> ('w, bytes) receiver_api
    \<Rightarrow> ('w, bytes) sender_api \<Rightarrow> task_chans \<Rightarrow> select_event \<Rightarrow> task \<Rightarrow> 'w
    \<Rightarrow> (bool \<times> task \<times> 'w) run" where
  "task_iter B OS RX TX ch ev t w =
     (case on_select B OS ev t w of
        Inl p \<Rightarrow> Inl p
      | Inr (False, t1, w1) \<Rightarrow> Inr (False, t1, w1)
      | Inr (True, t1, w1) \<Rightarrow>
          (case recv_phase OS RX (c_dgram_write ch) (promote_waiting t1) w1 of
             (t2, w2) \<Rightarrow>
               (case offer_chunk B TX (c_stream_read ch) w2 of
                  Inl p \<Rightarrow> Inl p
                | Inr (False, w3) \<Rightarrow> Inr (False, t2, w3)
                | Inr (True, w3) \<Rightarrow>
                    (case offer_chunk B TX (c_dgram_read ch) w3 of
                       Inl p \<Rightarrow> Inl p
                     | Inr (False, w4) \<Rightarrow> Inr (False, t2, w4)
                     | Inr (True, w4) \<Rightarrow>
                         (case send_loop t2 of
                            Inl p \<Rightarrow> Inl p
                          | Inr t3 \<Rightarrow> Inr (True, t3, w4))))))"

text \<open>
  The rounds of a run, with what the rest of the program does before each of them.  The run
  stops when the loop is left or the task panics.
\<close>

fun task_run :: "bytes_api \<Rightarrow> 'w resp_cell \<Rightarrow> ('w, bytes) receiver_api \<Rightarrow> ('w, bytes) sender_api
    \<Rightarrow> task_chans \<Rightarrow> (select_event \<times> ('w \<Rightarrow> 'w)) list \<Rightarrow> task \<Rightarrow> 'w \<Rightarrow> (bool \<times> task \<times> 'w) run" where
  "task_run B OS RX TX ch [] t w = Inr (True, t, w)"
| "task_run B OS RX TX ch ((ev, g) # xs) t w =
     (case task_iter B OS RX TX ch ev t (g w) of
        Inl p \<Rightarrow> Inl p
      | Inr (False, t1, w1) \<Rightarrow> Inr (False, t1, w1)
      | Inr (True, t1, w1) \<Rightarrow> task_run B OS RX TX ch xs t1 w1)"

end
