(* ===== verification/Connection_Correct.thy ===== *)
theory Connection_Correct
  imports Connection_Task
begin

text \<open>
  What the connection task guarantees: the congestion-window and queue invariant of every
  reachable state, the order of the datagrams through its queues, when it answers its notifiers
  and when it panics.
\<close>

section \<open>The datagrams inside the task\<close>

definition pipeline :: "task \<Rightarrow> bytes list" where
  "pipeline t = elems (t_sent_dgrams t) @ elems (t_write_dgrams t) @
     (case t_waiting t of None \<Rightarrow> [] | Some b \<Rightarrow> [b])"

text \<open>
  The invariant: at most \<open>MAX_SEND_DGRAMS\<close> datagrams are queued, and the free window and the
  bytes in flight add up to the initial window.
\<close>

definition task_ok :: "task \<Rightarrow> bool" where
  "task_ok t \<longleftrightarrow> length (elems (t_write_dgrams t)) \<le> MAX_SEND_DGRAMS \<and>
     t_cwnd t + total_len (elems (t_sent_dgrams t)) = 10000"

lemma task_ok_init: "task_ok task_init"
  by (simp add: task_ok_def task_init_def)

text \<open>Answering and offering leave the application's datagram channel alone.\<close>

definition task_laws :: "bytes_api \<Rightarrow> 'w resp_cell \<Rightarrow> ('w, bytes) receiver_api
    \<Rightarrow> ('w, bytes) sender_api \<Rightarrow> ('w \<Rightarrow> handle \<Rightarrow> bytes list) \<Rightarrow> bool" where
  "task_laws B OS RX TX taken \<longleftrightarrow>
     bytes_laws B \<and> receiver_laws RX taken \<and>
     (\<forall>tx r w. taken (snd (respond OS tx r w)) = taken w) \<and>
     (\<forall>h w. taken (snd (try_reserve TX h w)) = taken w) \<and>
     (\<forall>h x w. taken (permit_send TX h x w) = taken w)"

lemma task_lawsD:
  assumes "task_laws B OS RX TX taken"
  shows "bytes_laws B" and "receiver_laws RX taken"
    and "taken (snd (respond OS tx r w)) = taken w"
    and "taken (snd (try_reserve TX h w)) = taken w"
    and "taken (permit_send TX h x w) = taken w"
  using assms by (simp_all add: task_laws_def)

lemma sample_task_laws: "task_laws sample_bytes sample_cells sample_inbox sample_outbox inbox_log"
  by (simp add: task_laws_def sample_bytes_laws sample_receiver_laws)
    (simp add: sample_cells_def sample_outbox_def)

section \<open>The phases of a round\<close>

lemma promote_waiting_facts:
  "pipeline (promote_waiting t) = pipeline t"
  "t_sent_dgrams (promote_waiting t) = t_sent_dgrams t"
  "t_cwnd (promote_waiting t) = t_cwnd t"
  "t_ready_notifiers (promote_waiting t) = t_ready_notifiers t"
  "t_flush_notifiers (promote_waiting t) = t_flush_notifiers t"
  "task_ok t \<Longrightarrow> task_ok (promote_waiting t)"
  by (auto simp: promote_waiting_def pipeline_def task_ok_def deque.count_items split: option.splits)

lemma promote_waiting_full:
  "t_waiting (promote_waiting t) \<noteq> None \<Longrightarrow>
     promote_waiting t = t \<and> MAX_SEND_DGRAMS \<le> length (elems (t_write_dgrams t))"
  by (auto simp: promote_waiting_def deque.count_items split: if_splits option.splits)

lemma notify_all_Nil [simp]: "notify_all OS r [] w = w"
  by (simp add: notify_all.simps)

lemma notify_all_snoc [simp]:
  "notify_all OS r (txs @ [tx]) w = notify_all OS r txs (snd (respond OS tx r w))"
  by (subst notify_all.simps) simp

lemma notify_all_fold:
  "notify_all OS r txs w = fold (\<lambda>tx w. snd (respond OS tx r w)) (rev txs) w"
  by (induction txs arbitrary: w rule: rev_induct) simp_all

lemma notify_all_frame:
  assumes "\<And>tx r w. obs (snd (respond OS tx r w)) = obs w"
  shows "obs (notify_all OS r txs w) = obs w"
  using assms by (induction txs arbitrary: w rule: rev_induct) simp_all

text \<open>What the receive loop does, from a task with no datagram waiting.\<close>

definition recv_post :: "('w \<Rightarrow> handle \<Rightarrow> bytes list) \<Rightarrow> handle \<Rightarrow> task \<Rightarrow> 'w \<Rightarrow> task \<Rightarrow> 'w \<Rightarrow> bool" where
  "recv_post taken h t w t' w' \<longleftrightarrow>
     (\<exists>new. taken w' h = taken w h @ new \<and> pipeline t' = pipeline t @ new \<and>
        length new \<le> Suc MAX_SEND_DGRAMS - length (elems (t_write_dgrams t)) \<and>
        (new = [] \<longrightarrow> t_ready_notifiers t' = t_ready_notifiers t) \<and>
        (new \<noteq> [] \<longrightarrow> t_ready_notifiers t' = [])) \<and>
     length (elems (t_write_dgrams t')) \<le> MAX_SEND_DGRAMS \<and>
     t_sent_dgrams t' = t_sent_dgrams t \<and> t_cwnd t' = t_cwnd t \<and>
     (if t_waiting t' = None then t_flush_notifiers t' = []
      else t_flush_notifiers t' = t_flush_notifiers t \<and>
        length (elems (t_write_dgrams t')) = MAX_SEND_DGRAMS)"

lemma recv_loop_post:
  assumes laws: "task_laws B OS RX TX taken"
    and "recv_loop OS RX h t w = (t', w')" and "t_waiting t = None"
    and "length (elems (t_write_dgrams t)) \<le> MAX_SEND_DGRAMS"
  shows "recv_post taken h t w t' w'"
  using assms(2-)
proof (induction "MAX_SEND_DGRAMS - length (elems (t_write_dgrams t))" arbitrary: t w rule: less_induct)
  case less
  obtain r w1 where recv: "try_recv RX h w = (r, w1)" by (cases "try_recv RX h w")
  note tk = receiver_laws_tryD [OF task_lawsD(2) [OF laws] recv]
  have frame: "taken (notify_all OS x txs v) = taken v" for x txs v
    by (rule notify_all_frame) (rule task_lawsD(3) [OF laws])
  show ?case
  proof (cases r)
    case (Inl e)
    with less.prems recv tk frame show ?thesis
      by (auto simp: recv_loop.simps [of OS RX h t w] recv_post_def pipeline_def)
  next
    case (Inr buf)
    let ?w2 = "notify_all OS Resp_WriteDgramReady (t_ready_notifiers t) w1"
    let ?t1 = "t\<lparr>t_ready_notifiers := []\<rparr>"
    let ?t2 = "?t1\<lparr>t_write_dgrams := vd_push_back (t_write_dgrams ?t1) buf\<rparr>"
    have w2: "taken ?w2 h = taken w h @ [buf]" using tk Inr frame by simp
    show ?thesis
    proof (cases "length (elems (t_write_dgrams t)) < MAX_SEND_DGRAMS")
      case True
      have run: "recv_loop OS RX h ?t2 ?w2 = (t', w')"
        using less.prems(1) recv Inr True
        by (simp add: recv_loop.simps [of OS RX h t w] Let_def deque.count_items)
      have "recv_post taken h ?t2 ?w2 t' w'"
        using less.hyps [OF _ run] True less.prems(2) by simp
      then obtain new where new: "taken w' h = taken ?w2 h @ new" "pipeline t' = pipeline ?t2 @ new"
        "length new \<le> Suc MAX_SEND_DGRAMS - length (elems (t_write_dgrams ?t2))"
        "new = [] \<longrightarrow> t_ready_notifiers t' = []" "new \<noteq> [] \<longrightarrow> t_ready_notifiers t' = []"
        and rest: "length (elems (t_write_dgrams t')) \<le> MAX_SEND_DGRAMS"
          "t_sent_dgrams t' = t_sent_dgrams t" "t_cwnd t' = t_cwnd t"
          "if t_waiting t' = None then t_flush_notifiers t' = []
           else t_flush_notifiers t' = t_flush_notifiers t \<and>
             length (elems (t_write_dgrams t')) = MAX_SEND_DGRAMS"
        by (auto simp: recv_post_def)
      have "pipeline ?t2 = pipeline t @ [buf]" using less.prems(2) by (simp add: pipeline_def)
      with new w2 True have "taken w' h = taken w h @ (buf # new) \<and> pipeline t' = pipeline t @ (buf # new) \<and>
          length (buf # new) \<le> Suc MAX_SEND_DGRAMS - length (elems (t_write_dgrams t)) \<and>
          t_ready_notifiers t' = []"
        by auto
      with rest show ?thesis unfolding recv_post_def by blast
    next
      case False
      with less.prems recv Inr w2 show ?thesis
        by (auto simp: recv_loop.simps [of OS RX h t w] Let_def deque.count_items recv_post_def
            pipeline_def)
    qed
  qed
qed

lemma recv_phase_post:
  assumes laws: "task_laws B OS RX TX taken" and run: "recv_phase OS RX h t w = (t', w')"
    and len: "length (elems (t_write_dgrams t)) \<le> MAX_SEND_DGRAMS"
  shows "\<exists>new. taken w' h = taken w h @ new \<and> pipeline t' = pipeline t @ new \<and>
      length new \<le> Suc MAX_SEND_DGRAMS \<and> (new = [] \<longrightarrow> t_ready_notifiers t' = t_ready_notifiers t)"
    and "length (elems (t_write_dgrams t')) \<le> MAX_SEND_DGRAMS"
    and "t_sent_dgrams t' = t_sent_dgrams t" and "t_cwnd t' = t_cwnd t"
  using run len recv_loop_post [OF laws, of h t w t' w']
  by (auto simp: recv_phase_def recv_post_def split: if_splits)

lemma offer_chunk_facts:
  assumes laws: "task_laws B OS RX TX taken"
  shows "\<exists>go w'. offer_chunk B TX h w = Inr (go, w') \<and> taken w' = taken w"
proof -
  have small: "1300 \<le> isize_max" by (simp add: isize_max_def)
  obtain r w1 where res: "try_reserve TX h w = (r, w1)" by (cases "try_reserve TX h w")
  with task_lawsD(4) [OF laws, of h w] have "taken w1 = taken w" by simp
  with res small bytes_lawsD(3,4) [OF task_lawsD(1) [OF laws]] task_lawsD(5) [OF laws] show ?thesis
    by (cases r; cases "projl r") (auto simp: offer_chunk_def)
qed

text \<open>What the emulated sending does.\<close>

definition send_post :: "task \<Rightarrow> task \<Rightarrow> bool" where
  "send_post t t' \<longleftrightarrow> pipeline t' = pipeline t \<and>
     t_cwnd t' + total_len (elems (t_sent_dgrams t')) = t_cwnd t + total_len (elems (t_sent_dgrams t)) \<and>
     (\<exists>out. elems (t_write_dgrams t) = out @ elems (t_write_dgrams t') \<and>
        elems (t_sent_dgrams t') = elems (t_sent_dgrams t) @ out) \<and>
     (case elems (t_write_dgrams t') of [] \<Rightarrow> True | v # _ \<Rightarrow> t_cwnd t' < length v) \<and>
     t_waiting t' = t_waiting t \<and> t_ready_notifiers t' = t_ready_notifiers t \<and>
     t_flush_notifiers t' = t_flush_notifiers t"

lemma send_loop_post: "\<exists>t'. send_loop t = Inr t' \<and> send_post t t'"
proof (induction "length (elems (t_write_dgrams t))" arbitrary: t rule: less_induct)
  case less
  show ?case
  proof (cases "elems (t_write_dgrams t)")
    case Nil
    then show ?thesis
      by (simp add: send_loop.simps [of t] vecdeque_defs send_post_def)
  next
    case (Cons v vs)
    show ?thesis
    proof (cases "length v \<le> t_cwnd t")
      case False
      with Cons show ?thesis
        by (simp add: send_loop.simps [of t] vecdeque_defs send_post_def)
    next
      case True
      let ?t1 = "t\<lparr>t_write_dgrams := VecDeque vs, t_cwnd := t_cwnd t - length v,
        t_sent_dgrams := vd_push_back (t_sent_dgrams t) v\<rparr>"
      have step: "send_loop t = send_loop ?t1"
        using Cons True by (subst send_loop.simps) (simp add: vecdeque_defs)
      obtain t' where t': "send_loop ?t1 = Inr t'" and post: "send_post ?t1 t'"
        using less.hyps [of ?t1] Cons by auto
      from post Cons True have "send_post t t'"
        by (auto simp: send_post_def pipeline_def)
      with t' step show ?thesis by auto
    qed
  qed
qed

text \<open>Requests of a size that a buffer can have.\<close>

fun sized_event :: "select_event \<Rightarrow> bool" where
  "sized_event (Request_Arrived (Some (Req_Read len, _))) = (len \<le> isize_max)"
| "sized_event _ = True"

fun empty_read :: "select_event \<Rightarrow> bool" where
  "empty_read (Request_Arrived (Some (Req_Read len, _))) = (len = 0)"
| "empty_read _ = False"

definition on_select_post :: "('w \<Rightarrow> handle \<Rightarrow> bytes list) \<Rightarrow> select_event \<Rightarrow> task \<Rightarrow> 'w \<Rightarrow> bool \<Rightarrow> task \<Rightarrow> 'w \<Rightarrow> bool" where
  "on_select_post taken ev t w go t' w' \<longleftrightarrow> task_ok t' \<and> taken w' = taken w \<and>
     (if ev = Timer_Fired then take 1 (elems (t_sent_dgrams t)) else []) @ pipeline t' = pipeline t \<and>
     (go \<longleftrightarrow> ev \<noteq> Request_Arrived None) \<and>
     t_write_dgrams t' = t_write_dgrams t \<and> t_waiting t' = t_waiting t \<and>
     (\<exists>txs. t_ready_notifiers t' = t_ready_notifiers t @ txs) \<and>
     (\<exists>txs. t_flush_notifiers t' = t_flush_notifiers t @ txs)"

lemma on_select_total:
  assumes laws: "task_laws B OS RX TX taken" and ok: "task_ok t" and size: "sized_event ev"
  shows "if empty_read ev then on_select B OS ev t w = Inl Arith_Overflow
    else \<exists>go t' w'. on_select B OS ev t w = Inr (go, t', w') \<and> on_select_post taken ev t w go t' w'"
proof (cases "ev = Timer_Fired")
  case True
  have win: "t_cwnd t + length b < usize_limit" if "elems (t_sent_dgrams t) = b # bs" for b bs
  proof -
    have "t_cwnd t + length b \<le> 10000" using ok that by (auto simp: task_ok_def)
    then show ?thesis by (simp add: usize_limit_def)
  qed
  show ?thesis
  proof (cases "elems (t_sent_dgrams t)")
    case Nil
    then have "VecDeque [] = t_sent_dgrams t" by (metis vecdeque.collapse)
    with True Nil ok show ?thesis by (auto simp: vecdeque_defs on_select_post_def)
  next
    case (Cons b bs)
    with True win [OF Cons] ok show ?thesis
      by (auto simp: vecdeque_defs on_select_post_def task_ok_def pipeline_def)
  qed
next
  case False
  note B = bytes_lawsD(3,4,6) [OF task_lawsD(1) [OF laws]] and frame = task_lawsD(3) [OF laws]
  show ?thesis
  proof (cases "\<exists>len tx. ev = Request_Arrived (Some (Req_Read len, tx))")
    case True
    then obtain len tx where ev: "ev = Request_Arrived (Some (Req_Read len, tx))" by blast
    with size have "len \<le> isize_max" by simp
    with ev ok B frame show ?thesis
      by (cases len) (auto simp: on_select_post_def usize_sub_def)
  next
    case other: False
    obtain m where ev: "ev = Request_Arrived m" using False by (cases ev) auto
    show ?thesis
    proof (cases m)
      case None
      with ev ok show ?thesis by (auto simp: on_select_post_def)
    next
      case (Some rt)
      obtain rq tx where "rt = (rq, tx)" by (cases rt)
      with ev Some other ok frame show ?thesis
        by (cases rq) (auto simp: on_select_post_def task_ok_def pipeline_def)
    qed
  qed
qed

text \<open>A larger \<open>Read\<close> panics in the library or is answered like another one.\<close>

lemma on_select_any:
  assumes laws: "task_laws B OS RX TX taken" and ok: "task_ok t"
  shows "(\<exists>p. on_select B OS ev t w = Inl p) \<or>
    (\<exists>go t' w'. on_select B OS ev t w = Inr (go, t', w') \<and> on_select_post taken ev t w go t' w')"
proof (cases "sized_event ev")
  case True
  from on_select_total [OF laws ok True, of w] show ?thesis by (auto split: if_splits)
next
  case False
  then obtain len tx where "ev = Request_Arrived (Some (Req_Read len, tx))"
    by (cases ev rule: sized_event.cases) auto
  with ok task_lawsD(3) [OF laws] show ?thesis
    by (auto simp: on_select_post_def split: sum.splits)
qed

section \<open>One round\<close>

text \<open>A datagram at the head of the send queue.\<close>

definition at_head :: "bytes \<Rightarrow> task \<Rightarrow> bool" where
  "at_head v t \<longleftrightarrow> (\<exists>vs. elems (t_write_dgrams t) = v # vs)"

lemma promote_waiting_head: "at_head v t \<Longrightarrow> at_head v (promote_waiting t)"
  by (auto simp: at_head_def promote_waiting_def split: option.splits)

lemma recv_loop_head:
  "recv_loop OS RX h t w = (t', w') \<Longrightarrow> at_head v t \<Longrightarrow> at_head v t'"
proof (induction "MAX_SEND_DGRAMS - length (elems (t_write_dgrams t))" arbitrary: t w rule: less_induct)
  case less
  obtain r w1 where recv: "try_recv RX h w = (r, w1)" by (cases "try_recv RX h w")
  note unfold = recv_loop.simps [of OS RX h t w]
  show ?case
  proof (cases "(\<exists>b. r = Inr b) \<and> length (elems (t_write_dgrams t)) < MAX_SEND_DGRAMS")
    case False
    with less.prems recv unfold show ?thesis
      by (cases r) (auto simp: Let_def deque.count_items at_head_def)
  next
    case True
    then obtain b where r: "r = Inr b" by blast
    let ?t2 = "t\<lparr>t_ready_notifiers := [], t_write_dgrams := vd_push_back (t_write_dgrams t) b\<rparr>"
    have "recv_loop OS RX h ?t2 (notify_all OS Resp_WriteDgramReady (t_ready_notifiers t) w1) = (t', w')"
      using less.prems(1) recv unfold r True by (simp add: Let_def deque.count_items)
    moreover have "at_head v ?t2" using less.prems(2) by (auto simp: at_head_def)
    moreover have "MAX_SEND_DGRAMS - length (elems (t_write_dgrams ?t2)) <
        MAX_SEND_DGRAMS - length (elems (t_write_dgrams t))" using True by auto
    ultimately show ?thesis using less.hyps by blast
  qed
qed

lemma recv_phase_head:
  "recv_phase OS RX h t w = (t', w') \<Longrightarrow> at_head v t \<Longrightarrow> at_head v t'"
  by (auto simp: recv_phase_def recv_loop_head split: if_splits)

lemma send_loop_head:
  assumes "send_post t t'" and "task_ok t'" and "at_head v t" and "10000 < length v"
  shows "at_head v t'"
proof -
  from assms(1) obtain out where out: "elems (t_write_dgrams t) = out @ elems (t_write_dgrams t')"
    "elems (t_sent_dgrams t') = elems (t_sent_dgrams t) @ out"
    by (auto simp: send_post_def)
  have "out = []"
  proof (cases out)
    case (Cons u us)
    with out(1) assms(3) have "u = v" by (auto simp: at_head_def)
    with assms(2,4) out(2) Cons show ?thesis by (simp add: task_ok_def)
  qed
  with out(1) assms(3) show ?thesis by (simp add: at_head_def)
qed

definition iter_post :: "('w \<Rightarrow> handle \<Rightarrow> bytes list) \<Rightarrow> task_chans \<Rightarrow> select_event \<Rightarrow> task \<Rightarrow> 'w
    \<Rightarrow> bool \<Rightarrow> task \<Rightarrow> 'w \<Rightarrow> bool" where
  "iter_post taken ch ev t w go t' w' \<longleftrightarrow> task_ok t' \<and>
     (\<exists>new. taken w' (c_dgram_write ch) = taken w (c_dgram_write ch) @ new \<and>
        length new \<le> Suc MAX_SEND_DGRAMS \<and>
        (if ev = Timer_Fired then take 1 (elems (t_sent_dgrams t)) else []) @ pipeline t' =
          pipeline t @ new \<and>
        (new = [] \<longrightarrow> (\<exists>txs. t_ready_notifiers t' = t_ready_notifiers t @ txs))) \<and>
     (go \<longrightarrow> (case elems (t_write_dgrams t') of [] \<Rightarrow> True | v # _ \<Rightarrow> t_cwnd t' < length v)) \<and>
     (\<forall>v. at_head v t \<longrightarrow> 10000 < length v \<longrightarrow> at_head v t')"

text \<open>A round panics only in its select block; otherwise it does what it is meant to.\<close>

lemma task_iter_any:
  assumes laws: "task_laws B OS RX TX taken" and ok: "task_ok t"
  shows "case on_select B OS ev t w of
      Inl p \<Rightarrow> task_iter B OS RX TX ch ev t w = Inl p
    | Inr _ \<Rightarrow> \<exists>go t' w'. task_iter B OS RX TX ch ev t w = Inr (go, t', w') \<and> iter_post taken ch ev t w go t' w'"
proof (cases "on_select B OS ev t w")
  case (Inl p)
  then show ?thesis by (simp add: task_iter_def)
next
  case (Inr r)
  with on_select_any [OF laws ok, of ev w] obtain go t1 w1 where
    sel: "on_select B OS ev t w = Inr (go, t1, w1)" and sp: "on_select_post taken ev t w go t1 w1"
    by auto
  from sp have ok1: "task_ok t1" and w1: "taken w1 = taken w" and
    pipe1: "(if ev = Timer_Fired then take 1 (elems (t_sent_dgrams t)) else []) @ pipeline t1 = pipeline t"
    and rdy1: "\<exists>txs. t_ready_notifiers t1 = t_ready_notifiers t @ txs"
    and head1: "\<And>v. at_head v t \<Longrightarrow> at_head v t1"
    by (simp_all add: on_select_post_def at_head_def)
  show ?thesis
  proof (cases go)
    case stop: False
    with sel ok1 w1 pipe1 rdy1 head1 show ?thesis
      by (auto simp: task_iter_def iter_post_def)
  next
    case True
    let ?p = "promote_waiting t1"
    obtain t2 w2 where rp: "recv_phase OS RX (c_dgram_write ch) ?p w1 = (t2, w2)"
      by (cases "recv_phase OS RX (c_dgram_write ch) ?p w1")
    have okp: "task_ok ?p" using promote_waiting_facts(6) [OF ok1] .
    then have len: "length (elems (t_write_dgrams ?p)) \<le> MAX_SEND_DGRAMS" by (simp add: task_ok_def)
    note post = recv_phase_post [OF laws rp len]
    then obtain new where new: "taken w2 (c_dgram_write ch) = taken w (c_dgram_write ch) @ new"
      "pipeline t2 = pipeline t1 @ new" "length new \<le> Suc MAX_SEND_DGRAMS"
      "new = [] \<longrightarrow> t_ready_notifiers t2 = t_ready_notifiers t1"
      using w1 by (auto simp: promote_waiting_facts)
    have head2: "at_head v t2" if "at_head v t" for v
      using recv_phase_head [OF rp promote_waiting_head [OF head1 [OF that]]] .
    have ok2: "task_ok t2" using okp post(2-4) by (simp add: task_ok_def)
    obtain g3 w3 where o3: "offer_chunk B TX (c_stream_read ch) w2 = Inr (g3, w3)" "taken w3 = taken w2"
      using offer_chunk_facts [OF laws] by blast
    obtain g4 w4 where o4: "offer_chunk B TX (c_dgram_read ch) w3 = Inr (g4, w4)" "taken w4 = taken w3"
      using offer_chunk_facts [OF laws] by blast
    obtain t3 where t3: "send_loop t2 = Inr t3" and snd: "send_post t2 t3"
      using send_loop_post by blast
    have ok3: "task_ok t3"
      using ok2 snd by (auto simp: task_ok_def send_post_def)
    have head3: "at_head v t3" if "at_head v t" "10000 < length v" for v
      using send_loop_head [OF snd ok3 head2 [OF that(1)] that(2)] .
    obtain go' t' w' where it: "task_iter B OS RX TX ch ev t w = Inr (go', t', w')"
      and alt: "(go', t', w') = (True, t3, w4) \<or> (go', t', w') = (False, t2, w3) \<or>
        (go', t', w') = (False, t2, w4)"
      using that True sel rp o3(1) o4(1) t3 by (cases g3; cases g4) (auto simp: task_iter_def)
    have "iter_post taken ch ev t w False t2 v" if "v = w3 \<or> v = w4" for v
      using that ok2 new pipe1 rdy1 o3(2) o4(2) head2 by (auto simp: iter_post_def)
    moreover have "iter_post taken ch ev t w True t3 w4"
      using ok3 new pipe1 rdy1 o3(2) o4(2) snd head3 by (auto simp: iter_post_def send_post_def)
    ultimately have "iter_post taken ch ev t w go' t' w'" using alt by auto
    with it sel show ?thesis by auto
  qed
qed

lemma task_iter_post:
  assumes "task_laws B OS RX TX taken" and "task_ok t" and "task_iter B OS RX TX ch ev t w = Inr (go, t', w')"
  shows "iter_post taken ch ev t w go t' w'"
  using task_iter_any [OF assms(1,2), of ch ev w] assms(3) by (auto split: sum.splits)

lemma task_iter_total:
  assumes laws: "task_laws B OS RX TX taken" and ok: "task_ok t" and size: "sized_event ev"
  shows "if empty_read ev then task_iter B OS RX TX ch ev t w = Inl Arith_Overflow
    else \<exists>go t' w'. task_iter B OS RX TX ch ev t w = Inr (go, t', w') \<and> iter_post taken ch ev t w go t' w'"
  using task_iter_any [OF laws ok, of ch ev w] on_select_total [OF laws ok size, of w]
  by (auto split: sum.splits if_splits)

end
