(* ===== verification/Connection_Runs.thy ===== *)
theory Connection_Runs
  imports Connection_Correct
begin

text \<open>
  The connection task as a state machine: its states, a step relation with one rule for each
  way a round can end, the reachable states, and the properties of its runs.
\<close>

section \<open>States and steps\<close>

datatype conn_state =
    Running task
  | Stopped task
  | Crashed panic

text \<open>
  A round may start in any world, with any event: what the rest of the program did before it is not
  known.
\<close>

inductive conn_step :: "bytes_api \<Rightarrow> 'w resp_cell \<Rightarrow> ('w, bytes) receiver_api
    \<Rightarrow> ('w, bytes) sender_api \<Rightarrow> task_chans \<Rightarrow> conn_state \<Rightarrow> select_event \<Rightarrow> conn_state \<Rightarrow> bool"
  for B OS RX TX ch where
  go_on: "task_iter B OS RX TX ch ev t w = Inr (True, t', w') \<Longrightarrow>
     conn_step B OS RX TX ch (Running t) ev (Running t')"
| leave: "task_iter B OS RX TX ch ev t w = Inr (False, t', w') \<Longrightarrow>
     conn_step B OS RX TX ch (Running t) ev (Stopped t')"
| crash: "task_iter B OS RX TX ch ev t w = Inl p \<Longrightarrow>
     conn_step B OS RX TX ch (Running t) ev (Crashed p)"

inductive_cases conn_step_from: "conn_step B OS RX TX ch s ev s'"
inductive_cases conn_step_stopped: "conn_step B OS RX TX ch (Stopped t) ev s'"
inductive_cases conn_step_crashed: "conn_step B OS RX TX ch (Crashed p) ev s'"
inductive_simps conn_step_to_crash: "conn_step B OS RX TX ch (Running t) ev (Crashed p)"

inductive conn_reach :: "bytes_api \<Rightarrow> 'w resp_cell \<Rightarrow> ('w, bytes) receiver_api
    \<Rightarrow> ('w, bytes) sender_api \<Rightarrow> task_chans \<Rightarrow> conn_state \<Rightarrow> bool"
  for B OS RX TX ch where
  start: "conn_reach B OS RX TX ch (Running task_init)"
| step: "conn_reach B OS RX TX ch s \<Longrightarrow> conn_step B OS RX TX ch s ev s' \<Longrightarrow>
     conn_reach B OS RX TX ch s'"

fun conn_inv :: "conn_state \<Rightarrow> bool" where
  "conn_inv (Running t) = task_ok t"
| "conn_inv (Stopped t) = task_ok t"
| "conn_inv (Crashed p) = True"

lemma conn_step_inv:
  assumes laws: "task_laws B OS RX TX taken"
  shows "conn_step B OS RX TX ch s ev s' \<Longrightarrow> conn_inv s \<Longrightarrow> conn_inv s'"
  by (induction rule: conn_step.induct) (auto dest: task_iter_post [OF laws] simp: iter_post_def)

lemma conn_reach_inv:
  assumes "task_laws B OS RX TX taken" and "conn_reach B OS RX TX ch s"
  shows "conn_inv s"
  using assms(2) by (induction) (auto simp: task_ok_init intro: conn_step_inv [OF assms(1)])

definition sample_chans :: task_chans where
  "sample_chans = \<lparr>c_dgram_write = 9, c_stream_read = 3, c_dgram_read = 5\<rparr>"

text \<open>A round with one small datagram waiting on the application's channel.\<close>

definition sample_full_inbox :: runtime where
  "sample_full_inbox = (sample_world 1 1)\<lparr>inbox := (\<lambda>_. [[0]])(9 := [[1, 2, 3]])\<rparr>"

definition sample_task :: task where
  "sample_task = task_init\<lparr>t_sent_dgrams := VecDeque [[1, 2, 3]], t_cwnd := 9997\<rparr>"

lemma sample_iter:
  "task_iter sample_bytes sample_cells sample_inbox sample_outbox sample_chans Timer_Fired
     task_init sample_full_inbox =
   Inr (True, sample_task,
     sample_full_inbox\<lparr>inbox := (\<lambda>_. [[0]])(9 := []), inbox_log := (\<lambda>_. [])(9 := [[1, 2, 3]])\<rparr>)"
  by (simp add: task_iter_def task_init_def promote_waiting_def recv_phase_def recv_loop.simps
      notify_all.simps offer_chunk_def send_loop.simps sample_chans_def sample_full_inbox_def
      sample_task_def sample_defs vecdeque_defs MAX_SEND_DGRAMS_def usize_sub_def fun_eq_iff)

lemma sample_reach:
  "conn_reach sample_bytes sample_cells sample_inbox sample_outbox sample_chans (Running sample_task)"
  by (rule conn_reach.step [OF conn_reach.start conn_step.go_on [OF sample_iter]])

text \<open>
  C9: In every reachable state of the connection task at most two datagrams are queued for
  sending, and the congestion window accounts for every byte: the free window plus the bytes in
  flight is the initial 10000, so the window never overflows and never drops below zero.
\<close>

theorem connection_window_invariant:
  assumes "task_laws B OS RX TX taken" and "conn_reach B OS RX TX ch (Running t)"
  shows "length (elems (t_write_dgrams t)) \<le> 2 \<and>
    t_cwnd t + total_len (elems (t_sent_dgrams t)) = 10000"
  using conn_reach_inv [OF assms] by (simp add: task_ok_def MAX_SEND_DGRAMS_def)

theorem connection_window_invariant_witness:
  "t_cwnd sample_task + total_len (elems (t_sent_dgrams sample_task)) = 10000"
  using connection_window_invariant [OF sample_task_laws sample_reach] by blast

text \<open>
  \<open>BytesMut::with_capacity\<close> allocates like a \<open>Vec\<close>, which is documented to panic for a capacity of more
  than \<open>isize::MAX\<close> bytes.
\<close>

definition capacity_law :: "bytes_api \<Rightarrow> bool" where
  "capacity_law B \<longleftrightarrow> (\<forall>n > isize_max. \<exists>p. with_capacity B n = Inl p)"

text \<open>
  C16: From a reachable state the task panics exactly on two kinds of event: a \<open>Read\<close> request of length
  0, whose \<open>len - 1\<close> underflows, and one of more than \<open>isize::MAX\<close> bytes, for which no buffer can be
  allocated.  None of the other additions, subtractions and \<open>unwrap\<close>s can fail.  (Only other senders of
  the command channel can make such a request; the program's own clients send none.)
\<close>

theorem connection_panics_only_on_bad_read:
  assumes laws: "task_laws B OS RX TX taken" and cap: "capacity_law B"
    and reach: "conn_reach B OS RX TX ch (Running t)"
  shows "(\<exists>p. conn_step B OS RX TX ch (Running t) ev (Crashed p)) \<longleftrightarrow>
    (\<exists>len tx. ev = Request_Arrived (Some (Req_Read len, tx)) \<and> (len = 0 \<or> isize_max < len))"
proof (cases "sized_event ev")
  case False
  then obtain len tx where ev: "ev = Request_Arrived (Some (Req_Read len, tx))" and big: "isize_max < len"
    by (cases ev rule: sized_event.cases) auto
  with cap obtain p where "with_capacity B len = Inl p" by (auto simp: capacity_law_def)
  with ev have "task_iter B OS RX TX ch ev t undefined = Inl p" by (simp add: task_iter_def)
  with ev big show ?thesis by (auto simp: conn_step_to_crash)
next
  case size: True
  have ok: "task_ok t" using conn_reach_inv [OF laws reach] by simp
  have "(\<exists>p. conn_step B OS RX TX ch (Running t) ev (Crashed p)) \<longleftrightarrow> empty_read ev"
  proof (cases "empty_read ev")
    case True
    then have "task_iter B OS RX TX ch ev t undefined = Inl Arith_Overflow"
      using task_iter_total [OF laws ok size, of ch undefined] by simp
    with True show ?thesis by (auto simp: conn_step_to_crash)
  next
    case False
    then have "task_iter B OS RX TX ch ev t w \<noteq> Inl p" for w p
      using task_iter_total [OF laws ok size, of ch w] by auto
    with False show ?thesis by (simp add: conn_step_to_crash)
  qed
  also have "empty_read ev \<longleftrightarrow>
      (\<exists>len tx. ev = Request_Arrived (Some (Req_Read len, tx)) \<and> (len = 0 \<or> isize_max < len))"
    using size by (cases ev rule: empty_read.cases) auto
  finally show ?thesis .
qed

theorem connection_panics_only_on_bad_read_witness:
  "(\<exists>p. conn_step sample_bytes sample_cells sample_inbox sample_outbox sample_chans
      (Running sample_task) (Request_Arrived (Some (Req_Read 0, 8))) (Crashed p)) \<and>
   (\<exists>p. conn_step sample_bytes sample_cells sample_inbox sample_outbox sample_chans
      (Running sample_task) (Request_Arrived (Some (Req_Read (2 ^ 63), 8))) (Crashed p)) \<and>
   (\<nexists>p. conn_step sample_bytes sample_cells sample_inbox sample_outbox sample_chans
      (Running sample_task) Timer_Fired (Crashed p))"
proof -
  have "capacity_law sample_bytes" by (simp add: capacity_law_def sample_bytes_def)
  note iff = connection_panics_only_on_bad_read [OF sample_task_laws this sample_reach]
  show ?thesis unfolding iff by (simp add: isize_max_def)
qed

section \<open>Runs\<close>

definition run_ok :: "('w \<Rightarrow> handle \<Rightarrow> bytes list) \<Rightarrow> (select_event \<times> ('w \<Rightarrow> 'w)) list \<Rightarrow> bool" where
  "run_ok taken xs \<longleftrightarrow> (\<forall>x \<in> set xs. \<forall>w. taken (snd x w) = taken w)"

lemma task_run_pipeline:
  assumes laws: "task_laws B OS RX TX taken"
    and "run_ok taken xs" and "task_ok t" and "task_run B OS RX TX ch xs t w = Inr (go, t', w')"
  shows "\<exists>acked new. acked @ pipeline t' = pipeline t @ new \<and>
    taken w' (c_dgram_write ch) = taken w (c_dgram_write ch) @ new \<and> task_ok t' \<and>
    length acked \<le> length (filter (\<lambda>x. fst x = Timer_Fired) xs)"
  using assms(2-)
proof (induction xs arbitrary: t w)
  case Nil
  then show ?case by simp
next
  case (Cons x xs)
  obtain ev g where x: "x = (ev, g)" by (cases x)
  from Cons.prems(1) x have g: "taken (g w) = taken w"
    and rest: "run_ok taken xs" by (simp_all add: run_ok_def)
  from Cons.prems(3) x obtain go1 t1 w1 where
    it: "task_iter B OS RX TX ch ev t (g w) = Inr (go1, t1, w1)"
    by (cases "task_iter B OS RX TX ch ev t (g w)") auto
  note post = task_iter_post [OF laws Cons.prems(2) it]
  define a1 where "a1 = (if ev = Timer_Fired then take 1 (elems (t_sent_dgrams t)) else [])"
  have a1: "length a1 \<le> (if ev = Timer_Fired then 1 else 0)" by (simp add: a1_def)
  from post g obtain n1 where n1: "taken w1 (c_dgram_write ch) = taken w (c_dgram_write ch) @ n1"
    "a1 @ pipeline t1 = pipeline t @ n1" and ok1: "task_ok t1"
    by (auto simp: iter_post_def a1_def)
  show ?case
  proof (cases go1)
    case False
    with Cons.prems(3) x it have "t' = t1" "w' = w1" by simp_all
    with n1 ok1 a1 x show ?thesis by (intro exI [of _ a1] exI [of _ n1]) auto
  next
    case True
    with Cons.prems(3) x it have "task_run B OS RX TX ch xs t1 w1 = Inr (go, t', w')" by simp
    from Cons.IH [OF rest ok1 this] obtain acked new where
      "acked @ pipeline t' = pipeline t1 @ new"
      "taken w' (c_dgram_write ch) = taken w1 (c_dgram_write ch) @ new" "task_ok t'"
      "length acked \<le> length (filter (\<lambda>x. fst x = Timer_Fired) xs)" by blast
    with n1 a1 x show ?thesis
      by (intro exI [of _ "a1 @ acked"] exI [of _ "n1 @ new"]) auto
  qed
qed

text \<open>
  C10: Datagrams leave the connection in the order in which the application handed them over,
  and none is lost or duplicated: over any run, the datagrams acknowledged so far followed by
  those in flight, those queued and the one waiting are exactly the datagrams received from the
  application's channel, in order.  At most one is acknowledged per timer tick.
\<close>

theorem connection_datagrams_in_order:
  assumes "task_laws B OS RX TX taken" and "run_ok taken xs"
    and "task_run B OS RX TX ch xs task_init w = Inr (go, t', w')"
  shows "\<exists>acked new. new = acked @ elems (t_sent_dgrams t') @ elems (t_write_dgrams t') @
      (case t_waiting t' of None \<Rightarrow> [] | Some b \<Rightarrow> [b]) \<and>
    taken w' (c_dgram_write ch) = taken w (c_dgram_write ch) @ new \<and>
    length acked \<le> length (filter (\<lambda>x. fst x = Timer_Fired) xs)"
proof -
  have "pipeline task_init = []" by (simp add: pipeline_def task_init_def)
  with task_run_pipeline [OF assms(1,2) task_ok_init assms(3)] show ?thesis
    by (simp add: pipeline_def) metis
qed

theorem connection_datagrams_in_order_witness:
  "\<exists>acked. [[1, 2, 3]] = acked @ elems (t_sent_dgrams sample_task) @ elems (t_write_dgrams sample_task)"
proof -
  have run: "task_run sample_bytes sample_cells sample_inbox sample_outbox sample_chans
      [(Timer_Fired, id)] task_init sample_full_inbox =
    Inr (True, sample_task,
      sample_full_inbox\<lparr>inbox := (\<lambda>_. [[0]])(9 := []), inbox_log := (\<lambda>_. [])(9 := [[1, 2, 3]])\<rparr>)"
    by (simp add: sample_iter)
  have "run_ok inbox_log [(Timer_Fired, id)]" by (simp add: run_ok_def)
  from connection_datagrams_in_order [OF sample_task_laws this run] show ?thesis
    by (auto simp: sample_task_def sample_chans_def sample_full_inbox_def sample_defs task_init_def
        vd_new_def)
qed

text \<open>
  A \<open>WriteDgramReady\<close> request is answered only when another datagram arrives: as long as the
  task receives none from the application's channel, a ready notifier stays unanswered through
  any number of rounds, with room in the queue or not.  A writer that asks for room just after
  the task drained the channel, and sends nothing before it is told, waits for ever.
\<close>

theorem ready_request_waits_for_datagram:
  assumes laws: "task_laws B OS RX TX taken" and env: "run_ok taken xs" and ok: "task_ok t"
    and run: "task_run B OS RX TX ch xs t w = Inr (go, t', w')"
    and idle: "taken w' (c_dgram_write ch) = taken w (c_dgram_write ch)"
  shows "set (t_ready_notifiers t) \<subseteq> set (t_ready_notifiers t')"
  using env ok run idle
proof (induction xs arbitrary: t w)
  case Nil
  then show ?case by simp
next
  case (Cons x xs)
  obtain ev g where x: "x = (ev, g)" by (cases x)
  from Cons.prems(1) x have rest: "run_ok taken xs"
    and g: "taken (g w) = taken w" by (simp_all add: run_ok_def)
  from Cons.prems(3) x obtain go1 t1 w1 where
    it: "task_iter B OS RX TX ch ev t (g w) = Inr (go1, t1, w1)"
    by (cases "task_iter B OS RX TX ch ev t (g w)") auto
  note post = task_iter_post [OF laws Cons.prems(2) it]
  then have ok1: "task_ok t1" by (simp add: iter_post_def)
  have tail: "go1 \<Longrightarrow> task_run B OS RX TX ch xs t1 w1 = Inr (go, t', w')"
    and stop: "\<not> go1 \<Longrightarrow> t' = t1 \<and> w' = w1"
    using Cons.prems(3) x it by simp_all
  from post g obtain n1 where n1: "taken w1 (c_dgram_write ch) = taken w (c_dgram_write ch) @ n1"
    and kept: "n1 = [] \<longrightarrow> (\<exists>txs. t_ready_notifiers t1 = t_ready_notifiers t @ txs)"
    by (auto simp: iter_post_def)
  obtain n2 where n2: "taken w' (c_dgram_write ch) = taken w1 (c_dgram_write ch) @ n2"
    using tail stop task_run_pipeline [OF laws rest ok1] by (cases go1) fastforce+
  with n1 Cons.prems(4) have "n1 = []" and idle1: "taken w' (c_dgram_write ch) = taken w1 (c_dgram_write ch)"
    by simp_all
  with kept have "set (t_ready_notifiers t) \<subseteq> set (t_ready_notifiers t1)" by auto
  with Cons.IH [OF rest ok1 tail idle1] stop show ?case by (cases go1) auto
qed

text \<open>A ready request arrives while the application's channel is empty, and time passes.\<close>

definition starved_world :: runtime where
  "starved_world = (sample_world 1 1)\<lparr>inbox := (\<lambda>_. [[0]])(9 := [])\<rparr>"

lemma starved_run:
  "task_run sample_bytes sample_cells sample_inbox sample_outbox sample_chans
     [(Timer_Fired, id), (Timer_Fired, id)] (task_init\<lparr>t_ready_notifiers := [40]\<rparr>) starved_world =
   Inr (True, task_init\<lparr>t_ready_notifiers := [40]\<rparr>, starved_world)"
  by (simp add: task_iter_def task_init_def promote_waiting_def recv_phase_def recv_loop.simps
      offer_chunk_def send_loop.simps sample_chans_def starved_world_def
      sample_defs vecdeque_defs MAX_SEND_DGRAMS_def fun_eq_iff)

theorem ready_request_waits_for_datagram_witness:
  "{40} \<subseteq> set (t_ready_notifiers (task_init\<lparr>t_ready_notifiers := [40]\<rparr>))"
proof -
  have env: "run_ok inbox_log [(Timer_Fired, id), (Timer_Fired, id)]" by (simp add: run_ok_def)
  have ok: "task_ok (task_init\<lparr>t_ready_notifiers := [40]\<rparr>)"
    by (simp add: task_ok_def task_init_def)
  from ready_request_waits_for_datagram [OF sample_task_laws env ok starved_run refl]
  show ?thesis by simp
qed

text \<open>
  When the task does receive a datagram, it answers every ready notifier with
  \<open>WriteDgramReady\<close>, the last one first; and when it finds the channel empty, it answers every
  flush notifier with \<open>WriteDgramFlush\<close>.  The answers are the only effect of the round on the
  notifiers' cells.
\<close>

theorem notifiers_answered:
  "(case try_recv RX h w of
      (Inl _, w1) \<Rightarrow> recv_loop OS RX h t w =
        (t\<lparr>t_flush_notifiers := []\<rparr>,
         fold (\<lambda>tx v. snd (respond OS tx Resp_WriteDgramFlush v)) (rev (t_flush_notifiers t)) w1)
    | (Inr buf, w1) \<Rightarrow>
        (let w2 = fold (\<lambda>tx v. snd (respond OS tx Resp_WriteDgramReady v)) (rev (t_ready_notifiers t)) w1
         in recv_loop OS RX h t w =
           (if length (elems (t_write_dgrams t)) < 2
            then recv_loop OS RX h (t\<lparr>t_ready_notifiers := [],
              t_write_dgrams := VecDeque (elems (t_write_dgrams t) @ [buf])\<rparr>) w2
            else (t\<lparr>t_ready_notifiers := [], t_waiting := Some buf\<rparr>, w2))))"
  by (subst (1 2) recv_loop.simps)
    (simp add: notify_all_fold vecdeque_defs MAX_SEND_DGRAMS_def Let_def split: sum.splits prod.splits)

section \<open>Flushing and head-of-line blocking\<close>

text \<open>
  A flush is answered when the application's channel is empty, not when its datagrams have
  been sent: with a datagram at the head of the queue that the congestion window does not
  admit, a round answers every flush notifier and leaves the queue as it is.
\<close>

theorem flush_answered_before_sending:
  assumes queue: "elems (t_write_dgrams t) = v # vs" "t_cwnd t < length v"
    and idle: "t_waiting t = None" "try_recv RX (c_dgram_write ch) w = (Inl e, w1)"
    and offers: "\<And>h v. \<exists>v'. offer_chunk B TX h v = Inr (True, v')"
  shows "\<exists>w'. task_iter B OS RX TX ch (Request_Arrived (Some (Req_WriteDgramFlush, tx))) t w =
    Inr (True, t\<lparr>t_flush_notifiers := []\<rparr>, w')"
proof -
  let ?t1 = "t\<lparr>t_flush_notifiers := t_flush_notifiers t @ [tx]\<rparr>"
  have prom: "promote_waiting ?t1 = ?t1" using idle(1) by (simp add: promote_waiting_def)
  have recv: "\<exists>w2. recv_phase OS RX (c_dgram_write ch) ?t1 w = (t\<lparr>t_flush_notifiers := []\<rparr>, w2)"
    using idle by (subst recv_phase_def) (simp add: recv_loop.simps)
  have send: "send_loop (t\<lparr>t_flush_notifiers := []\<rparr>) = Inr (t\<lparr>t_flush_notifiers := []\<rparr>)"
    using queue by (subst send_loop.simps) (simp add: vecdeque_defs)
  from recv obtain w2 where w2: "recv_phase OS RX (c_dgram_write ch) ?t1 w = (t\<lparr>t_flush_notifiers := []\<rparr>, w2)"
    by blast
  obtain w3 where w3: "offer_chunk B TX (c_stream_read ch) w2 = Inr (True, w3)" using offers by blast
  obtain w4 where "offer_chunk B TX (c_dgram_read ch) w3 = Inr (True, w4)" using offers by blast
  with prom w2 w3 send show ?thesis by (simp add: task_iter_def)
qed

lemma sample_offers: "\<exists>v'. offer_chunk sample_bytes sample_outbox h v = Inr (True, v')"
  if "inbox_open v h"
  using that by (auto simp: offer_chunk_def sample_defs isize_max_def)

text \<open>A sender that is never closed.\<close>

definition open_outbox :: "(runtime, bytes) sender_api" where
  "open_outbox = sample_outbox\<lparr>try_reserve := \<lambda>h w. (Inl Send_Full, w)\<rparr>"

theorem flush_answered_before_sending_witness:
  "\<exists>w'. task_iter sample_bytes sample_cells sample_inbox open_outbox sample_chans
     (Request_Arrived (Some (Req_WriteDgramFlush, 40)))
     (task_init\<lparr>t_write_dgrams := VecDeque [[7, 7, 7]], t_cwnd := 2\<rparr>) starved_world =
   Inr (True, task_init\<lparr>t_write_dgrams := VecDeque [[7, 7, 7]], t_cwnd := 2, t_flush_notifiers := []\<rparr>, w')"
proof -
  have "\<exists>v'. offer_chunk sample_bytes open_outbox h v = Inr (True, v')" for h v
    by (simp add: offer_chunk_def open_outbox_def)
  from flush_answered_before_sending [where t = "task_init\<lparr>t_write_dgrams := VecDeque [[7, 7, 7]], t_cwnd := 2\<rparr>"
      and RX = sample_inbox and ch = sample_chans and w = starved_world
      and OS = sample_cells and tx = 40, OF _ _ _ _ this]
  show ?thesis
    by (simp add: task_init_def sample_chans_def starved_world_def sample_defs)
qed

text \<open>
  C31: A datagram longer than the initial window blocks the connection for ever: once it is at
  the head of the send queue it stays there through every run, and nothing behind it is sent.
\<close>

theorem oversize_datagram_blocks:
  assumes laws: "task_laws B OS RX TX taken" and env: "run_ok taken xs" and ok: "task_ok t"
    and head: "elems (t_write_dgrams t) = v # vs" and big: "10000 < length v"
    and run: "task_run B OS RX TX ch xs t w = Inr (go, t', w')"
  shows "\<exists>us. elems (t_write_dgrams t') = v # us"
  using env ok head run
proof (induction xs arbitrary: t w vs)
  case Nil
  then show ?case by simp
next
  case (Cons x xs)
  obtain ev g where x: "x = (ev, g)" by (cases x)
  from Cons.prems(1) x have rest: "run_ok taken xs"
    by (simp_all add: run_ok_def)
  from Cons.prems(4) x obtain go1 t1 w1 where
    it: "task_iter B OS RX TX ch ev t (g w) = Inr (go1, t1, w1)"
    by (cases "task_iter B OS RX TX ch ev t (g w)") auto
  note post = task_iter_post [OF laws Cons.prems(2) it]
  then have ok1: "task_ok t1" by (simp add: iter_post_def)
  from post big Cons.prems(3) obtain us where "elems (t_write_dgrams t1) = v # us"
    by (auto simp: iter_post_def at_head_def)
  with Cons.IH [OF rest ok1 this] Cons.prems(4) x it show ?case by (cases go1) auto
qed

text \<open>Such a datagram with another one behind it, and two ticks with nothing new from the application.\<close>

definition blocked_task :: task where
  "blocked_task = task_init\<lparr>t_write_dgrams := VecDeque [replicate 10001 0, [1]]\<rparr>"

lemma blocked_iter:
  "task_iter sample_bytes sample_cells sample_inbox sample_outbox sample_chans Timer_Fired blocked_task starved_world =
   Inr (True, blocked_task, starved_world)"
  by (simp add: task_iter_def task_init_def promote_waiting_def recv_phase_def recv_loop.simps notify_all.simps
      offer_chunk_def send_loop.simps sample_chans_def starved_world_def blocked_task_def
      sample_defs vecdeque_defs MAX_SEND_DGRAMS_def fun_eq_iff del: replicate.simps)

theorem oversize_datagram_blocks_witness:
  "\<exists>t' w' us. task_run sample_bytes sample_cells sample_inbox sample_outbox sample_chans
       [(Timer_Fired, id), (Timer_Fired, id)] blocked_task starved_world = Inr (True, t', w') \<and>
     elems (t_write_dgrams t') = replicate 10001 0 # us"
proof -
  have env: "run_ok inbox_log [(Timer_Fired, id), (Timer_Fired, id)]" by (simp add: run_ok_def)
  have ok: "task_ok blocked_task"
    by (simp add: blocked_task_def task_ok_def task_init_def MAX_SEND_DGRAMS_def)
  have head: "elems (t_write_dgrams blocked_task) = replicate 10001 0 # [[1]]" by (simp add: blocked_task_def)
  have run: "task_run sample_bytes sample_cells sample_inbox sample_outbox sample_chans
      [(Timer_Fired, id), (Timer_Fired, id)] blocked_task starved_world = Inr (True, blocked_task, starved_world)"
    by (simp add: blocked_iter)
  have big: "10000 < length (replicate 10001 (0 :: byte))" by simp
  from oversize_datagram_blocks [OF sample_task_laws env ok head big run] run show ?thesis by blast
qed

end
