(* ===== verification/Poll_Read_Client.thy ===== *)
theory Poll_Read_Client
  imports Recv_Stream Send_Stream Dgram_Write Dgram_Read
begin

text \<open>
  The rest of \<open>main\<close> of \<open>poll-read\<close> (lines 554 to 643): the script that uses the handles one after
  the other, each await driven by a schedule of its own.
\<close>

section \<open>The script\<close>

text \<open>\<open>poll_fn(|cx| ..poll_write(cx, b"1234")).await\<close>\<close>

definition client_write :: "bytes_api \<Rightarrow> 'w cmd_sender \<Rightarrow> 'w resp_cell \<Rightarrow> nat \<Rightarrow> (waker \<times> ('w \<Rightarrow> 'w)) list
    \<Rightarrow> send_stream \<Rightarrow> 'w \<Rightarrow> ((io_error + nat) poll \<times> send_stream \<times> 'w) run" where
  "client_write B PS OS key xs me w = drive (poll_write B PS OS key [49, 50, 51, 52]) xs me w"

text \<open>Awaiting a read: as \<open>drive\<close>, but a poll may not return, and the buffer is part of the state.\<close>

fun await_read :: "bytes_api \<Rightarrow> 'rb readbuf_api \<Rightarrow> ('w, bytes) receiver_api \<Rightarrow> (waker \<times> ('w \<Rightarrow> 'w)) list
    \<Rightarrow> recv_stream \<Rightarrow> 'rb \<Rightarrow> 'w \<Rightarrow> ((io_error + unit) poll \<times> recv_stream \<times> 'rb \<times> 'w) run option" where
  "await_read B R RX [] me buf w = Some (Inr (Pending, me, buf, w))"
| "await_read B R RX ((cx, g) # xs) me buf w =
     (case poll_read B R RX me cx buf (g w) of
        Some (Inr (Pending, me1, buf1, w1)) \<Rightarrow> await_read B R RX xs me1 buf1 w1
      | r \<Rightarrow> r)"

text \<open>\<open>ReadBuf::new\<close> on an array, its array, and \<open>advance\<close>.\<close>

record 'rb rb_maker =
  rb_new :: "bytes \<Rightarrow> 'rb"
  rb_array :: "'rb \<Rightarrow> bytes"
  rb_advance :: "'rb \<Rightarrow> nat \<Rightarrow> 'rb run"

text \<open>The two reads (lines 563 to 583), with the responses they printed.\<close>

definition client_reads :: "bytes_api \<Rightarrow> 'rb readbuf_api \<Rightarrow> 'rb rb_maker \<Rightarrow> ('w, bytes) receiver_api
    \<Rightarrow> (waker \<times> ('w \<Rightarrow> 'w)) list \<Rightarrow> (waker \<times> ('w \<Rightarrow> 'w)) list \<Rightarrow> recv_stream \<Rightarrow> 'w
    \<Rightarrow> ((io_error + unit) list \<times> recv_stream \<times> 'w) run option" where
  "client_reads B R RB RX xs ys me w =
     (case rb_advance RB (rb_new RB (replicate 2048 0)) 100 of
        Inl p \<Rightarrow> Some (Inl p)
      | Inr rbuf \<Rightarrow>
          (case await_read B R RX xs me rbuf w of
             None \<Rightarrow> None
           | Some (Inl p) \<Rightarrow> Some (Inl p)
           | Some (Inr (Pending, me1, rbuf1, w1)) \<Rightarrow> Some (Inr ([], me1, w1))
           | Some (Inr (Ready resp1, me1, rbuf1, w1)) \<Rightarrow>
               (case rb_advance RB (rb_new RB (rb_array RB rbuf1)) (2048 - 652) of
                  Inl p \<Rightarrow> Some (Inl p)
                | Inr rbuf2 \<Rightarrow>
                    (case await_read B R RX ys me1 rbuf2 w1 of
                       None \<Rightarrow> None
                     | Some (Inl p) \<Rightarrow> Some (Inl p)
                     | Some (Inr (Pending, me2, rbuf3, w2)) \<Rightarrow> Some (Inr ([resp1], me2, w2))
                     | Some (Inr (Ready resp2, me2, rbuf3, w2)) \<Rightarrow> Some (Inr ([resp1, resp2], me2, w2))))))"

text \<open>
  The three ways of reading a datagram (lines 585 to 602): \<open>poll_read_chunk\<close> with \<open>poll_fn\<close>,
  \<open>read_chunk\<close>, and \<open>next\<close> of \<open>StreamExt\<close>, which awaits \<open>poll_next\<close>.  The result is what each gave,
  as far as the script came.
\<close>

definition client_dgram_reads :: "('w, bytes) receiver_api \<Rightarrow> (waker \<times> ('w \<Rightarrow> 'w)) list \<Rightarrow> (waker \<times> ('w \<Rightarrow> 'w)) list
    \<Rightarrow> (waker \<times> ('w \<Rightarrow> 'w)) list \<Rightarrow> read_dgram \<Rightarrow> 'w
    \<Rightarrow> ((read_dgram_error + bytes) option list \<times> read_dgram \<times> 'w) run" where
  "client_dgram_reads RX xs ys zs me w =
     (case drive (\<lambda>me cx w. case poll_read_chunk RX me cx w of (r, w1) \<Rightarrow> Inr (r, me, w1)) xs me w of
        Inl p \<Rightarrow> Inl p
      | Inr (Pending, me1, w1) \<Rightarrow> Inr ([], me1, w1)
      | Inr (Ready resp1, me1, w1) \<Rightarrow>
          (case read_chunk RX ys me1 w1 of
             Inl p \<Rightarrow> Inl p
           | Inr (Pending, me2, w2) \<Rightarrow> Inr ([Some resp1], me2, w2)
           | Inr (Ready resp2, me2, w2) \<Rightarrow>
               (case drive (\<lambda>me cx w. case poll_next RX me cx w of (r, w1) \<Rightarrow> Inr (r, me, w1)) zs me2 w2 of
                  Inl p \<Rightarrow> Inl p
                | Inr (Pending, me3, w3) \<Rightarrow> Inr ([Some resp1, Some resp2], me3, w3)
                | Inr (Ready resp3, me3, w3) \<Rightarrow> Inr ([Some resp1, Some resp2, resp3], me3, w3))))"

text \<open>
  The datagrams written (lines 604 to 639): twice \<open>poll_write_chunk\<close>, then \<open>send\<close> of \<open>SinkExt\<close> (a
  combinator of \<open>futures\<close>, here the parameter \<open>sink_send\<close>), then a flush.
\<close>

definition client_dgram_writes :: "bytes_api \<Rightarrow> 'w cmd_sender \<Rightarrow> 'w resp_cell \<Rightarrow> 'w data_sender
    \<Rightarrow> (bytes \<Rightarrow> write_dgram \<Rightarrow> 'w \<Rightarrow> ((write_dgram_error + unit) poll \<times> write_dgram \<times> 'w) run) \<Rightarrow> nat
    \<Rightarrow> (waker \<times> ('w \<Rightarrow> 'w)) list \<Rightarrow> (waker \<times> ('w \<Rightarrow> 'w)) list \<Rightarrow> (waker \<times> ('w \<Rightarrow> 'w)) list
    \<Rightarrow> write_dgram \<Rightarrow> 'w \<Rightarrow> ((write_dgram_error + unit) list \<times> write_dgram \<times> 'w) run" where
  "client_dgram_writes B PS OS DS sink_send key xs ys zs me w =
     (case with_capacity B 1300 of
        Inl p \<Rightarrow> Inl p
      | Inr buf0 \<Rightarrow>
          (case resize B buf0 1300 0 of
             Inl p \<Rightarrow> Inl p
           | Inr buf1 \<Rightarrow>
               (let buf = freeze B buf1 in
                case drive (poll_write_chunk PS OS DS key buf) xs me w of
                  Inl p \<Rightarrow> Inl p
                | Inr (Pending, me1, w1) \<Rightarrow> Inr ([], me1, w1)
                | Inr (Ready resp1, me1, w1) \<Rightarrow>
                    (case drive (poll_write_chunk PS OS DS key buf) ys me1 w1 of
                       Inl p \<Rightarrow> Inl p
                     | Inr (Pending, me2, w2) \<Rightarrow> Inr ([resp1], me2, w2)
                     | Inr (Ready resp2, me2, w2) \<Rightarrow>
                         (case sink_send buf me2 w2 of
                            Inl p \<Rightarrow> Inl p
                          | Inr (Pending, me3, w3) \<Rightarrow> Inr ([resp1, resp2], me3, w3)
                          | Inr (Ready resp3, me3, w3) \<Rightarrow>
                              (case drive (wd_poll_flush PS OS key) zs me3 w3 of
                                 Inl p \<Rightarrow> Inl p
                               | Inr (Pending, me4, w4) \<Rightarrow> Inr ([resp1, resp2, resp3], me4, w4)
                               | Inr (Ready resp4, me4, w4) \<Rightarrow>
                                   Inr ([resp1, resp2, resp3, resp4], me4, w4)))))))"

section \<open>One read\<close>

text \<open>
  Besides the bytes it moves, a read keeps the size of the buffer, and what it stores is never more
  than a chunk of the channel or what was stored before.
\<close>

definition room_kept :: "'rb readbuf_api \<Rightarrow> ('rb \<Rightarrow> bytes) \<Rightarrow> nat \<Rightarrow> 'rb \<Rightarrow> recv_stream \<Rightarrow> 'rb \<Rightarrow> bool" where
  "room_kept R filled n buf me' buf' \<longleftrightarrow>
     length (filled buf') + remaining R buf' = length (filled buf) + remaining R buf
     \<and> length (stored me') \<le> n"

lemma poll_read_loop_room:
  assumes B: "bytes_laws B" and R: "readbuf_laws R filled"
    and chunks: "\<And>h cx w b w1. poll_recv RX h cx w = (Ready (Some b), w1) \<Longrightarrow> length b \<le> n"
    and ret: "poll_read_loop B R RX me cx buf w = Some res" and room: "0 < remaining R buf"
    and small: "length (stored me) \<le> n"
  shows "\<forall>r me' buf' w'. res = Inr (r, me', buf', w') \<longrightarrow> room_kept R filled n buf me' buf'"
proof -
  let ?P = "\<lambda>B' R' RX' me cx buf w res. B' = B \<longrightarrow> R' = R \<longrightarrow> RX' = RX \<longrightarrow> 0 < remaining R buf
    \<longrightarrow> length (stored me) \<le> n
    \<longrightarrow> (\<forall>r me' buf' w'. res = Inr (r, me', buf', w') \<longrightarrow> room_kept R filled n buf me' buf')"
  have "?P B R RX me cx buf w res"
  proof (rule poll_read_loop.raw_induct [where P = ?P, OF _ ret], intro impI)
    fix f B' R' RX' me cx buf w res
    assume IH: "\<And>B' R' RX' me cx buf w res. f B' R' RX' me cx buf w = Some res \<Longrightarrow> ?P B' R' RX' me cx buf w res"
      and eq: "Option.bind (copy_local B' R' me buf) (\<lambda>r. case r of
          Inl p \<Rightarrow> Some (Inl p)
        | Inr (full, me1, buf1) \<Rightarrow> if full then Some (Inr (Ready (Inr ()), me1, buf1, w))
          else (case poll_recv RX' (rs_receiver me1) cx w of
              (Pending, w1) \<Rightarrow> Some (Inr (Pending, me1, buf1, w1))
            | (Ready None, w1) \<Rightarrow>
                Some (Inr (Ready (Inl (Io_Error Other ''oneshot recv failed'')), me1, buf1, w1))
            | (Ready (Some bytes), w1) \<Rightarrow>
                f B' R' RX' (me1\<lparr>rs_local_storage := Some bytes\<rparr>) cx buf1 w1)) = Some res"
      and same: "B' = B" "R' = R" "RX' = RX" and room: "0 < remaining R buf"
      and small: "length (stored me) \<le> n"
    obtain buf1 me1 where
      cl: "copy_local B R me buf = Some (Inr (remaining R buf \<le> length (stored me), me1, buf1))"
      and keep: "filled buf1 @ stored me1 = filled buf @ stored me"
      and rem: "remaining R buf1 = remaining R buf - length (stored me)"
      and loc: "rs_local_storage me1 = (if remaining R buf < length (stored me)
        then Some (drop (remaining R buf) (stored me)) else None)"
      by (rule copy_local_closed [OF B R room])
    have st1: "length (stored me1) = length (stored me) - remaining R buf"
      using loc by (simp add: stored_def split: option.splits)
    have "length (filled buf1) + length (stored me1) = length (filled buf) + length (stored me)"
      using arg_cong [OF keep, of length] by simp
    with st1 rem have size: "length (filled buf1) + remaining R buf1 = length (filled buf) + remaining R buf"
      by linarith
    then have now: "room_kept R filled n buf me1 buf1" using st1 small by (simp add: room_kept_def)
    show "\<forall>r me' buf' w'. res = Inr (r, me', buf', w') \<longrightarrow> room_kept R filled n buf me' buf'"
    proof (cases "remaining R buf \<le> length (stored me)")
      case True
      then show ?thesis using eq cl same now by auto
    next
      case False
      obtain q w1 where recv: "poll_recv RX (rs_receiver me1) cx w = (q, w1)"
        by (cases "poll_recv RX (rs_receiver me1) cx w")
      show ?thesis
      proof (cases "\<exists>b. q = Ready (Some b)")
        case True
        then obtain b where q: "q = Ready (Some b)" by blast
        have "f B R RX (me1\<lparr>rs_local_storage := Some b\<rparr>) cx buf1 w1 = Some res"
          using eq cl same False recv q by simp
        moreover have "0 < remaining R buf1" using rem False by simp
        moreover have "length b \<le> n" using chunks recv q by blast
        ultimately have "\<forall>r me' buf' w'. res = Inr (r, me', buf', w') \<longrightarrow> room_kept R filled n buf1 me' buf'"
          using IH [of B R RX "me1\<lparr>rs_local_storage := Some b\<rparr>" cx buf1 w1 res] by simp
        then show ?thesis using size by (simp add: room_kept_def)
      next
        case other: False
        then show ?thesis
          using eq cl same False recv now by (auto split: poll.splits option.splits)
      qed
    qed
  qed
  with room small show ?thesis by simp
qed

lemma poll_read_room:
  assumes "bytes_laws B" and "readbuf_laws R filled"
    and "\<And>h cx w b w1. poll_recv RX h cx w = (Ready (Some b), w1) \<Longrightarrow> length b \<le> n"
    and "poll_read B R RX me cx buf w = Some (Inr (r, me', buf', w'))" and "length (stored me) \<le> n"
  shows "room_kept R filled n buf me' buf'"
proof (cases "remaining R buf = 0")
  case True
  with assms(4,5) show ?thesis by (auto simp: poll_read_def room_kept_def)
next
  case False
  then have "poll_read_loop B R RX me cx buf w = Some (Inr (r, me', buf', w'))"
    using assms(4) by (simp add: poll_read_def)
  from poll_read_loop_room [OF assms(1-3) this] False assms(5) show ?thesis by simp
qed

section \<open>The two reads of the script\<close>

text \<open>Everything that is taken from a channel is a chunk of \<open>n\<close> bytes.\<close>

definition only_chunks :: "('w \<Rightarrow> handle \<Rightarrow> bytes list) \<Rightarrow> nat \<Rightarrow> bool" where
  "only_chunks taken n \<longleftrightarrow> (\<forall>w h. \<forall>b \<in> set (taken w h). length b = n)"

lemma only_chunks_recv:
  assumes "receiver_laws RX taken" and "only_chunks taken n" and "poll_recv RX h cx w = (Ready (Some b), w1)"
  shows "length b = n"
proof -
  have "taken w1 h = taken w h @ [b]" using receiver_lawsD [OF assms(1,3)] by simp
  then have "b \<in> set (taken w1 h)" by simp
  with assms(2) show ?thesis unfolding only_chunks_def by blast
qed

lemma length_concat_chunks: "\<forall>b \<in> set bs. length b = n \<Longrightarrow> length (concat bs) = n * length bs"
  by (induction bs) auto

text \<open>What a read, or a whole await of one, does: the room, the chunks taken and where their bytes are.\<close>

definition read_moved :: "'rb readbuf_api \<Rightarrow> ('rb \<Rightarrow> bytes) \<Rightarrow> ('w \<Rightarrow> handle \<Rightarrow> bytes list) \<Rightarrow> nat
    \<Rightarrow> recv_stream \<Rightarrow> 'rb \<Rightarrow> 'w \<Rightarrow> recv_stream \<Rightarrow> 'rb \<Rightarrow> 'w \<Rightarrow> bool" where
  "read_moved R filled taken n me buf w me' buf' w' \<longleftrightarrow>
     room_kept R filled n buf me' buf' \<and> rs_receiver me' = rs_receiver me \<and>
     (\<exists>new. taken w' (rs_receiver me) = taken w (rs_receiver me) @ new \<and>
        filled buf' @ stored me' = filled buf @ stored me @ concat new)"

lemma read_moved_trans:
  assumes "read_moved R filled taken n me buf w me1 buf1 w1" and "read_moved R filled taken n me1 buf1 w1 me' buf' w'"
  shows "read_moved R filled taken n me buf w me' buf' w'"
proof -
  from assms obtain new1 new2 where
    "taken w1 (rs_receiver me) = taken w (rs_receiver me) @ new1"
    "filled buf1 @ stored me1 = filled buf @ stored me @ concat new1"
    "taken w' (rs_receiver me) = taken w1 (rs_receiver me) @ new2"
    "filled buf' @ stored me' = (filled buf1 @ stored me1) @ concat new2"
    by (auto simp: read_moved_def)
  then have "taken w' (rs_receiver me) = taken w (rs_receiver me) @ (new1 @ new2) \<and>
      filled buf' @ stored me' = filled buf @ stored me @ concat (new1 @ new2)" by simp
  then have "\<exists>new. taken w' (rs_receiver me) = taken w (rs_receiver me) @ new \<and>
      filled buf' @ stored me' = filled buf @ stored me @ concat new" by (rule exI)
  with assms show ?thesis by (simp add: read_moved_def room_kept_def)
qed

lemma poll_read_moved:
  assumes B: "bytes_laws B" and R: "readbuf_laws R filled" and RX: "receiver_laws RX taken"
    and only: "only_chunks taken n"
    and ret: "poll_read B R RX me cx buf w = Some (Inr (r, me', buf', w'))" and small: "length (stored me) \<le> n"
  shows "read_moved R filled taken n me buf w me' buf' w' \<and> (r = Ready (Inr ()) \<longrightarrow> remaining R buf' = 0)"
proof -
  have room: "room_kept R filled n buf me' buf'"
    by (rule poll_read_room [OF B R _ ret small]) (simp add: only_chunks_recv [OF RX only])
  show ?thesis
  proof (cases "remaining R buf = 0")
    case True
    with ret room show ?thesis by (auto simp: poll_read_def read_moved_def intro: exI [of _ "[]"])
  next
    case False
    from poll_read_post [OF B R RX ret] False
    have "read_post R filled taken me buf w r me' buf' w'" by auto
    with room show ?thesis by (auto simp: read_post_def read_moved_def)
  qed
qed

lemma await_read_moved:
  assumes "bytes_laws B" and "readbuf_laws R filled" and "receiver_laws RX taken" and "only_chunks taken n"
  shows "await_read B R RX xs me buf w = Some (Inr (r, me', buf', w')) \<Longrightarrow> length (stored me) \<le> n
    \<Longrightarrow> (\<forall>x \<in> set xs. \<forall>v. taken (snd x v) (rs_receiver me) = taken v (rs_receiver me))
    \<Longrightarrow> read_moved R filled taken n me buf w me' buf' w' \<and> (r = Ready (Inr ()) \<longrightarrow> remaining R buf' = 0)"
proof (induction xs arbitrary: me buf w)
  case Nil
  then show ?case by (auto simp: read_moved_def room_kept_def intro: exI [of _ "[]"])
next
  case (Cons x xs)
  obtain cx g where x: "x = (cx, g)" by (cases x)
  have g: "taken (g w) (rs_receiver me) = taken w (rs_receiver me)" using Cons.prems(3) x by simp
  show ?case
  proof (cases "\<exists>me1 buf1 w1. poll_read B R RX me cx buf (g w) = Some (Inr (Pending, me1, buf1, w1))")
    case True
    then obtain me1 buf1 w1 where p: "poll_read B R RX me cx buf (g w) = Some (Inr (Pending, me1, buf1, w1))" by blast
    have one: "read_moved R filled taken n me buf w me1 buf1 w1"
      using poll_read_moved [OF assms p Cons.prems(2)] g by (simp add: read_moved_def)
    then have kept: "rs_receiver me1 = rs_receiver me" "length (stored me1) \<le> n"
      by (simp_all add: read_moved_def room_kept_def)
    have "await_read B R RX xs me1 buf1 w1 = Some (Inr (r, me', buf', w'))" using Cons.prems(1) x p by simp
    from Cons.IH [OF this kept(2)] Cons.prems(3) kept(1) one show ?thesis
      using read_moved_trans [OF one] by simp
  next
    case False
    then have "poll_read B R RX me cx buf (g w) = Some (Inr (r, me', buf', w'))"
      using Cons.prems(1) x by (auto split: option.splits sum.splits prod.splits poll.splits)
    from poll_read_moved [OF assms this Cons.prems(2)] g show ?thesis by (simp add: read_moved_def)
  qed
qed

text \<open>\<open>ReadBuf\<close>: the filled bytes and the remaining room make up its array.\<close>

definition rb_maker_laws :: "'rb readbuf_api \<Rightarrow> ('rb \<Rightarrow> bytes) \<Rightarrow> 'rb rb_maker \<Rightarrow> bool" where
  "rb_maker_laws R filled RB \<longleftrightarrow>
     (\<forall>arr n. n \<le> length arr \<longrightarrow> (\<exists>rb. rb_advance RB (rb_new RB arr) n = Inr rb
        \<and> length (filled rb) = n \<and> remaining R rb = length arr - n))
     \<and> (\<forall>rb. length (rb_array RB rb) = length (filled rb) + remaining R rb)"

section \<open>Property\<close>

text \<open>
  C19: The arithmetic of the script's two reads, on a channel that delivers chunks of 1300 bytes to this
  stream only.  The first read has 1948 bytes of room (the buffer of 2048 is advanced by 100); when it
  succeeds, it has taken exactly two chunks from the channel, the buffer holds the first chunk and 648
  bytes of the second behind the 100 bytes it started with, and the other 652 bytes stay in the stream.
  The second read, of just these 652 bytes, then succeeds at its first poll, without touching the
  channel, and empties the stream.
\<close>

theorem two_reads_two_chunks:
  assumes B: "bytes_laws B" and R: "readbuf_laws R filled" and RX: "receiver_laws RX taken"
    and RB: "rb_maker_laws R filled RB" and only: "only_chunks taken 1300"
    and env: "\<forall>x \<in> set xs. \<forall>v. taken (snd x v) (rs_receiver me) = taken v (rs_receiver me)"
    and start: "rs_local_storage me = None"
    and run: "client_reads B R RB RX xs ((cx, g) # ys) me w = Some (Inr (Inr () # resps, me2, w2))"
  shows "resps = [Inr ()] \<and> rs_local_storage me2 = None
    \<and> (\<exists>rbuf me1 rbuf1 w1 chunk1 chunk2.
        rb_advance RB (rb_new RB (replicate 2048 0)) 100 = Inr rbuf \<and> remaining R rbuf = 1948
        \<and> await_read B R RX xs me rbuf w = Some (Inr (Ready (Inr ()), me1, rbuf1, w1))
        \<and> taken w1 (rs_receiver me) = taken w (rs_receiver me) @ [chunk1, chunk2]
        \<and> filled rbuf1 = filled rbuf @ chunk1 @ take 648 chunk2
        \<and> stored me1 = drop 648 chunk2 \<and> length (stored me1) = 652 \<and> w2 = g w1)"
proof -
  obtain rbuf where rbuf: "rb_advance RB (rb_new RB (replicate 2048 0)) 100 = Inr rbuf"
    "length (filled rbuf) = 100" "remaining R rbuf = 1948"
    using RB [unfolded rb_maker_laws_def, THEN conjunct1, rule_format, of 100 "replicate 2048 0"] by auto
  have st: "stored me = []" using start by simp
  obtain me1 rbuf1 w1 where first: "await_read B R RX xs me rbuf w = Some (Inr (Ready (Inr ()), me1, rbuf1, w1))"
    using run rbuf(1)
    by (auto simp: client_reads_def split: option.splits sum.splits prod.splits poll.splits)
  from await_read_moved [OF B R RX only first _ env] st obtain new where
    kept: "room_kept R filled 1300 rbuf me1 rbuf1" and full: "remaining R rbuf1 = 0"
    and new: "taken w1 (rs_receiver me) = taken w (rs_receiver me) @ new"
      "filled rbuf1 @ stored me1 = filled rbuf @ concat new"
    by (auto simp: read_moved_def)
  have f1: "length (filled rbuf1) = 2048" "length (stored me1) \<le> 1300"
    using kept full rbuf(2,3) by (simp_all add: room_kept_def)
  have sizes: "\<forall>b \<in> set new. length b = 1300" using only new(1) unfolding only_chunks_def
    by (metis Un_iff set_append)
  have "length (filled rbuf1) + length (stored me1) = 100 + 1300 * length new"
    using arg_cong [OF new(2), of length] rbuf(2) length_concat_chunks [OF sizes] by simp
  with f1 have "length new = 2" by presburger
  then obtain c1 c2 where cs: "new = [c1, c2]" by (cases new; cases "tl new") auto
  have len: "length c1 = 1300" "length c2 = 1300" using sizes cs by simp_all
  have eq: "filled rbuf1 @ stored me1 = filled rbuf @ c1 @ c2" using new(2) cs by simp
  from arg_cong [OF eq, of "take 2048"] arg_cong [OF eq, of "drop 2048"]
  have parts: "filled rbuf1 = filled rbuf @ c1 @ take 648 c2" "stored me1 = drop 648 c2"
    using f1(1) rbuf(2) len by simp_all
  then have left: "length (stored me1) = 652" using len by simp
  have "length (rb_array RB rbuf1) = 2048"
    using RB f1(1) full by (simp add: rb_maker_laws_def)
  then obtain rbuf2 where rbuf2: "rb_advance RB (rb_new RB (rb_array RB rbuf1)) 1396 = Inr rbuf2"
    "remaining R rbuf2 = 652"
    using RB [unfolded rb_maker_laws_def, THEN conjunct1, rule_format, of 1396 "rb_array RB rbuf1"] by auto
  obtain buf3 where second: "poll_read B R RX me1 cx rbuf2 (g w1)
      = Some (Inr (Ready (Inr ()), me1\<lparr>rs_local_storage := None\<rparr>, buf3, g w1))"
    using poll_read_from_storage [OF B R, of rbuf2 me1 RX cx "g w1"] rbuf2(2) left by auto
  have "resps = [Inr ()] \<and> me2 = me1\<lparr>rs_local_storage := None\<rparr> \<and> w2 = g w1"
    using run rbuf(1) first rbuf2(1) second by (simp add: client_reads_def)
  with rbuf(1,3) first new(1) cs parts left show ?thesis
    by (intro conjI exI [of _ rbuf] exI [of _ me1] exI [of _ rbuf1] exI [of _ w1] exI [of _ c1] exI [of _ c2])
      simp_all
qed

text \<open>A channel of chunks of 1300 bytes: how many are there, and how many were taken.\<close>

definition chunk_bytes :: bytes where
  "chunk_bytes = replicate 1300 0"

definition chunk_channel :: "(nat \<times> (handle \<Rightarrow> nat), bytes) receiver_api" where
  "chunk_channel = \<lparr>poll_recv = (\<lambda>h cx w. if fst w = 0 then (Pending, w)
       else (Ready (Some chunk_bytes), (fst w - 1, (snd w)(h := snd w h + 1)))),
     try_recv = (\<lambda>h w. if fst w = 0 then (Inl Recv_Empty, w)
       else (Inr chunk_bytes, (fst w - 1, (snd w)(h := snd w h + 1))))\<rparr>"

definition chunk_taken :: "nat \<times> (handle \<Rightarrow> nat) \<Rightarrow> handle \<Rightarrow> bytes list" where
  "chunk_taken w h = replicate (snd w h) chunk_bytes"

definition sample_maker :: "sample_buf rb_maker" where
  "sample_maker = \<lparr>rb_new = (\<lambda>arr. \<lparr>space = length arr, content = []\<rparr>),
     rb_array = (\<lambda>rb. content rb @ replicate (space rb - length (content rb)) 0),
     rb_advance = (\<lambda>rb n. Inr \<lparr>space = space rb, content = content rb @ replicate n 0\<rparr>)\<rparr>"

definition sample_reader0 :: recv_stream where
  "sample_reader0 = sample_recv\<lparr>rs_local_storage := None\<rparr>"

lemma chunk_channel_laws: "receiver_laws chunk_channel chunk_taken" "only_chunks chunk_taken 1300"
proof -
  have c: "chunk_taken (n, f(h := f h + 1)) = (chunk_taken w)(h := chunk_taken w h @ [chunk_bytes])"
    if "f = snd w" for n f w h
    using that by (auto simp: chunk_taken_def fun_eq_iff replicate_append_same)
  then show "receiver_laws chunk_channel chunk_taken"
    by (auto simp: receiver_laws_def chunk_channel_def split: if_splits)
  show "only_chunks chunk_taken 1300" by (simp add: only_chunks_def chunk_taken_def chunk_bytes_def)
qed

lemma sample_maker_laws: "rb_maker_laws sample_readbuf content sample_maker"
  by (auto simp: rb_maker_laws_def sample_maker_def sample_readbuf_def)

lemma sample_first_read:
  "poll_read sample_bytes sample_readbuf chunk_channel sample_reader0 5
    \<lparr>space = 2048, content = replicate 100 0\<rparr> (2, \<lambda>_. 0)
   = Some (Inr (Ready (Inr ()), sample_reader0\<lparr>rs_local_storage := Some (replicate 652 0)\<rparr>,
       \<lparr>space = 2048, content = replicate 2048 0\<rparr>, (0, (\<lambda>_. 0)(3 := Suc (Suc 0)))))"
  by (simp add: poll_read_def poll_read_loop.simps copy_local.simps sample_reader0_def sample_recv_def
      chunk_channel_def chunk_bytes_def sample_bytes_def sample_readbuf_def Let_def replicate_add [symmetric])

lemma sample_second_read:
  "poll_read sample_bytes sample_readbuf chunk_channel (sample_reader0\<lparr>rs_local_storage := Some (replicate 652 0)\<rparr>) 5
    \<lparr>space = 2048, content = replicate 1396 0\<rparr> w
   = Some (Inr (Ready (Inr ()), sample_reader0\<lparr>rs_local_storage := None\<rparr>,
       \<lparr>space = 2048, content = replicate 2048 0\<rparr>, w))"
  by (simp add: poll_read_def poll_read_loop.simps copy_local.simps sample_reader0_def sample_recv_def
      sample_bytes_def sample_readbuf_def Let_def replicate_add [symmetric])

theorem two_reads_two_chunks_witness:
  "\<exists>me2 w2. client_reads sample_bytes sample_readbuf sample_maker chunk_channel [(5, \<lambda>w. w)] [(5, \<lambda>w. w)]
      sample_reader0 (2, \<lambda>_. 0) = Some (Inr ([Inr (), Inr ()], me2, w2)) \<and> rs_local_storage me2 = None \<and>
    (\<exists>chunk1 chunk2. chunk_taken w2 3 = [chunk1, chunk2])"
proof -
  have run: "client_reads sample_bytes sample_readbuf sample_maker chunk_channel [(5, \<lambda>w. w)] [(5, \<lambda>w. w)]
      sample_reader0 (2, \<lambda>_. 0)
    = Some (Inr (Inr () # [Inr ()], sample_reader0\<lparr>rs_local_storage := None\<rparr>, (0, (\<lambda>_. 0)(3 := Suc (Suc 0)))))"
    by (simp add: client_reads_def sample_maker_def sample_first_read sample_second_read)
  have start: "rs_local_storage sample_reader0 = None" and h: "rs_receiver sample_reader0 = 3"
    by (simp_all add: sample_reader0_def sample_recv_def)
  have env: "\<forall>x \<in> set [(5, \<lambda>w. w)]. \<forall>v. chunk_taken (snd x v) (rs_receiver sample_reader0) =
      chunk_taken v (rs_receiver sample_reader0)" by simp
  from two_reads_two_chunks [OF sample_bytes_laws sample_readbuf_laws chunk_channel_laws(1)
      sample_maker_laws chunk_channel_laws(2) env start run]
  obtain w1 c1 c2 where "chunk_taken w1 (rs_receiver sample_reader0) =
      chunk_taken (2, \<lambda>_. 0) (rs_receiver sample_reader0) @ [c1, c2]"
    and "(0, (\<lambda>_. 0)(3 := Suc (Suc 0))) = w1" by (elim conjE exE) blast
  then have "chunk_taken (0, (\<lambda>_. 0)(3 := Suc (Suc 0))) 3 = chunk_taken (2, \<lambda>_. 0) 3 @ [c1, c2]"
    unfolding h by simp
  then have "\<exists>chunk1 chunk2. chunk_taken (0, (\<lambda>_. 0)(3 := Suc (Suc 0))) 3 = [chunk1, chunk2]"
    by (simp add: chunk_taken_def)
  with run show ?thesis by simp
qed

end
