(* ===== verification/Poll_Read_System.thy ===== *)
theory Poll_Read_System
  imports Connection_Runs Send_Stream Recv_Stream Dgram_Write Dgram_Read
begin

text \<open>
  The whole of \<open>poll-read\<close> as one program: the connection task and the script of \<open>main\<close> run side by
  side on one world.  The atomic moves are one poll of the future that \<open>main\<close> awaits and one round
  of the task; any interleaving of them is a run.  The channels and the one-shot cells are the
  libraries', so they are parameters here as everywhere.
\<close>

section \<open>The libraries and the ends of the channels\<close>

text \<open>
  \<open>l_drop_receiver\<close> drops the receiving half of a channel of \<open>Bytes\<close>, \<open>l_drop_sender\<close> a
  \<open>PollSender\<close>, \<open>l_drop_task\<close> everything that was moved into the task.
\<close>

record ('w, 'rb) libs =
  l_bytes :: bytes_api
  l_buf :: "'rb readbuf_api"
  l_cmd :: "'w cmd_sender"
  l_cells :: "'w resp_cell"
  l_data :: "'w data_sender"
  l_requests :: "('w, request \<times> handle) receiver_api"
  l_rx :: "('w, bytes) receiver_api"
  l_tx :: "('w, bytes) sender_api"
  l_drop_sender :: "handle \<Rightarrow> 'w \<Rightarrow> 'w"
  l_drop_receiver :: "handle \<Rightarrow> 'w \<Rightarrow> 'w"
  l_drop_task :: "'w \<Rightarrow> 'w"

section \<open>The script\<close>

text \<open>The objects of \<open>main\<close>.\<close>

record client =
  cl_send :: send_stream
  cl_recv :: recv_stream
  cl_rdgram :: read_dgram
  cl_wdgram :: write_dgram

definition main_client :: "handle \<Rightarrow> handle \<Rightarrow> handle \<Rightarrow> handle \<Rightarrow> handle \<Rightarrow> handle \<Rightarrow> handle \<Rightarrow> client" where
  "main_client sender1 sender2 stream_read_receiver sender3 dgram_read_receiver sender4 dgram_write_sender =
     \<lparr>cl_send = \<lparr>ss_sender = sender1, ss_stream_id = 0, ss_cmd_pending = Map.empty\<rparr>,
      cl_recv = \<lparr>rs_receiver = stream_read_receiver, rs_local_storage = None, rs_sender = sender2,
        rs_stream_id = 0, rs_cmd_pending = Map.empty\<rparr>,
      cl_rdgram = \<lparr>rd_req_sender = sender3, rd_read_receiver = dgram_read_receiver\<rparr>,
      cl_wdgram = \<lparr>wd_cmd_sender = sender4, wd_cmd_pending = Map.empty,
        wd_write_sender = dgram_write_sender\<rparr>\<rparr>"

text \<open>
  What \<open>main\<close> can await.  A number is the address of \<open>cx\<close> during the polls of this await, the key
  of the table of pending commands.  \<open>Do_Feed\<close> is the first half of \<open>SinkExt::send\<close>, which is
  documented to wait for \<open>poll_ready\<close>, to call \<open>start_send\<close> and then to flush.
\<close>

datatype 'rb client_op =
    Do_Write nat bytes
  | Do_Read 'rb
  | Do_Read_Chunk
  | Do_Next
  | Do_Write_Chunk nat bytes
  | Do_Feed nat bytes
  | Do_Flush nat

datatype op_result =
    Wrote "io_error + nat"
  | Read_Done "io_error + unit"
  | Got "(read_dgram_error + bytes) option"
  | Sent "write_dgram_error + unit"
  | Flushed "write_dgram_error + unit"

text \<open>
  One poll of the awaited future: the result, the operation (a read keeps the buffer it has
  filled so far), the objects and the world.  \<open>None\<close>: the poll does not return.
\<close>

fun client_poll :: "('w, 'rb) libs \<Rightarrow> waker \<Rightarrow> 'rb client_op \<Rightarrow> client \<Rightarrow> 'w
    \<Rightarrow> (op_result poll \<times> 'rb client_op \<times> client \<times> 'w) run option" where
  "client_poll L cx (Do_Write key buf) cl w = Some
     (case poll_write (l_bytes L) (l_cmd L) (l_cells L) key buf (cl_send cl) cx w of
        Inl p \<Rightarrow> Inl p
      | Inr (q, me, w1) \<Rightarrow> Inr (map_poll Wrote q, Do_Write key buf, cl\<lparr>cl_send := me\<rparr>, w1))"
| "client_poll L cx (Do_Read rbuf) cl w =
     (case poll_read (l_bytes L) (l_buf L) (l_rx L) (cl_recv cl) cx rbuf w of
        None \<Rightarrow> None
      | Some (Inl p) \<Rightarrow> Some (Inl p)
      | Some (Inr (q, me, rbuf1, w1)) \<Rightarrow>
          Some (Inr (map_poll Read_Done q, Do_Read rbuf1, cl\<lparr>cl_recv := me\<rparr>, w1)))"
| "client_poll L cx Do_Read_Chunk cl w = Some
     (case read_chunk_poll (l_rx L) (cl_rdgram cl) cx w of
        Inl p \<Rightarrow> Inl p
      | Inr (q, me, w1) \<Rightarrow> Inr (map_poll (\<lambda>r. Got (Some r)) q, Do_Read_Chunk, cl\<lparr>cl_rdgram := me\<rparr>, w1))"
| "client_poll L cx Do_Next cl w = Some
     (case poll_next (l_rx L) (cl_rdgram cl) cx w of
        (q, w1) \<Rightarrow> Inr (map_poll Got q, Do_Next, cl, w1))"
| "client_poll L cx (Do_Write_Chunk key buf) cl w = Some
     (case poll_write_chunk (l_cmd L) (l_cells L) (l_data L) key buf (cl_wdgram cl) cx w of
        Inl p \<Rightarrow> Inl p
      | Inr (q, me, w1) \<Rightarrow> Inr (map_poll Sent q, Do_Write_Chunk key buf, cl\<lparr>cl_wdgram := me\<rparr>, w1))"
| "client_poll L cx (Do_Feed key item) cl w = Some
     (case sink_poll_ready (l_cmd L) (l_cells L) (l_data L) key (cl_wdgram cl) cx w of
        Inl p \<Rightarrow> Inl p
      | Inr (Pending, me, w1) \<Rightarrow> Inr (Pending, Do_Feed key item, cl\<lparr>cl_wdgram := me\<rparr>, w1)
      | Inr (Ready (Inl e), me, w1) \<Rightarrow>
          Inr (Ready (Sent (Inl e)), Do_Feed key item, cl\<lparr>cl_wdgram := me\<rparr>, w1)
      | Inr (Ready (Inr _), me, w1) \<Rightarrow>
          (case sink_start_send (l_data L) me item w1 of
             Inl p \<Rightarrow> Inl p
           | Inr (r, me1, w2) \<Rightarrow> Inr (Ready (Sent r), Do_Feed key item, cl\<lparr>cl_wdgram := me1\<rparr>, w2)))"
| "client_poll L cx (Do_Flush key) cl w = Some
     (case sink_poll_flush (l_cmd L) (l_cells L) key (cl_wdgram cl) cx w of
        Inl p \<Rightarrow> Inl p
      | Inr (q, me, w1) \<Rightarrow> Inr (map_poll Flushed q, Do_Flush key, cl\<lparr>cl_wdgram := me\<rparr>, w1))"

text \<open>
  The script of \<open>main\<close>: \<open>rbuf1\<close> has 1948 bytes of room and \<open>rbuf2\<close> 652, \<open>buf\<close> is the frozen buffer of
  1300 zeros.
\<close>

definition main_script :: "(nat \<Rightarrow> nat) \<Rightarrow> 'rb \<Rightarrow> 'rb \<Rightarrow> bytes \<Rightarrow> 'rb client_op list" where
  "main_script addr rbuf1 rbuf2 buf =
     [Do_Write (addr 0) [49, 50, 51, 52], Do_Read rbuf1, Do_Read rbuf2,
      Do_Read_Chunk, Do_Read_Chunk, Do_Next,
      Do_Write_Chunk (addr 1) buf, Do_Write_Chunk (addr 2) buf,
      Do_Feed (addr 3) buf, Do_Flush (addr 4), Do_Flush (addr 5)]"

section \<open>The state and the moves\<close>

datatype main_phase = Using | Joining | Finished

record ('w, 'rb) sys =
  y_task :: conn_state
  y_client :: client
  y_todo :: "'rb client_op list"
  y_results :: "op_result list"
  y_panic :: "panic option"
  y_phase :: main_phase
  y_world :: 'w

definition main_start :: "client \<Rightarrow> 'rb client_op list \<Rightarrow> 'w \<Rightarrow> ('w, 'rb) sys" where
  "main_start cl script w =
     \<lparr>y_task = Running task_init, y_client = cl, y_todo = script, y_results = [], y_panic = None,
      y_phase = Using, y_world = w\<rparr>"

datatype move =
    Client_Polls waker
  | Task_Takes waker
  | Task_Ticks
  | Client_Drops
  | Client_Joins

text \<open>What a round leaves: leaving the loop and a panic both drop what the task owns.\<close>

fun after_round :: "('w, 'rb) libs \<Rightarrow> ('w, 'rb) sys \<Rightarrow> (bool \<times> task \<times> 'w) run \<Rightarrow> ('w, 'rb) sys" where
  "after_round L s (Inl p) = s\<lparr>y_task := Crashed p, y_world := l_drop_task L (y_world s)\<rparr>"
| "after_round L s (Inr (True, t, w)) = s\<lparr>y_task := Running t, y_world := w\<rparr>"
| "after_round L s (Inr (False, t, w)) = s\<lparr>y_task := Stopped t, y_world := l_drop_task L w\<rparr>"

abbreviation sys_round :: "('w, 'rb) libs \<Rightarrow> task_chans \<Rightarrow> select_event \<Rightarrow> task \<Rightarrow> 'w
    \<Rightarrow> (bool \<times> task \<times> 'w) run" where
  "sys_round L \<equiv> task_iter (l_bytes L) (l_cells L) (l_rx L) (l_tx L)"

text \<open>
  A move of the program from a state, \<open>None\<close> where it is not enabled.  \<open>rq\<close> is the task's end of
  the channel of requests; the task that polls it in vain stays where it is in the code.  A poll that does not return is a client that makes no move any more.
\<close>

fun do_move :: "('w, 'rb) libs \<Rightarrow> task_chans \<Rightarrow> handle \<Rightarrow> move \<Rightarrow> ('w, 'rb) sys \<Rightarrow> ('w, 'rb) sys option" where
  "do_move L ch rq (Client_Polls cx) s =
     (case (y_panic s, y_todo s) of
        (None, op # ops) \<Rightarrow>
          (case client_poll L cx op (y_client s) (y_world s) of
             None \<Rightarrow> None
           | Some (Inl p) \<Rightarrow> Some (s\<lparr>y_panic := Some p\<rparr>)
           | Some (Inr (Pending, op1, cl, w)) \<Rightarrow>
               Some (s\<lparr>y_todo := op1 # ops, y_client := cl, y_world := w\<rparr>)
           | Some (Inr (Ready r, op1, cl, w)) \<Rightarrow>
               Some (s\<lparr>y_todo := ops, y_results := y_results s @ [r], y_client := cl, y_world := w\<rparr>))
      | _ \<Rightarrow> None)"
| "do_move L ch rq (Task_Takes cx) s =
     (case y_task s of
        Running t \<Rightarrow>
          (case poll_recv (l_requests L) rq cx (y_world s) of
             (Ready m, w) \<Rightarrow> Some (after_round L s (sys_round L ch (Request_Arrived m) t w))
           | (Pending, w) \<Rightarrow> Some (s\<lparr>y_world := w\<rparr>))
      | _ \<Rightarrow> None)"
| "do_move L ch rq Task_Ticks s =
     (case y_task s of
        Running t \<Rightarrow> Some (after_round L s (sys_round L ch Timer_Fired t (y_world s)))
      | _ \<Rightarrow> None)"
| "do_move L ch rq Client_Drops s =
     (if y_phase s = Using \<and> y_todo s = [] \<and> y_panic s = None
      then Some (s\<lparr>y_phase := Joining, y_world :=
        l_drop_receiver L (rd_read_receiver (cl_rdgram (y_client s)))
         (l_drop_sender L (rd_req_sender (cl_rdgram (y_client s)))
          (l_drop_sender L (rs_sender (cl_recv (y_client s)))
           (l_drop_receiver L (rs_receiver (cl_recv (y_client s)))
            (l_drop_sender L (ss_sender (cl_send (y_client s))) (y_world s)))))\<rparr>)
      else None)"
| "do_move L ch rq Client_Joins s =
     (case y_task s of
        Running t \<Rightarrow> None
      | _ \<Rightarrow> if y_phase s = Joining then Some (s\<lparr>y_phase := Finished\<rparr>) else None)"

text \<open>The runs: what the program can reach by moves in any order.\<close>

inductive sys_reach :: "('w, 'rb) libs \<Rightarrow> task_chans \<Rightarrow> handle \<Rightarrow> ('w, 'rb) sys \<Rightarrow> ('w, 'rb) sys \<Rightarrow> bool"
  for L ch rq s0 where
  start: "sys_reach L ch rq s0 s0"
| move: "sys_reach L ch rq s0 s \<Longrightarrow> do_move L ch rq m s = Some s' \<Longrightarrow> sys_reach L ch rq s0 s'"

fun do_moves :: "('w, 'rb) libs \<Rightarrow> task_chans \<Rightarrow> handle \<Rightarrow> move list \<Rightarrow> ('w, 'rb) sys \<Rightarrow> ('w, 'rb) sys option" where
  "do_moves L ch rq [] s = Some s"
| "do_moves L ch rq (m # ms) s = Option.bind (do_move L ch rq m s) (do_moves L ch rq ms)"

lemma do_moves_reach_from:
  "do_moves L ch rq ms s = Some s' \<Longrightarrow> sys_reach L ch rq s0 s \<Longrightarrow> sys_reach L ch rq s0 s'"
  by (induction ms arbitrary: s) (auto split: Option.bind_splits intro: sys_reach.move)

lemma do_moves_reach: "do_moves L ch rq ms s = Some s' \<Longrightarrow> sys_reach L ch rq s s'"
  by (rule do_moves_reach_from [OF _ sys_reach.start])

text \<open>The result that each operation is meant to have, and the datagrams a script hands over.\<close>

definition expected :: "'rb client_op \<Rightarrow> op_result" where
  "expected op =
     (case op of
        Do_Write _ buf \<Rightarrow> Wrote (Inr (length buf))
      | Do_Read _ \<Rightarrow> Read_Done (Inr ())
      | Do_Read_Chunk \<Rightarrow> Got (Some (Inr (replicate 1300 0)))
      | Do_Next \<Rightarrow> Got (Some (Inr (replicate 1300 0)))
      | Do_Write_Chunk _ _ \<Rightarrow> Sent (Inr ())
      | Do_Feed _ _ \<Rightarrow> Sent (Inr ())
      | Do_Flush _ \<Rightarrow> Flushed (Inr ()))"

fun dgrams :: "'rb client_op list \<Rightarrow> bytes list" where
  "dgrams [] = []"
| "dgrams (Do_Write_Chunk _ buf # ops) = buf # dgrams ops"
| "dgrams (Do_Feed _ buf # ops) = buf # dgrams ops"
| "dgrams (_ # ops) = dgrams ops"

end
