(* ===== verification/System_Laws.thy ===== *)
theory System_Laws
  imports Poll_Read_System
begin

text \<open>
  What the documentation of \<open>tokio\<close>'s channels promises for a program whose parts use them
  together.  \<open>net\<close> is the logical state of the channels and of the one-shot cells; a world shows one
  through the function \<open>view\<close>, and each library function does to it what its documentation says.
  A receive, a reservation or a wait for an answer may always be \<open>Pending\<close> here (a task can be
  descheduled for its budget); \<open>served\<close> says of one world that no poll in it is pending without a cause.
\<close>

section \<open>The logical state of the channels\<close>

text \<open>
  \<open>n_requests\<close>: the requests on their way to the task.  \<open>n_held\<close>, \<open>n_dheld\<close>: which \<open>PollSender\<close>s hold
  a reserved slot.  \<open>n_cells\<close>: the one-shot cells by their sending half, with the answer.  \<open>n_peer\<close>:
  the receiving halves that have not completed, with their sending half.  \<open>n_chan\<close>: what is in a
  channel of bytes, by its receiving end; \<open>n_taken\<close>: what was received from it.  \<open>n_open\<close>: no end of
  a channel has been dropped or closed; \<open>n_closed\<close>: the receiving ends that were dropped.
\<close>

record net =
  n_requests :: "(request \<times> handle) list"
  n_held :: "handle \<Rightarrow> bool"
  n_dheld :: "handle \<Rightarrow> bool"
  n_cells :: "handle \<rightharpoonup> response option"
  n_peer :: "handle \<rightharpoonup> handle"
  n_chan :: "handle \<Rightarrow> bytes list"
  n_taken :: "handle \<Rightarrow> bytes list"
  n_open :: bool
  n_closed :: "handle \<Rightarrow> bool"

text \<open>An answer reaches a cell that waits for one; a second answer cannot be given.\<close>

definition answer :: "handle \<Rightarrow> response \<Rightarrow> (handle \<rightharpoonup> response option) \<Rightarrow> (handle \<rightharpoonup> response option)" where
  "answer tx r cs = (if cs tx = Some None then cs(tx \<mapsto> Some r) else cs)"

definition net_put :: "handle \<Rightarrow> bytes \<Rightarrow> net \<Rightarrow> net" where
  "net_put h b v = v\<lparr>n_chan := (n_chan v)(h := n_chan v h @ [b])\<rparr>"

definition net_take :: "handle \<Rightarrow> net \<Rightarrow> net" where
  "net_take h v = v\<lparr>n_chan := (n_chan v)(h := tl (n_chan v h)),
     n_taken := (n_taken v)(h := n_taken v h @ [hd (n_chan v h)])\<rparr>"

definition net_close :: "handle \<Rightarrow> net \<Rightarrow> net" where
  "net_close h v = v\<lparr>n_closed := (n_closed v)(h := True), n_open := False\<rparr>"

section \<open>The laws\<close>

text \<open>\<open>PollSender\<close>s of the command channel, and the one-shot cells.\<close>

definition request_laws :: "('w \<Rightarrow> net) \<Rightarrow> ('w, 'rb) libs \<Rightarrow> bool" where
  "request_laws view L \<longleftrightarrow>
     (\<forall>h cx w r w'. poll_reserve (l_cmd L) h cx w = (r, w') \<longrightarrow>
        (case r of
           Pending \<Rightarrow> view w' = view w
         | Ready (Inr _) \<Rightarrow> view w' = (view w)\<lparr>n_held := (n_held (view w))(h := True)\<rparr>
         | Ready (Inl _) \<Rightarrow> \<not> n_open (view w))) \<and>
     (\<forall>h x w. n_held (view w) h \<longrightarrow> (\<exists>w'. send_item (l_cmd L) h x w = Inr (Inr (), w') \<and>
        view w' = (view w)\<lparr>n_requests := n_requests (view w) @ [x],
          n_held := (n_held (view w))(h := False)\<rparr>)) \<and>
     (\<forall>w tx rx w'. channel (l_cells L) w = ((tx, rx), w') \<longrightarrow>
        tx \<notin> dom (n_cells (view w)) \<and> rx \<notin> dom (n_peer (view w)) \<and>
        view w' = (view w)\<lparr>n_cells := (n_cells (view w))(tx \<mapsto> None),
          n_peer := (n_peer (view w))(rx \<mapsto> tx)\<rparr>) \<and>
     (\<forall>rx tx cx w. n_peer (view w) rx = Some tx \<longrightarrow>
        (\<exists>r w'. poll_oneshot (l_cells L) rx cx w = Inr (r, w') \<and>
          (case r of
             Pending \<Rightarrow> view w' = view w
           | Ready (Inr resp) \<Rightarrow> n_cells (view w) tx = Some (Some resp) \<and>
               view w' = (view w)\<lparr>n_peer := (n_peer (view w))(rx := None)\<rparr>
           | Ready (Inl _) \<Rightarrow> \<not> n_open (view w)))) \<and>
     (\<forall>tx r w. view (snd (respond (l_cells L) tx r w)) =
        (view w)\<lparr>n_cells := answer tx r (n_cells (view w))\<rparr>) \<and>
     (\<forall>h cx w r w'. poll_recv (l_requests L) h cx w = (r, w') \<longrightarrow>
        (case r of
           Pending \<Rightarrow> view w' = view w
         | Ready (Some x) \<Rightarrow> (\<exists>xs. n_requests (view w) = x # xs \<and> view w' = (view w)\<lparr>n_requests := xs\<rparr>)
         | Ready None \<Rightarrow> view w' = view w \<and> \<not> n_open (view w)))"

text \<open>
  The channels of bytes.  \<open>route\<close> maps a sending end (and a permit of it) to the receiving end.
\<close>

definition byte_laws :: "('w \<Rightarrow> net) \<Rightarrow> (handle \<Rightarrow> handle) \<Rightarrow> ('w, 'rb) libs \<Rightarrow> bool" where
  "byte_laws view route L \<longleftrightarrow>
     (\<forall>h cx w r w'. poll_reserve (l_data L) h cx w = (r, w') \<longrightarrow>
        (case r of
           Pending \<Rightarrow> view w' = view w
         | Ready (Inr _) \<Rightarrow> view w' = (view w)\<lparr>n_dheld := (n_dheld (view w))(h := True)\<rparr>
         | Ready (Inl _) \<Rightarrow> \<not> n_open (view w))) \<and>
     (\<forall>h x w. n_dheld (view w) h \<longrightarrow> (\<exists>w'. send_item (l_data L) h x w = Inr (Inr (), w') \<and>
        view w' = (net_put (route h) x (view w))\<lparr>n_dheld := (n_dheld (view w))(h := False)\<rparr>)) \<and>
     (\<forall>h w. n_open (view w) \<longrightarrow> (\<exists>g. get_ref (l_data L) h w = Some g \<and> route g = route h)) \<and>
     (\<forall>h cx w r w'. poll_recv (l_rx L) h cx w = (r, w') \<longrightarrow>
        (case r of
           Pending \<Rightarrow> view w' = view w
         | Ready (Some b) \<Rightarrow> (\<exists>bs. n_chan (view w) h = b # bs \<and> view w' = net_take h (view w))
         | Ready None \<Rightarrow> view w' = view w \<and> \<not> n_open (view w))) \<and>
     (\<forall>h w r w'. try_recv (l_rx L) h w = (r, w') \<longrightarrow>
        (case r of
           Inl _ \<Rightarrow> n_chan (view w) h = [] \<and> view w' = view w
         | Inr b \<Rightarrow> (\<exists>bs. n_chan (view w) h = b # bs \<and> view w' = net_take h (view w)))) \<and>
     (\<forall>h w r w'. try_reserve (l_tx L) h w = (r, w') \<longrightarrow>
        (case r of
           Inl Send_Full \<Rightarrow> view w' = view w \<and> \<not> n_closed (view w) (route h)
         | Inl Send_Closed \<Rightarrow> view w' = view w \<and> \<not> n_open (view w)
         | Inr p \<Rightarrow> view w' = (view w)\<lparr>n_dheld := (n_dheld (view w))(p := True)\<rparr> \<and>
             route p = route h \<and> \<not> n_closed (view w) (route h))) \<and>
     (\<forall>p b w. view (permit_send (l_tx L) p b w) =
        (net_put (route p) b (view w))\<lparr>n_dheld := (n_dheld (view w))(p := False)\<rparr>)"

text \<open>Dropping an end.\<close>

definition drop_laws :: "('w \<Rightarrow> net) \<Rightarrow> ('w, 'rb) libs \<Rightarrow> bool" where
  "drop_laws view L \<longleftrightarrow>
     (\<forall>h w. view (l_drop_receiver L h w) = net_close h (view w)) \<and>
     (\<forall>h w. view (l_drop_sender L h w) = (view w)\<lparr>n_open := False\<rparr>)"

definition net_laws :: "('w \<Rightarrow> net) \<Rightarrow> (handle \<Rightarrow> handle) \<Rightarrow> ('rb \<Rightarrow> bytes) \<Rightarrow> ('w, 'rb) libs \<Rightarrow> bool" where
  "net_laws view route filled L \<longleftrightarrow> bytes_laws (l_bytes L) \<and> readbuf_laws (l_buf L) filled \<and>
     request_laws view L \<and> byte_laws view route L \<and> drop_laws view L"

text \<open>An empty channel of bytes with no slot reserved has room.\<close>

definition room_laws :: "('w \<Rightarrow> net) \<Rightarrow> (handle \<Rightarrow> handle) \<Rightarrow> ('w, 'rb) libs \<Rightarrow> bool" where
  "room_laws view route L \<longleftrightarrow>
     (\<forall>h w. n_chan (view w) (route h) = [] \<longrightarrow> (\<forall>g. \<not> n_dheld (view w) g) \<longrightarrow>
        0 < capacity (l_data L) h w) \<and>
     (\<forall>h w. n_chan (view w) (route h) = [] \<longrightarrow> (\<forall>g. \<not> n_dheld (view w) g) \<longrightarrow>
        fst (try_reserve (l_tx L) h w) \<noteq> Inl Send_Full)"

section \<open>When a poll is served\<close>

text \<open>
  A poll may return \<open>Pending\<close> although what it waits for is there: the documentation of \<open>poll_recv\<close>
  says so, and a task that has used up its budget gets no other answer before it is scheduled again.
  So being served is no law of the library but a property of one world, in which the next poll
  happens: no poll in it would be pending without a cause.
\<close>

definition served :: "('w \<Rightarrow> net) \<Rightarrow> (handle \<Rightarrow> handle) \<Rightarrow> ('w, 'rb) libs \<Rightarrow> 'w \<Rightarrow> bool" where
  "served view route L w \<longleftrightarrow>
     (\<forall>h cx. n_requests (view w) = [] \<longrightarrow> (\<forall>g. \<not> n_held (view w) g) \<longrightarrow>
        fst (poll_reserve (l_cmd L) h cx w) \<noteq> Pending) \<and>
     (\<forall>rx tx r cx w'. n_peer (view w) rx = Some tx \<longrightarrow> n_cells (view w) tx = Some (Some r) \<longrightarrow>
        poll_oneshot (l_cells L) rx cx w \<noteq> Inr (Pending, w')) \<and>
     (\<forall>h cx. n_requests (view w) \<noteq> [] \<longrightarrow> fst (poll_recv (l_requests L) h cx w) \<noteq> Pending) \<and>
     (\<forall>h cx. n_chan (view w) (route h) = [] \<longrightarrow> (\<forall>g. \<not> n_dheld (view w) g) \<longrightarrow>
        fst (poll_reserve (l_data L) h cx w) \<noteq> Pending) \<and>
     (\<forall>h cx. n_chan (view w) h \<noteq> [] \<longrightarrow> fst (poll_recv (l_rx L) h cx w) \<noteq> Pending)"

end
