(* ===== verification/System_Client.thy ===== *)
theory System_Client
  imports System_Laws
begin

text \<open>
  One poll of \<open>main\<close>'s future inside the whole program: what it does to the channels, when the client's
  tables and its outstanding request fit together before it.
\<close>

section \<open>The laws, one by one\<close>

lemma net_lawsD:
  assumes "net_laws view route filled L"
  shows "bytes_laws (l_bytes L)" and "readbuf_laws (l_buf L) filled" and "request_laws view L"
    and "byte_laws view route L" and "drop_laws view L"
  using assms by (simp_all add: net_laws_def)

lemma request_lawsD:
  assumes "request_laws view L"
  shows "poll_reserve (l_cmd L) h cx w = (r, w') \<Longrightarrow>
      (case r of
         Pending \<Rightarrow> view w' = view w
       | Ready (Inr _) \<Rightarrow> view w' = (view w)\<lparr>n_held := (n_held (view w))(h := True)\<rparr>
       | Ready (Inl _) \<Rightarrow> \<not> n_open (view w))"
    and "n_held (view w) h \<Longrightarrow> \<exists>w'. send_item (l_cmd L) h x w = Inr (Inr (), w') \<and>
      view w' = (view w)\<lparr>n_requests := n_requests (view w) @ [x], n_held := (n_held (view w))(h := False)\<rparr>"
    and "channel (l_cells L) w = ((tx, rx), w') \<Longrightarrow>
      tx \<notin> dom (n_cells (view w)) \<and> rx \<notin> dom (n_peer (view w)) \<and>
      view w' = (view w)\<lparr>n_cells := (n_cells (view w))(tx \<mapsto> None), n_peer := (n_peer (view w))(rx \<mapsto> tx)\<rparr>"
    and "n_peer (view w) rx = Some tx \<Longrightarrow>
      \<exists>r w'. poll_oneshot (l_cells L) rx cx w = Inr (r, w') \<and>
        (case r of
           Pending \<Rightarrow> view w' = view w
         | Ready (Inr resp) \<Rightarrow> n_cells (view w) tx = Some (Some resp) \<and>
             view w' = (view w)\<lparr>n_peer := (n_peer (view w))(rx := None)\<rparr>
         | Ready (Inl _) \<Rightarrow> \<not> n_open (view w))"
    and "view (snd (respond (l_cells L) tx resp w)) = (view w)\<lparr>n_cells := answer tx resp (n_cells (view w))\<rparr>"
    and "poll_recv (l_requests L) h cx w = (m, w') \<Longrightarrow>
      (case m of
         Pending \<Rightarrow> view w' = view w
       | Ready (Some x) \<Rightarrow> (\<exists>xs. n_requests (view w) = x # xs \<and> view w' = (view w)\<lparr>n_requests := xs\<rparr>)
       | Ready None \<Rightarrow> view w' = view w \<and> \<not> n_open (view w))"
proof goal_cases
  case 1
  then show ?case by (rule assms [unfolded request_laws_def, THEN conjunct1, rule_format])
next
  case 2
  then show ?case by (rule assms [unfolded request_laws_def, THEN conjunct2, THEN conjunct1, rule_format])
next
  case 3
  then show ?case by (rule assms [unfolded request_laws_def, THEN conjunct2, THEN conjunct2, THEN conjunct1, rule_format])
next
  case 4
  then show ?case by (rule assms [unfolded request_laws_def, THEN conjunct2, THEN conjunct2, THEN conjunct2, THEN conjunct1, rule_format])
next
  case 5
  show ?case by (rule assms [unfolded request_laws_def, THEN conjunct2, THEN conjunct2, THEN conjunct2, THEN conjunct2, THEN conjunct1, rule_format])
next
  case 6
  then show ?case by (rule assms [unfolded request_laws_def, THEN conjunct2, THEN conjunct2, THEN conjunct2, THEN conjunct2, THEN conjunct2, rule_format])
qed

lemma byte_lawsD:
  assumes "byte_laws view route L"
  shows "poll_reserve (l_data L) h cx w = (r, w') \<Longrightarrow>
      (case r of
         Pending \<Rightarrow> view w' = view w
       | Ready (Inr _) \<Rightarrow> view w' = (view w)\<lparr>n_dheld := (n_dheld (view w))(h := True)\<rparr>
       | Ready (Inl _) \<Rightarrow> \<not> n_open (view w))"
    and "n_dheld (view w) h \<Longrightarrow> \<exists>w'. send_item (l_data L) h b w = Inr (Inr (), w') \<and>
      view w' = (net_put (route h) b (view w))\<lparr>n_dheld := (n_dheld (view w))(h := False)\<rparr>"
    and "n_open (view w) \<Longrightarrow> \<exists>g. get_ref (l_data L) h w = Some g \<and> route g = route h"
    and "poll_recv (l_rx L) h cx w = (m, w') \<Longrightarrow>
      (case m of
         Pending \<Rightarrow> view w' = view w
       | Ready (Some b) \<Rightarrow> (\<exists>bs. n_chan (view w) h = b # bs \<and> view w' = net_take h (view w))
       | Ready None \<Rightarrow> view w' = view w \<and> \<not> n_open (view w))"
    and "try_recv (l_rx L) h w = (x, w') \<Longrightarrow>
      (case x of
         Inl _ \<Rightarrow> n_chan (view w) h = [] \<and> view w' = view w
       | Inr b \<Rightarrow> (\<exists>bs. n_chan (view w) h = b # bs \<and> view w' = net_take h (view w)))"
    and "try_reserve (l_tx L) h w = (y, w') \<Longrightarrow>
      (case y of
         Inl Send_Full \<Rightarrow> view w' = view w \<and> \<not> n_closed (view w) (route h)
       | Inl Send_Closed \<Rightarrow> view w' = view w \<and> \<not> n_open (view w)
       | Inr p \<Rightarrow> view w' = (view w)\<lparr>n_dheld := (n_dheld (view w))(p := True)\<rparr> \<and>
           route p = route h \<and> \<not> n_closed (view w) (route h))"
    and "view (permit_send (l_tx L) p b w) =
      (net_put (route p) b (view w))\<lparr>n_dheld := (n_dheld (view w))(p := False)\<rparr>"
proof goal_cases
  case 1
  then show ?case by (rule assms [unfolded byte_laws_def, THEN conjunct1, rule_format])
next
  case 2
  then show ?case by (rule assms [unfolded byte_laws_def, THEN conjunct2, THEN conjunct1, rule_format])
next
  case 3
  then show ?case by (rule assms [unfolded byte_laws_def, THEN conjunct2, THEN conjunct2, THEN conjunct1, rule_format])
next
  case 4
  then show ?case by (rule assms [unfolded byte_laws_def, THEN conjunct2, THEN conjunct2, THEN conjunct2, THEN conjunct1, rule_format])
next
  case 5
  then show ?case by (rule assms [unfolded byte_laws_def, THEN conjunct2, THEN conjunct2, THEN conjunct2, THEN conjunct2, THEN conjunct1, rule_format])
next
  case 6
  then show ?case by (rule assms [unfolded byte_laws_def, THEN conjunct2, THEN conjunct2, THEN conjunct2, THEN conjunct2, THEN conjunct2, THEN conjunct1, rule_format])
next
  case 7
  show ?case by (rule assms [unfolded byte_laws_def, THEN conjunct2, THEN conjunct2, THEN conjunct2, THEN conjunct2, THEN conjunct2, THEN conjunct2, rule_format])
qed

section \<open>The outstanding request\<close>

text \<open>The response that a request is to get.\<close>

fun resp_ok :: "request \<Rightarrow> response \<Rightarrow> bool" where
  "resp_ok (Req_Read len) r = (\<exists>buf. r = Resp_Read buf \<and> Suc (length buf) = len)"
| "resp_ok (Req_Write buf) r = (r = Resp_Write (length buf))"
| "resp_ok Req_WriteDgramFlush r = (r = Resp_WriteDgramFlush)"
| "resp_ok Req_WriteDgramReady r = (r = Resp_WriteDgramReady)"

text \<open>Requests that were sent and not answered: in the channel or kept by the task.\<close>

definition outstanding :: "net \<Rightarrow> task \<Rightarrow> (request \<times> handle) list" where
  "outstanding v t = n_requests v @ map (Pair Req_WriteDgramReady) (t_ready_notifiers t) @
     map (Pair Req_WriteDgramFlush) (t_flush_notifiers t)"

text \<open>
  A command for \<open>req\<close> fits the channels: it has not been sent and nothing is outstanding, or it is
  the one outstanding request, or its answer is there and is the right one.
\<close>

fun cmd_phase :: "net \<Rightarrow> task \<Rightarrow> request \<Rightarrow> command \<Rightarrow> bool" where
  "cmd_phase v t req (State0 m) = (m = Some req \<and> outstanding v t = [])"
| "cmd_phase v t req (State1 rx) =
     (\<exists>tx. n_peer v rx = Some tx \<and>
        (n_cells v tx = Some None \<and> outstanding v t = [(req, tx)] \<or>
         (\<exists>r. n_cells v tx = Some (Some r) \<and> resp_ok req r \<and> outstanding v t = [])))"
| "cmd_phase v t req Terminated = False"

definition idle :: "net \<Rightarrow> bool" where
  "idle v \<longleftrightarrow> (\<forall>g. \<not> n_held v g) \<and> (\<forall>g. \<not> n_dheld v g)"

text \<open>What the command side of a poll leaves as it is.\<close>

definition same_bytes :: "net \<Rightarrow> net \<Rightarrow> bool" where
  "same_bytes v v' \<longleftrightarrow> n_chan v' = n_chan v \<and> n_taken v' = n_taken v \<and> n_open v' = n_open v \<and>
     n_closed v' = n_closed v \<and> (idle v \<longrightarrow> idle v')"

lemma exec_state1_phase:
  assumes laws: "request_laws view L" and up: "n_open (view w)"
    and phase: "cmd_phase (view w) t req (State1 rx)"
  shows "\<exists>q c' w'. poll_execute (l_cmd L) (l_cells L) (State1 rx) h cx w = Inr (q, c', w') \<and>
    same_bytes (view w) (view w') \<and>
    (case q of
       Pending \<Rightarrow> cmd_phase (view w') t req c'
     | Ready (Inr r) \<Rightarrow> resp_ok req r \<and> outstanding (view w') t = []
     | Ready (Inl e) \<Rightarrow> False)"
proof -
  from phase obtain tx where peer: "n_peer (view w) rx = Some tx"
    and st: "n_cells (view w) tx = Some None \<and> outstanding (view w) t = [(req, tx)] \<or>
      (\<exists>r. n_cells (view w) tx = Some (Some r) \<and> resp_ok req r \<and> outstanding (view w) t = [])"
    by auto
  from request_lawsD(4) [OF laws peer, of cx] obtain r w' where
    poll: "poll_oneshot (l_cells L) rx cx w = Inr (r, w')"
    and r: "case r of Pending \<Rightarrow> view w' = view w
      | Ready (Inr resp) \<Rightarrow> n_cells (view w) tx = Some (Some resp) \<and>
          view w' = (view w)\<lparr>n_peer := (n_peer (view w))(rx := None)\<rparr>
      | Ready (Inl _) \<Rightarrow> \<not> n_open (view w)"
    by blast
  show ?thesis
  proof (cases r)
    case Pending
    with poll r phase show ?thesis by (auto simp: same_bytes_def)
  next
    case (Ready x)
    with r up obtain resp where x: "x = Inr resp" by (cases x) auto
    with r Ready st have "resp_ok req resp" and "outstanding (view w) t = []"
      and "view w' = (view w)\<lparr>n_peer := (n_peer (view w))(rx := None)\<rparr>" by auto
    with poll Ready x show ?thesis by (auto simp: same_bytes_def outstanding_def idle_def)
  qed
qed

lemma exec_phase:
  assumes laws: "request_laws view L" and up: "n_open (view w)"
    and phase: "cmd_phase (view w) t req c"
  shows "\<exists>q c' w'. poll_execute (l_cmd L) (l_cells L) c h cx w = Inr (q, c', w') \<and>
    same_bytes (view w) (view w') \<and>
    (case q of
       Pending \<Rightarrow> cmd_phase (view w') t req c'
     | Ready (Inr r) \<Rightarrow> resp_ok req r \<and> outstanding (view w') t = []
     | Ready (Inl e) \<Rightarrow> False)"
proof (cases c)
  case (State1 rx)
  with exec_state1_phase [OF laws up] phase show ?thesis by blast
next
  case (State0 m)
  with phase have m: "m = Some req" and out: "outstanding (view w) t = []" by simp_all
  obtain r w1 where res: "poll_reserve (l_cmd L) h cx w = (r, w1)" by (cases "poll_reserve (l_cmd L) h cx w")
  note rl = request_lawsD(1) [OF laws res]
  show ?thesis
  proof (cases r)
    case Pending
    with res rl State0 m out show ?thesis by (auto simp: same_bytes_def)
  next
    case (Ready x)
    with rl up obtain u where x: "x = Inr u" by (cases x) auto
    with rl Ready have v1: "view w1 = (view w)\<lparr>n_held := (n_held (view w))(h := True)\<rparr>" by simp
    obtain tx rx w2 where ch: "channel (l_cells L) w1 = ((tx, rx), w2)" by (metis surj_pair)
    from request_lawsD(3) [OF laws ch]
    have v2: "view w2 = (view w1)\<lparr>n_cells := (n_cells (view w1))(tx \<mapsto> None),
        n_peer := (n_peer (view w1))(rx \<mapsto> tx)\<rparr>" by blast
    then have "n_held (view w2) h" using v1 by simp
    from request_lawsD(2) [OF laws this, of "(req, tx)"] obtain w3 where
      snd: "send_item (l_cmd L) h (req, tx) w2 = Inr (Inr (), w3)"
      and v3: "view w3 = (view w2)\<lparr>n_requests := n_requests (view w2) @ [(req, tx)],
        n_held := (n_held (view w2))(h := False)\<rparr>" by blast
    have same: "same_bytes (view w) (view w3)"
      using v1 v2 v3 by (auto simp: same_bytes_def idle_def)
    have "outstanding (view w3) t = [(req, tx)]" using out v1 v2 v3 by (simp add: outstanding_def)
    then have "cmd_phase (view w3) t req (State1 rx)" using v1 v2 v3 by simp
    moreover have "n_open (view w3)" using same up by (simp add: same_bytes_def)
    ultimately obtain q c' w' where
      ex: "poll_execute (l_cmd L) (l_cells L) (State1 rx) h cx w3 = Inr (q, c', w')"
      and "same_bytes (view w3) (view w')"
      and "case q of Pending \<Rightarrow> cmd_phase (view w') t req c'
         | Ready (Inr r) \<Rightarrow> resp_ok req r \<and> outstanding (view w') t = [] | Ready (Inl e) \<Rightarrow> False"
      using exec_state1_phase [OF laws] by blast
    moreover have "poll_execute (l_cmd L) (l_cells L) c h cx w = Inr (q, c', w')"
      using res Ready x ch snd ex State0 m by simp
    moreover have "same_bytes (view w) (view w')"
      using same \<open>same_bytes (view w3) (view w')\<close> by (auto simp: same_bytes_def)
    ultimately show ?thesis by blast
  qed
qed (use phase in simp)

section \<open>The handles\<close>

text \<open>
  A table of pending commands between two polls: empty (and \<open>rest\<close>), or with one command under the
  key of the await in progress.
\<close>

definition slot_phase :: "(command \<Rightarrow> bool) \<Rightarrow> bool \<Rightarrow> nat \<Rightarrow> command table \<Rightarrow> bool" where
  "slot_phase P rest key tbl \<longleftrightarrow> tbl = Map.empty \<and> rest \<or> (\<exists>c. tbl = [key \<mapsto> c] \<and> P c)"

lemma slot_phase_command:
  assumes "slot_phase P rest key tbl" and "rest \<Longrightarrow> P fresh"
  shows "P (case tbl key of None \<Rightarrow> fresh | Some c \<Rightarrow> c) \<and> tbl(key := x) = Map.empty(key := x)"
  using assms by (auto simp: slot_phase_def)

lemma slot_phase_single [intro]: "P c \<Longrightarrow> slot_phase P rest key [key \<mapsto> c]"
  by (auto simp: slot_phase_def)

lemma wd_pending_same: "wd_cmd_pending me = tbl \<Longrightarrow> me\<lparr>wd_cmd_pending := tbl\<rparr> = me"
  by (cases me) simp

lemma poll_write_phase:
  assumes B: "bytes_laws (l_bytes L)" and len: "length buf \<le> isize_max"
    and laws: "request_laws view L" and up: "n_open (view w)"
    and slot: "slot_phase (cmd_phase (view w) t (Req_Write buf)) (outstanding (view w) t = []) key
      (ss_cmd_pending me)"
  shows "\<exists>r me' w'. poll_write (l_bytes L) (l_cmd L) (l_cells L) key buf me cx w = Inr (r, me', w') \<and>
    same_bytes (view w) (view w') \<and> ss_sender me' = ss_sender me \<and>
    (case r of
       Pending \<Rightarrow> slot_phase (cmd_phase (view w') t (Req_Write buf)) False key (ss_cmd_pending me')
     | Ready x \<Rightarrow> x = Inr (length buf) \<and> ss_cmd_pending me' = Map.empty \<and> outstanding (view w') t = [])"
proof -
  let ?c = "case ss_cmd_pending me key of None \<Rightarrow> State0 (Some (Req_Write buf)) | Some c \<Rightarrow> c"
  have c: "cmd_phase (view w) t (Req_Write buf) ?c"
    and tbl: "\<And>x. (ss_cmd_pending me)(key := x) = Map.empty(key := x)"
    using slot_phase_command [OF slot, of "State0 (Some (Req_Write buf))"] by simp_all
  from exec_phase [OF laws up c, of "ss_sender me" cx] obtain q c' w' where
    ex: "poll_execute (l_cmd L) (l_cells L) ?c (ss_sender me) cx w = Inr (q, c', w')"
    and same: "same_bytes (view w) (view w')"
    and q: "case q of Pending \<Rightarrow> cmd_phase (view w') t (Req_Write buf) c'
      | Ready (Inr r) \<Rightarrow> resp_ok (Req_Write buf) r \<and> outstanding (view w') t = []
      | Ready (Inl e) \<Rightarrow> False" by blast
  have run: "table_exec (\<lambda>c. poll_execute (l_cmd L) (l_cells L) c (ss_sender me))
      (State0 (Some (Req_Write buf))) key (ss_cmd_pending me) cx w =
    Inr (q, if is_pending q then [key \<mapsto> c'] else Map.empty, w')"
    using ex by (simp add: table_exec_def tbl)
  show ?thesis
  proof (cases q)
    case Pending
    with run q same show ?thesis
      by (simp add: poll_write_table [OF B len] slot_phase_single)
  next
    case (Ready x)
    with q obtain r where "x = Inr r" by (cases x) auto
    with Ready run q same show ?thesis by (simp add: poll_write_table [OF B len])
  qed
qed

text \<open>The commands that \<open>poll_ready\<close> keeps: also \<open>Terminated\<close>, where it needs no answer.\<close>

definition ready_phase :: "net \<Rightarrow> task \<Rightarrow> command \<Rightarrow> bool" where
  "ready_phase v t c \<longleftrightarrow> c = Terminated \<and> outstanding v t = [] \<or> cmd_phase v t Req_WriteDgramReady c"

text \<open>The data side keeps the requests; a slot is held afterwards exactly on success.\<close>

definition ready_post :: "net \<Rightarrow> task \<Rightarrow> handle \<Rightarrow> (write_dgram_error + unit) poll \<Rightarrow> command table \<Rightarrow> nat
    \<Rightarrow> net \<Rightarrow> bool" where
  "ready_post v t h r tbl key v' \<longleftrightarrow> n_chan v' = n_chan v \<and> n_taken v' = n_taken v \<and> n_open v' = n_open v \<and>
     n_closed v' = n_closed v \<and> (\<forall>g. \<not> n_held v' g) \<and>
     (case r of
        Pending \<Rightarrow> (\<forall>g. \<not> n_dheld v' g) \<and> slot_phase (ready_phase v' t) False key tbl
      | Ready x \<Rightarrow> x = Inr () \<and> tbl = Map.empty \<and> outstanding v' t = [] \<and> (\<forall>g. n_dheld v' g \<longleftrightarrow> g = h))"

lemma ready_reserve_phase:
  assumes laws: "byte_laws view route L" and up: "n_open (view w)" and idle: "idle (view w)"
    and tbl: "wd_cmd_pending me = [key \<mapsto> Terminated]" and out: "outstanding (view w) t = []"
    and run: "ready_reserve (l_data L) key me cx w = (r, me', w')"
  shows "ready_post (view w) t (wd_write_sender me) r (wd_cmd_pending me') key (view w') \<and>
    wd_write_sender me' = wd_write_sender me \<and> wd_cmd_sender me' = wd_cmd_sender me"
proof -
  obtain q w1 where res: "poll_reserve (l_data L) (wd_write_sender me) cx w = (q, w1)"
    by (cases "poll_reserve (l_data L) (wd_write_sender me) cx w")
  note v = byte_lawsD(1) [OF laws res]
  show ?thesis
  proof (cases q)
    case Pending
    with run res v tbl idle out show ?thesis
      by (auto simp: ready_reserve_def ready_post_def slot_phase_def ready_phase_def idle_def)
  next
    case (Ready x)
    with v up obtain u where "x = Inr u" by (cases x) auto
    with Ready run res v tbl idle out show ?thesis
      by (auto simp: ready_reserve_def ready_post_def idle_def outstanding_def)
  qed
qed

lemma ready_post_trans:
  assumes "same_bytes v v1" and "ready_post v1 t h r tbl key v'"
  shows "ready_post v t h r tbl key v'"
  using assms by (simp add: ready_post_def same_bytes_def)

lemma wd_poll_ready_phase:
  assumes rl: "request_laws view L" and bl: "byte_laws view route L"
    and up: "n_open (view w)" and idle: "idle (view w)"
    and slot: "slot_phase (ready_phase (view w) t) (outstanding (view w) t = []) key (wd_cmd_pending me)"
  shows "\<exists>r me' w'. wd_poll_ready (l_cmd L) (l_cells L) (l_data L) key me cx w = Inr (r, me', w') \<and>
    ready_post (view w) t (wd_write_sender me) r (wd_cmd_pending me') key (view w') \<and>
    wd_write_sender me' = wd_write_sender me \<and> wd_cmd_sender me' = wd_cmd_sender me"
proof -
  obtain g where g: "get_ref (l_data L) (wd_write_sender me) w = Some g"
    using byte_lawsD(3) [OF bl up] by blast
  from slot g obtain c where entry: "ready_entry (l_data L) key me w = Some (me\<lparr>wd_cmd_pending := [key \<mapsto> c]\<rparr>)"
    and c: "ready_phase (view w) t c"
  proof (cases "wd_cmd_pending me = Map.empty \<and> outstanding (view w) t = []")
    case True
    with g that [of "if 0 < capacity (l_data L) g w then Terminated else State0 (Some Req_WriteDgramReady)"]
    show thesis by (simp add: ready_entry_def ready_phase_def)
  next
    case False
    with slot obtain c where "wd_cmd_pending me = [key \<mapsto> c]" and "ready_phase (view w) t c"
      by (auto simp: slot_phase_def)
    with that [of c] show thesis by (simp add: ready_entry_def wd_pending_same)
  qed
  let ?me1 = "me\<lparr>wd_cmd_pending := [key \<mapsto> c]\<rparr>"
  show ?thesis
  proof (cases "c = Terminated")
    case True
    obtain r me' w' where run: "ready_reserve (l_data L) key ?me1 cx w = (r, me', w')" by (metis surj_pair)
    moreover have "outstanding (view w) t = []" using c True by (simp add: ready_phase_def)
    ultimately have "ready_post (view w) t (wd_write_sender me) r (wd_cmd_pending me') key (view w') \<and>
        wd_write_sender me' = wd_write_sender me \<and> wd_cmd_sender me' = wd_cmd_sender me"
      using ready_reserve_phase [OF bl up idle _ _ run] True by simp
    with entry run True show ?thesis by (simp add: wd_poll_ready_def)
  next
    case False
    with c have ph: "cmd_phase (view w) t Req_WriteDgramReady c" by (simp add: ready_phase_def)
    have live: "\<not> is_terminated c" using False by (cases c) simp_all
    from exec_phase [OF rl up ph, of "wd_cmd_sender me" cx] obtain q c' w1 where
      ex: "poll_execute (l_cmd L) (l_cells L) c (wd_cmd_sender me) cx w = Inr (q, c', w1)"
      and same: "same_bytes (view w) (view w1)"
      and q: "case q of Pending \<Rightarrow> cmd_phase (view w1) t Req_WriteDgramReady c'
        | Ready (Inr r) \<Rightarrow> resp_ok Req_WriteDgramReady r \<and> outstanding (view w1) t = []
        | Ready (Inl e) \<Rightarrow> False" by blast
    let ?me2 = "me\<lparr>wd_cmd_pending := [key \<mapsto> c']\<rparr>"
    have idle1: "idle (view w1)" and up1: "n_open (view w1)"
      using same idle up by (simp_all add: same_bytes_def)
    show ?thesis
    proof (cases q)
      case Pending
      with entry live ex q same idle1 show ?thesis
        by (simp add: wd_poll_ready_def Let_def ready_post_def slot_phase_single ready_phase_def
            same_bytes_def idle_def)
    next
      case (Ready x)
      with q obtain resp where x: "x = Inr resp" by (cases x) auto
      have fin: "c' = Terminated" using poll_execute_ok ex Ready x by (cases c') fastforce+
      obtain r me' w' where run: "ready_reserve (l_data L) key ?me2 cx w1 = (r, me', w')" by (metis surj_pair)
      have "ready_post (view w1) t (wd_write_sender me) r (wd_cmd_pending me') key (view w') \<and>
          wd_write_sender me' = wd_write_sender me \<and> wd_cmd_sender me' = wd_cmd_sender me"
        using ready_reserve_phase [OF bl up1 idle1 _ _ run, of t] fin q Ready x by simp
      with ready_post_trans [OF same] entry live ex q Ready x run show ?thesis
        by (simp add: wd_poll_ready_def Let_def)
    qed
  qed
qed

lemma wd_poll_flush_phase:
  assumes laws: "request_laws view L" and up: "n_open (view w)"
    and slot: "slot_phase (cmd_phase (view w) t Req_WriteDgramFlush) (outstanding (view w) t = []) key
      (wd_cmd_pending me)"
  shows "\<exists>r me' w'. wd_poll_flush (l_cmd L) (l_cells L) key me cx w = Inr (r, me', w') \<and>
    same_bytes (view w) (view w') \<and> wd_write_sender me' = wd_write_sender me \<and>
    wd_cmd_sender me' = wd_cmd_sender me \<and>
    (case r of
       Pending \<Rightarrow> slot_phase (cmd_phase (view w') t Req_WriteDgramFlush) False key (wd_cmd_pending me')
     | Ready x \<Rightarrow> x = Inr () \<and> wd_cmd_pending me' = Map.empty \<and> outstanding (view w') t = [])"
proof -
  from slot obtain c where c: "cmd_phase (view w) t Req_WriteDgramFlush c"
    and entry: "(if wd_cmd_pending me key = None
       then me\<lparr>wd_cmd_pending := (wd_cmd_pending me)(key \<mapsto> State0 (Some Req_WriteDgramFlush))\<rparr> else me) =
      me\<lparr>wd_cmd_pending := [key \<mapsto> c]\<rparr>"
  proof (cases "wd_cmd_pending me = Map.empty \<and> outstanding (view w) t = []")
    case True
    with that [of "State0 (Some Req_WriteDgramFlush)"] show thesis by simp
  next
    case False
    with slot obtain c where "wd_cmd_pending me = [key \<mapsto> c]" and "cmd_phase (view w) t Req_WriteDgramFlush c"
      by (auto simp: slot_phase_def)
    with that [of c] show thesis by (simp add: wd_pending_same)
  qed
  from exec_phase [OF laws up c, of "wd_cmd_sender me" cx] obtain q c' w' where
    ex: "poll_execute (l_cmd L) (l_cells L) c (wd_cmd_sender me) cx w = Inr (q, c', w')"
    and same: "same_bytes (view w) (view w')"
    and q: "case q of Pending \<Rightarrow> cmd_phase (view w') t Req_WriteDgramFlush c'
      | Ready (Inr r) \<Rightarrow> resp_ok Req_WriteDgramFlush r \<and> outstanding (view w') t = []
      | Ready (Inl e) \<Rightarrow> False" by blast
  show ?thesis
  proof (cases q)
    case Pending
    with ex same q show ?thesis
      unfolding wd_poll_flush_def entry by (simp add: Let_def slot_phase_single)
  next
    case (Ready x)
    with q obtain resp where "x = Inr resp" by (cases x) auto
    with Ready ex same q show ?thesis
      unfolding wd_poll_flush_def entry by (simp add: Let_def)
  qed
qed

section \<open>Reading\<close>

text \<open>Messages were taken from one channel and nothing else happened.\<close>

definition only_takes :: "handle \<Rightarrow> net \<Rightarrow> net \<Rightarrow> bool" where
  "only_takes h v v' \<longleftrightarrow> (\<exists>bs tk. v' = v\<lparr>n_chan := (n_chan v)(h := bs), n_taken := (n_taken v)(h := tk)\<rparr> \<and>
     set bs \<subseteq> set (n_chan v h))"

lemma only_takes_refl [simp]: "only_takes h v v"
  unfolding only_takes_def by (rule exI [of _ "n_chan v h"], rule exI [of _ "n_taken v h"]) simp

lemma only_takes_trans: "only_takes h v v1 \<Longrightarrow> only_takes h v1 v2 \<Longrightarrow> only_takes h v v2"
  by (fastforce simp: only_takes_def)

lemma only_takes_take: "n_chan v h = b # bs \<Longrightarrow> only_takes h v (net_take h v)"
  unfolding only_takes_def net_take_def
  by (rule exI [of _ bs], rule exI [of _ "n_taken v h @ [b]"]) auto

lemma only_takesD:
  assumes "only_takes h v v'"
  shows "n_requests v' = n_requests v" "n_held v' = n_held v" "n_dheld v' = n_dheld v"
    "n_cells v' = n_cells v" "n_peer v' = n_peer v" "n_open v' = n_open v" "n_closed v' = n_closed v"
    "k \<noteq> h \<Longrightarrow> n_chan v' k = n_chan v k" "k \<noteq> h \<Longrightarrow> n_taken v' k = n_taken v k"
    "set (n_chan v' k) \<subseteq> set (n_chan v k)" "outstanding v' t = outstanding v t" "idle v' = idle v"
  using assms by (auto simp: only_takes_def outstanding_def idle_def split: if_splits)

text \<open>
  A read always returns, because what is in the channel is finite; while the connection is up it
  does not fail, and when it is pending it has taken a chunk or its first poll of the channel was pending.
\<close>

definition read_view :: "(('w, 'rb) libs) \<Rightarrow> ('w \<Rightarrow> net) \<Rightarrow> recv_stream \<Rightarrow> waker \<Rightarrow> 'w
    \<Rightarrow> (io_error + unit) poll \<Rightarrow> recv_stream \<Rightarrow> 'w \<Rightarrow> bool" where
  "read_view L view me cx w r me' w' \<longleftrightarrow> rs_receiver me' = rs_receiver me \<and>
     only_takes (rs_receiver me) (view w) (view w') \<and> (\<forall>e. r \<noteq> Ready (Inl e)) \<and>
     length (n_chan (view w') (rs_receiver me)) \<le> length (n_chan (view w) (rs_receiver me)) \<and>
     (r = Pending \<longrightarrow> length (n_chan (view w') (rs_receiver me)) < length (n_chan (view w) (rs_receiver me)) \<or>
       (\<exists>w1. poll_recv (l_rx L) (rs_receiver me) cx w = (Pending, w1)))"

text \<open>A read fills the buffer at least with what was stored, and a chunk that it took moves it on.\<close>

definition read_moves :: "('w, 'rb) libs \<Rightarrow> handle \<Rightarrow> nat \<Rightarrow> 'rb \<Rightarrow> net \<Rightarrow> 'rb \<Rightarrow> net \<Rightarrow> bool" where
  "read_moves L h n rb v rb' v' \<longleftrightarrow> remaining (l_buf L) rb' \<le> remaining (l_buf L) rb - n \<and>
     (n_chan v' h \<noteq> n_chan v h \<longrightarrow> hd (n_chan v h) \<noteq> [] \<longrightarrow> remaining (l_buf L) rb' < remaining (l_buf L) rb)"

lemma poll_read_loop_view:
  assumes B: "bytes_laws (l_bytes L)" and R: "readbuf_laws (l_buf L) filled"
    and laws: "byte_laws view route L"
    and "0 < remaining (l_buf L) rb" and "n_open (view w)"
  shows "\<exists>r me' rb' w'. poll_read_loop (l_bytes L) (l_buf L) (l_rx L) me cx rb w = Some (Inr (r, me', rb', w')) \<and>
    read_view L view me cx w r me' w' \<and>
    read_moves L (rs_receiver me) (length (stored me)) rb (view w) rb' (view w')"
  using assms(4,5)
proof (induction "length (n_chan (view w) (rs_receiver me))" arbitrary: me rb w rule: less_induct)
  case less
  obtain rb1 me1 where
    cl: "copy_local (l_bytes L) (l_buf L) me rb =
      Some (Inr (remaining (l_buf L) rb \<le> length (stored me), me1, rb1))"
    and rem: "remaining (l_buf L) rb1 = remaining (l_buf L) rb - length (stored me)"
    and h: "rs_receiver me1 = rs_receiver me"
    by (rule copy_local_closed [OF B R less.prems(1)])
  note unf = poll_read_loop_unfold [OF cl, of "l_rx L" cx w]
  show ?case
  proof (cases "remaining (l_buf L) rb \<le> length (stored me)")
    case True
    with unf h rem show ?thesis by (simp add: read_view_def read_moves_def)
  next
    case False
    obtain q w1 where recv: "poll_recv (l_rx L) (rs_receiver me) cx w = (q, w1)"
      by (cases "poll_recv (l_rx L) (rs_receiver me) cx w")
    note v = byte_lawsD(4) [OF laws recv]
    show ?thesis
    proof (cases "\<exists>b. q = Ready (Some b)")
      case True
      then obtain b where q: "q = Ready (Some b)" by blast
      with v obtain bs where bs: "n_chan (view w) (rs_receiver me) = b # bs"
        and v1: "view w1 = net_take (rs_receiver me) (view w)" by auto
      let ?me2 = "me1\<lparr>rs_local_storage := Some b\<rparr>"
      have "length (n_chan (view w1) (rs_receiver ?me2)) < length (n_chan (view w) (rs_receiver me))"
        using bs v1 h by (simp add: net_take_def)
      moreover have "n_open (view w1)" using v1 less.prems(2) by (simp add: net_take_def)
      moreover have "0 < remaining (l_buf L) rb1" using rem False by simp
      ultimately obtain r me' rb' w' where
        again: "poll_read_loop (l_bytes L) (l_buf L) (l_rx L) ?me2 cx rb1 w1 = Some (Inr (r, me', rb', w'))"
        and rv: "read_view L view ?me2 cx w1 r me' w'"
        and mv: "read_moves L (rs_receiver ?me2) (length (stored ?me2)) rb1 (view w1) rb' (view w')"
        using less.hyps [of w1 ?me2] by blast
      have "only_takes (rs_receiver me) (view w) (view w')"
        using rv h v1 only_takes_take [OF bs] only_takes_trans by (fastforce simp: read_view_def)
      with rv h bs v1 have "read_view L view me cx w r me' w'" by (auto simp: read_view_def net_take_def)
      moreover have "read_moves L (rs_receiver me) (length (stored me)) rb (view w) rb' (view w')"
        using mv rem bs False by (cases b) (auto simp: read_moves_def)
      ultimately show ?thesis using unf False recv q h again by simp
    next
      case other: False
      with v less.prems(2) have q: "q = Pending" by (cases q) (auto split: option.splits)
      with v have "read_view L view me cx w Pending me1 w1"
        using h recv by (auto simp: read_view_def)
      with unf False recv q h rem v show ?thesis by (simp add: read_moves_def)
    qed
  qed
qed

lemma poll_read_view:
  assumes "bytes_laws (l_bytes L)" and "readbuf_laws (l_buf L) filled" and "byte_laws view route L"
    and "n_open (view w)"
  shows "\<exists>r me' rb' w'. poll_read (l_bytes L) (l_buf L) (l_rx L) me cx rb w = Some (Inr (r, me', rb', w')) \<and>
    read_view L view me cx w r me' w' \<and> read_moves L (rs_receiver me) 0 rb (view w) rb' (view w')"
proof (cases "remaining (l_buf L) rb = 0")
  case True
  then show ?thesis by (simp add: poll_read_def read_view_def read_moves_def)
next
  case False
  with poll_read_loop_view [OF assms(1-3) _ assms(4), of rb me cx] show ?thesis
    by (fastforce simp: poll_read_def read_moves_def)
qed

lemma poll_read_chunk_view:
  assumes laws: "byte_laws view route L" and up: "n_open (view w)"
    and run: "poll_read_chunk (l_rx L) me cx w = (r, w')"
  shows "only_takes (rd_read_receiver me) (view w) (view w') \<and>
    (case r of
       Pending \<Rightarrow> view w' = view w \<and> (\<exists>w1. poll_recv (l_rx L) (rd_read_receiver me) cx w = (Pending, w1))
     | Ready x \<Rightarrow> \<exists>b. x = Inr b \<and> b \<in> set (n_chan (view w) (rd_read_receiver me)))"
proof -
  obtain q w1 where recv: "poll_recv (l_rx L) (rd_read_receiver me) cx w = (q, w1)"
    by (cases "poll_recv (l_rx L) (rd_read_receiver me) cx w")
  from byte_lawsD(4) [OF laws recv] up recv run show ?thesis
    by (auto simp: poll_read_chunk_def only_takes_take split: poll.splits option.splits)
qed

section \<open>One poll of the client\<close>

text \<open>How the ends of the channels are connected.\<close>

definition wired :: "(handle \<Rightarrow> handle) \<Rightarrow> task_chans \<Rightarrow> client \<Rightarrow> bool" where
  "wired route ch cl \<longleftrightarrow> route (c_stream_read ch) = rs_receiver (cl_recv cl) \<and>
     route (c_dgram_read ch) = rd_read_receiver (cl_rdgram cl) \<and>
     route (wd_write_sender (cl_wdgram cl)) = c_dgram_write ch \<and>
     distinct [rs_receiver (cl_recv cl), rd_read_receiver (cl_rdgram cl), c_dgram_write ch]"

definition same_handles :: "client \<Rightarrow> client \<Rightarrow> bool" where
  "same_handles cl cl' \<longleftrightarrow> rs_receiver (cl_recv cl') = rs_receiver (cl_recv cl) \<and>
     cl_rdgram cl' = cl_rdgram cl \<and> wd_write_sender (cl_wdgram cl') = wd_write_sender (cl_wdgram cl)"

definition at_rest :: "net \<Rightarrow> task \<Rightarrow> client \<Rightarrow> bool" where
  "at_rest v t cl \<longleftrightarrow> ss_cmd_pending (cl_send cl) = Map.empty \<and> wd_cmd_pending (cl_wdgram cl) = Map.empty \<and>
     outstanding v t = []"

text \<open>The client's tables and the channels fit the operation in progress.\<close>

fun op_phase :: "net \<Rightarrow> task \<Rightarrow> client \<Rightarrow> 'rb client_op \<Rightarrow> bool" where
  "op_phase v t cl (Do_Write key buf) \<longleftrightarrow> wd_cmd_pending (cl_wdgram cl) = Map.empty \<and>
     slot_phase (cmd_phase v t (Req_Write buf)) (outstanding v t = []) key (ss_cmd_pending (cl_send cl))"
| "op_phase v t cl (Do_Write_Chunk key buf) \<longleftrightarrow> ss_cmd_pending (cl_send cl) = Map.empty \<and>
     slot_phase (ready_phase v t) (outstanding v t = []) key (wd_cmd_pending (cl_wdgram cl))"
| "op_phase v t cl (Do_Feed key item) \<longleftrightarrow> ss_cmd_pending (cl_send cl) = Map.empty \<and>
     slot_phase (ready_phase v t) (outstanding v t = []) key (wd_cmd_pending (cl_wdgram cl))"
| "op_phase v t cl (Do_Flush key) \<longleftrightarrow> ss_cmd_pending (cl_send cl) = Map.empty \<and>
     slot_phase (cmd_phase v t Req_WriteDgramFlush) (outstanding v t = []) key (wd_cmd_pending (cl_wdgram cl))"
| "op_phase v t cl _ \<longleftrightarrow> at_rest v t cl"

lemma at_rest_phase: "at_rest v t cl \<Longrightarrow> op_phase v t cl op"
  by (cases op) (simp_all add: at_rest_def slot_phase_def)

fun op_fits :: "'rb client_op \<Rightarrow> bool" where
  "op_fits (Do_Write _ buf) = (length buf \<le> isize_max)"
| "op_fits _ = True"

definition client_post :: "(handle \<Rightarrow> handle) \<Rightarrow> net \<Rightarrow> task \<Rightarrow> client \<Rightarrow> 'rb client_op \<Rightarrow> op_result poll
    \<Rightarrow> 'rb client_op \<Rightarrow> client \<Rightarrow> net \<Rightarrow> bool" where
  "client_post route v t cl op q op' cl' v' \<longleftrightarrow> same_handles cl cl' \<and> idle v' \<and> n_open v' = n_open v \<and>
     n_closed v' = n_closed v \<and>
     (let dw = route (wd_write_sender (cl_wdgram cl)); dr = rd_read_receiver (cl_rdgram cl);
          st = rs_receiver (cl_recv cl)
      in n_taken v' dw = n_taken v dw \<and> set (n_chan v' dr) \<subseteq> set (n_chan v dr) \<and>
         set (n_chan v' st) \<subseteq> set (n_chan v st) \<and>
         n_chan v' dw = n_chan v dw @ (if q = Pending then [] else dgrams [op])) \<and>
     (case q of
        Pending \<Rightarrow> op_phase v' t cl' op' \<and> expected op' = expected op \<and> dgrams [op'] = dgrams [op] \<and> op_fits op'
      | Ready r \<Rightarrow> r = expected op \<and> at_rest v' t cl')"

text \<open>The facts of the libraries and of the state that every poll relies on.\<close>

definition poll_ready_state :: "('w \<Rightarrow> net) \<Rightarrow> (handle \<Rightarrow> handle) \<Rightarrow> ('rb \<Rightarrow> bytes) \<Rightarrow> ('w, 'rb) libs \<Rightarrow> task_chans
    \<Rightarrow> client \<Rightarrow> 'w \<Rightarrow> bool" where
  "poll_ready_state view route filled L ch cl w \<longleftrightarrow> net_laws view route filled L \<and> wired route ch cl \<and>
     n_open (view w) \<and> idle (view w) \<and>
     (\<forall>b \<in> set (n_chan (view w) (rd_read_receiver (cl_rdgram cl))). b = replicate 1300 0)"

lemma poll_ready_stateD:
  assumes "poll_ready_state view route filled L ch cl w"
  shows "bytes_laws (l_bytes L)" "readbuf_laws (l_buf L) filled" "request_laws view L" "byte_laws view route L"
    "wired route ch cl" "n_open (view w)" "idle (view w)"
    "b \<in> set (n_chan (view w) (rd_read_receiver (cl_rdgram cl))) \<Longrightarrow> b = replicate 1300 0"
  using assms by (auto simp: poll_ready_state_def net_laws_def)

lemma poll_write_client:
  assumes st: "poll_ready_state view route filled L ch cl w" and "op_phase (view w) t cl (Do_Write key buf)"
    and "op_fits (Do_Write key buf)"
  shows "\<exists>q op' cl' w'. client_poll L cx (Do_Write key buf) cl w = Some (Inr (q, op', cl', w')) \<and>
    client_post route (view w) t cl (Do_Write key buf) q op' cl' (view w')"
proof -
  note s = poll_ready_stateD [OF st]
  have wd: "wd_cmd_pending (cl_wdgram cl) = Map.empty" using assms(2) by simp
  from poll_write_phase [OF s(1) _ s(3,6), of buf t key "cl_send cl" cx] assms(2,3) obtain r me' w' where
    run: "poll_write (l_bytes L) (l_cmd L) (l_cells L) key buf (cl_send cl) cx w = Inr (r, me', w')"
    and same: "same_bytes (view w) (view w')"
    and post: "case r of
       Pending \<Rightarrow> slot_phase (cmd_phase (view w') t (Req_Write buf)) False key (ss_cmd_pending me')
     | Ready x \<Rightarrow> x = Inr (length buf) \<and> ss_cmd_pending me' = Map.empty \<and> outstanding (view w') t = []"
    by auto
  show ?thesis
    by (cases r) (use run same post s(7) assms(3) wd in \<open>auto simp: client_post_def same_handles_def same_bytes_def Let_def
        expected_def at_rest_def slot_phase_def\<close>)
qed

lemma poll_read_client:
  assumes st: "poll_ready_state view route filled L ch cl w" and rest: "at_rest (view w) t cl"
  shows "\<exists>q op' cl' w'. client_poll L cx (Do_Read rb) cl w = Some (Inr (q, op', cl', w')) \<and>
    client_post route (view w) t cl (Do_Read rb) q op' cl' (view w')"
proof -
  note s = poll_ready_stateD [OF st]
  from poll_read_view [OF s(1,2,4,6), of "cl_recv cl" cx rb] obtain r me' rb' w' where
    run: "poll_read (l_bytes L) (l_buf L) (l_rx L) (cl_recv cl) cx rb w = Some (Inr (r, me', rb', w'))"
    and rv: "read_view L view (cl_recv cl) cx w r me' w'" by blast
  have takes: "only_takes (rs_receiver (cl_recv cl)) (view w) (view w')" using rv by (simp add: read_view_def)
  have r: "r = Pending \<or> r = Ready (Inr ())" using rv by (cases r; cases "case r of Ready x \<Rightarrow> x") (auto simp: read_view_def)
  have "client_post route (view w) t cl (Do_Read rb) (map_poll Read_Done r) (Do_Read rb') (cl\<lparr>cl_recv := me'\<rparr>) (view w')"
    using r rv rest s(5,7) only_takesD [OF takes]
    by (auto simp: client_post_def same_handles_def Let_def read_view_def expected_def at_rest_def wired_def)
  with run show ?thesis by simp
qed

lemma poll_dgram_client:
  assumes st: "poll_ready_state view route filled L ch cl w" and rest: "at_rest (view w) t cl"
    and op: "op = Do_Read_Chunk \<or> op = Do_Next"
  shows "\<exists>q op' cl' w'. client_poll L cx op cl w = Some (Inr (q, op', cl', w')) \<and>
    client_post route (view w) t cl op q op' cl' (view w')"
proof -
  note s = poll_ready_stateD [OF st]
  obtain r w' where run: "poll_read_chunk (l_rx L) (cl_rdgram cl) cx w = (r, w')" by (metis surj_pair)
  note pv = poll_read_chunk_view [OF s(4,6) run]
  have frame: "same_handles cl cl \<and> idle (view w') \<and> n_open (view w') = n_open (view w) \<and>
      n_closed (view w') = n_closed (view w) \<and> at_rest (view w') t cl \<and>
      n_taken (view w') (route (wd_write_sender (cl_wdgram cl))) = n_taken (view w) (route (wd_write_sender (cl_wdgram cl))) \<and>
      n_chan (view w') (route (wd_write_sender (cl_wdgram cl))) = n_chan (view w) (route (wd_write_sender (cl_wdgram cl))) \<and>
      set (n_chan (view w') (rd_read_receiver (cl_rdgram cl))) \<subseteq> set (n_chan (view w) (rd_read_receiver (cl_rdgram cl))) \<and>
      set (n_chan (view w') (rs_receiver (cl_recv cl))) \<subseteq> set (n_chan (view w) (rs_receiver (cl_recv cl)))"
    using only_takesD [OF conjunct1 [OF pv]] rest s(5,7) by (auto simp: same_handles_def at_rest_def wired_def)
  show ?thesis
  proof (cases r)
    case Pending
    with run frame op show ?thesis
      by (auto simp: read_chunk_poll_def poll_next_def client_post_def Let_def expected_def)
  next
    case (Ready x)
    with pv s(8) have "x = Inr (replicate 1300 0)" by auto
    with Ready run frame op show ?thesis
      by (auto simp: read_chunk_poll_def poll_next_def client_post_def Let_def expected_def)
  qed
qed

text \<open>Sending an item behind a reserved slot.\<close>

lemma send_reserved:
  assumes laws: "byte_laws view route L" and post: "ready_post v t h (Ready x) tbl key (view w)"
  shows "\<exists>w'. send_item (l_data L) h buf w = Inr (Inr (), w') \<and> outstanding (view w') t = [] \<and> idle (view w') \<and>
    n_chan (view w') = (n_chan v)(route h := n_chan v (route h) @ [buf]) \<and> n_taken (view w') = n_taken v \<and>
    n_open (view w') = n_open v \<and> n_closed (view w') = n_closed v"
proof -
  have "n_dheld (view w) h" using post by (simp add: ready_post_def)
  from byte_lawsD(2) [OF laws this, of buf] obtain w' where
    "send_item (l_data L) h buf w = Inr (Inr (), w')"
    and "view w' = (net_put (route h) buf (view w))\<lparr>n_dheld := (n_dheld (view w))(h := False)\<rparr>" by blast
  with post show ?thesis by (auto simp: ready_post_def net_put_def outstanding_def idle_def)
qed

lemma poll_send_client:
  assumes st: "poll_ready_state view route filled L ch cl w" and op: "op = Do_Write_Chunk key buf \<or> op = Do_Feed key buf"
    and ph: "op_phase (view w) t cl op"
  shows "\<exists>q op' cl' w'. client_poll L cx op cl w = Some (Inr (q, op', cl', w')) \<and>
    client_post route (view w) t cl op q op' cl' (view w')"
proof -
  note s = poll_ready_stateD [OF st]
  let ?h = "wd_write_sender (cl_wdgram cl)"
  have ss: "ss_cmd_pending (cl_send cl) = Map.empty"
    and slot: "slot_phase (ready_phase (view w) t) (outstanding (view w) t = []) key (wd_cmd_pending (cl_wdgram cl))"
    using op ph by auto
  from wd_poll_ready_phase [OF s(3,4,6,7) slot, of cx] obtain r me' w1 where
    run: "wd_poll_ready (l_cmd L) (l_cells L) (l_data L) key (cl_wdgram cl) cx w = Inr (r, me', w1)"
    and post: "ready_post (view w) t ?h r (wd_cmd_pending me') key (view w1)"
    and h: "wd_write_sender me' = ?h" by blast
  have other: "route ?h \<noteq> rd_read_receiver (cl_rdgram cl)" "route ?h \<noteq> rs_receiver (cl_recv cl)"
    using s(5) by (auto simp: wired_def)
  show ?thesis
  proof (cases r)
    case Pending
    have "client_post route (view w) t cl op Pending op (cl\<lparr>cl_wdgram := me'\<rparr>) (view w1)"
      using post Pending h ss op
      by (auto simp: client_post_def ready_post_def same_handles_def idle_def Let_def slot_phase_def)
    with run Pending op show ?thesis by (auto simp: poll_write_chunk_def sink_poll_ready_def)
  next
    case (Ready x)
    with post have x: "x = Inr ()" and tbl: "wd_cmd_pending me' = Map.empty" by (simp_all add: ready_post_def)
    from send_reserved [OF s(4) post [unfolded Ready], of buf] obtain w2 where
      snd: "send_item (l_data L) ?h buf w1 = Inr (Inr (), w2)"
      and eff: "outstanding (view w2) t = []" "idle (view w2)"
        "n_chan (view w2) = (n_chan (view w))(route ?h := n_chan (view w) (route ?h) @ [buf])"
        "n_taken (view w2) = n_taken (view w)" "n_open (view w2) = n_open (view w)"
        "n_closed (view w2) = n_closed (view w)" by blast
    have "client_post route (view w) t cl op (Ready (Sent (Inr ()))) op (cl\<lparr>cl_wdgram := me'\<rparr>) (view w2)"
      using eff h ss tbl op other
      by (auto simp: client_post_def same_handles_def Let_def at_rest_def expected_def)
    with run Ready x h snd op show ?thesis
      by (auto simp: poll_write_chunk_def sink_poll_ready_def sink_start_send_def)
  qed
qed

lemma poll_flush_client:
  assumes st: "poll_ready_state view route filled L ch cl w" and ph: "op_phase (view w) t cl (Do_Flush key)"
  shows "\<exists>q op' cl' w'. client_poll L cx (Do_Flush key) cl w = Some (Inr (q, op', cl', w')) \<and>
    client_post route (view w) t cl (Do_Flush key) q op' cl' (view w')"
proof -
  note s = poll_ready_stateD [OF st]
  have ss: "ss_cmd_pending (cl_send cl) = Map.empty" using ph by simp
  from wd_poll_flush_phase [OF s(3,6), of t key "cl_wdgram cl" cx] ph obtain r me' w' where
    run: "wd_poll_flush (l_cmd L) (l_cells L) key (cl_wdgram cl) cx w = Inr (r, me', w')"
    and same: "same_bytes (view w) (view w')" and h: "wd_write_sender me' = wd_write_sender (cl_wdgram cl)"
    and post: "case r of
       Pending \<Rightarrow> slot_phase (cmd_phase (view w') t Req_WriteDgramFlush) False key (wd_cmd_pending me')
     | Ready x \<Rightarrow> x = Inr () \<and> wd_cmd_pending me' = Map.empty \<and> outstanding (view w') t = []" by auto
  show ?thesis
    by (cases r) (use run same post s(7) ss h in \<open>auto simp: sink_poll_flush_def client_post_def same_handles_def
        same_bytes_def Let_def expected_def at_rest_def slot_phase_def\<close>)
qed

lemma client_poll_post:
  assumes st: "poll_ready_state view route filled L ch cl w" and ph: "op_phase (view w) t cl op" and fits: "op_fits op"
  shows "\<exists>q op' cl' w'. client_poll L cx op cl w = Some (Inr (q, op', cl', w')) \<and>
    client_post route (view w) t cl op q op' cl' (view w')"
proof (cases op)
  case (Do_Write key buf)
  with poll_write_client [OF st] ph fits show ?thesis by blast
next
  case (Do_Read rb)
  with poll_read_client [OF st] ph show ?thesis by (metis op_phase.simps(5))
next
  case Do_Read_Chunk
  with poll_dgram_client [OF st] ph show ?thesis by (metis op_phase.simps(6))
next
  case Do_Next
  with poll_dgram_client [OF st] ph show ?thesis by (metis op_phase.simps(7))
next
  case (Do_Write_Chunk key buf)
  with poll_send_client [OF st] ph show ?thesis by blast
next
  case (Do_Feed key buf)
  with poll_send_client [OF st] ph show ?thesis by blast
next
  case (Do_Flush key)
  with poll_flush_client [OF st] ph show ?thesis by blast
qed

end
