(* ===== verification/System_Task.thy ===== *)
theory System_Task
  imports System_Client
begin

text \<open>
  One round of the connection task inside the whole program: what it does to the channels and to the
  outstanding request.
\<close>

section \<open>The task's own laws follow\<close>

lemma net_task_laws:
  assumes "net_laws view route filled L"
  shows "task_laws (l_bytes L) (l_cells L) (l_rx L) (l_tx L) (\<lambda>w. n_taken (view w))"
proof -
  note B = net_lawsD(1) [OF assms] and rl = net_lawsD(3) [OF assms] and bl = net_lawsD(4) [OF assms]
  have "receiver_laws (l_rx L) (\<lambda>w. n_taken (view w))"
    unfolding receiver_laws_def
  proof (intro conjI allI impI)
    fix h cx w r w' assume "poll_recv (l_rx L) h cx w = (r, w')"
    from byte_lawsD(4) [OF bl this] show "n_taken (view w') =
      (case r of Ready (Some x) \<Rightarrow> (n_taken (view w))(h := n_taken (view w) h @ [x]) | _ \<Rightarrow> n_taken (view w))"
      by (auto simp: net_take_def split: poll.splits option.splits)
  next
    fix h w r w' assume "try_recv (l_rx L) h w = (r, w')"
    from byte_lawsD(5) [OF bl this] show "n_taken (view w') =
      (case r of Inl _ \<Rightarrow> n_taken (view w) | Inr x \<Rightarrow> (n_taken (view w))(h := n_taken (view w) h @ [x]))"
      by (auto simp: net_take_def split: sum.splits)
  qed
  moreover have "n_taken (view (snd (try_reserve (l_tx L) h w))) = n_taken (view w)" for h w
    using byte_lawsD(6) [OF bl, of h w "fst (try_reserve (l_tx L) h w)" "snd (try_reserve (l_tx L) h w)"]
    by (auto split: sum.splits try_send_error.splits)
  moreover have "n_taken (view (permit_send (l_tx L) p b w)) = n_taken (view w)" for p b w
    by (simp add: byte_lawsD(7) [OF bl] net_put_def)
  ultimately show ?thesis
    by (simp add: task_laws_def B request_lawsD(5) [OF rl])
qed

section \<open>Settling a request\<close>

text \<open>
  The single outstanding request stays outstanding, or it is answered with the response that belongs
  to it.
\<close>

definition settles :: "(request \<times> handle) list \<Rightarrow> net \<Rightarrow> (request \<times> handle) list \<Rightarrow> net \<Rightarrow> bool" where
  "settles O1 v1 O2 v2 \<longleftrightarrow> O2 = O1 \<and> n_cells v2 = n_cells v1 \<or>
     (\<exists>req tx r. O1 = [(req, tx)] \<and> O2 = [] \<and> resp_ok req r \<and> n_cells v2 = answer tx r (n_cells v1))"

lemma settles_refl [simp]: "n_cells v2 = n_cells v1 \<Longrightarrow> settles O1 v1 O1 v2"
  by (simp add: settles_def)

lemma settles_trans: "settles O1 v1 O2 v2 \<Longrightarrow> settles O2 v2 O3 v3 \<Longrightarrow> settles O1 v1 O3 v3"
  by (auto simp: settles_def)

lemma settles_short: "settles O1 v1 O2 v2 \<Longrightarrow> length O2 \<le> length O1"
  by (auto simp: settles_def)

text \<open>What a part of a round leaves as it is: everything but the cells and one channel.\<close>

definition task_frame :: "(handle \<Rightarrow> bool) \<Rightarrow> net \<Rightarrow> net \<Rightarrow> bool" where
  "task_frame H v v' \<longleftrightarrow> n_requests v' = n_requests v \<and> n_peer v' = n_peer v \<and> n_open v' = n_open v \<and>
     n_closed v' = n_closed v \<and> (\<forall>k. \<not> H k \<longrightarrow> n_chan v' k = n_chan v k \<and> n_taken v' k = n_taken v k) \<and> (idle v \<longrightarrow> idle v')"

text \<open>No message of a channel is lost: it is in the channel or it was received, in order.\<close>

definition conserves :: "handle \<Rightarrow> net \<Rightarrow> net \<Rightarrow> bool" where
  "conserves h v v' \<longleftrightarrow> n_taken v' h @ n_chan v' h = n_taken v h @ n_chan v h"

lemma conserves_trans: "conserves h v1 v2 \<Longrightarrow> conserves h v2 v3 \<Longrightarrow> conserves h v1 v3"
  by (simp add: conserves_def)

lemma conserves_take: "n_chan v h = b # bs \<Longrightarrow> conserves h v (net_take h v)"
  by (simp add: conserves_def net_take_def)

lemma task_frame_refl [simp]: "task_frame H v v"
  by (simp add: task_frame_def)

lemma task_frame_trans: "task_frame H v1 v2 \<Longrightarrow> task_frame H v2 v3 \<Longrightarrow> task_frame H v1 v3"
  by (auto simp: task_frame_def)

lemma task_frame_mono: "task_frame H v1 v2 \<Longrightarrow> (\<And>k. H k \<Longrightarrow> K k) \<Longrightarrow> task_frame K v1 v2"
  by (auto simp: task_frame_def)

lemma notify_one_view:
  assumes laws: "request_laws view L" and "length txs \<le> 1"
  shows "view (notify_all (l_cells L) r txs w) =
    (view w)\<lparr>n_cells := (case txs of [] \<Rightarrow> n_cells (view w) | tx # _ \<Rightarrow> answer tx r (n_cells (view w)))\<rparr>"
proof (cases txs)
  case (Cons tx rest)
  with assms(2) have "txs = [] @ [tx]" by simp
  then show ?thesis using Cons request_lawsD(5) [OF laws] by (simp only: notify_all_snoc) simp
qed simp

lemma notify_frame:
  assumes "request_laws view L" and "length txs \<le> 1"
  shows "task_frame H (view w) (view (notify_all (l_cells L) r txs w)) \<and>
    n_chan (view (notify_all (l_cells L) r txs w)) = n_chan (view w) \<and>
    n_taken (view (notify_all (l_cells L) r txs w)) = n_taken (view w)"
  by (simp add: notify_one_view [OF assms] task_frame_def idle_def)

lemma ready_settles:
  assumes laws: "request_laws view L" and one: "length (outstanding v t) \<le> 1" and v: "v = view w"
    and t1: "t_ready_notifiers t1 = []" "t_flush_notifiers t1 = t_flush_notifiers t"
    and w1: "view w1 = view (notify_all (l_cells L) Resp_WriteDgramReady (t_ready_notifiers t) w)"
  shows "settles (outstanding v t) v (outstanding (view w1) t1) (view w1)"
proof -
  have short: "length (t_ready_notifiers t) \<le> 1" using one by (simp add: outstanding_def)
  note nv = notify_one_view [OF laws short, of Resp_WriteDgramReady w]
  show ?thesis
  proof (cases "t_ready_notifiers t")
    case Nil
    with nv w1 v t1 show ?thesis by (simp add: outstanding_def settles_def)
  next
    case (Cons tx rest)
    with one have "n_requests v = []" "rest = []" "t_flush_notifiers t = []" by (simp_all add: outstanding_def)
    with Cons nv w1 v t1 show ?thesis by (auto simp: outstanding_def settles_def)
  qed
qed

lemma flush_settles:
  assumes laws: "request_laws view L" and one: "length (outstanding v t) \<le> 1" and v: "v = view w"
    and t1: "t_flush_notifiers t1 = []" "t_ready_notifiers t1 = t_ready_notifiers t"
    and w1: "view w1 = view (notify_all (l_cells L) Resp_WriteDgramFlush (t_flush_notifiers t) w)"
  shows "settles (outstanding v t) v (outstanding (view w1) t1) (view w1)"
proof -
  have short: "length (t_flush_notifiers t) \<le> 1" using one by (simp add: outstanding_def)
  note nv = notify_one_view [OF laws short, of Resp_WriteDgramFlush w]
  show ?thesis
  proof (cases "t_flush_notifiers t")
    case Nil
    with nv w1 v t1 show ?thesis by (simp add: outstanding_def settles_def)
  next
    case (Cons tx rest)
    with one have "n_requests v = []" "rest = []" "t_ready_notifiers t = []" by (simp_all add: outstanding_def)
    with Cons nv w1 v t1 show ?thesis by (auto simp: outstanding_def settles_def)
  qed
qed

lemma recv_loop_view:
  assumes rl: "request_laws view L" and bl: "byte_laws view route L"
    and "length (outstanding (view w) t) \<le> 1" and "recv_loop (l_cells L) (l_rx L) h t w = (t', w')"
  shows "task_frame (\<lambda>k. k = h) (view w) (view w') \<and> conserves h (view w) (view w') \<and>
    settles (outstanding (view w) t) (view w) (outstanding (view w') t') (view w') \<and>
    (t_waiting t' = None \<longrightarrow> n_chan (view w') h = [])"
  using assms(3,4)
proof (induction "MAX_SEND_DGRAMS - length (elems (t_write_dgrams t))" arbitrary: t w rule: less_induct)
  case less
  obtain r w1 where recv: "try_recv (l_rx L) h w = (r, w1)" by (cases "try_recv (l_rx L) h w")
  note v1 = byte_lawsD(5) [OF bl recv] and unf = recv_loop.simps [of "l_cells L" "l_rx L" h t w]
  have short: "length (t_ready_notifiers t) \<le> 1" "length (t_flush_notifiers t) \<le> 1"
    using less.prems(1) by (simp_all add: outstanding_def)
  show ?case
  proof (cases r)
    case (Inl e)
    with v1 have vw: "view w1 = view w" and none: "n_chan (view w) h = []" by simp_all
    from less.prems(2) unf recv Inl
    have t': "t' = t\<lparr>t_flush_notifiers := []\<rparr>"
      and w': "w' = notify_all (l_cells L) Resp_WriteDgramFlush (t_flush_notifiers t) w1" by simp_all
    have "settles (outstanding (view w) t) (view w) (outstanding (view w') t') (view w')"
      using flush_settles [OF rl less.prems(1) vw [symmetric], of t' w'] t' w' by simp
    moreover have "task_frame (\<lambda>k. k = h) (view w) (view w') \<and> conserves h (view w) (view w') \<and>
        n_chan (view w') h = []"
      using notify_frame [OF rl short(2), of "\<lambda>k. k = h" w1] w' vw none by (simp add: conserves_def)
    ultimately show ?thesis by blast
  next
    case (Inr buf)
    let ?w2 = "notify_all (l_cells L) Resp_WriteDgramReady (t_ready_notifiers t) w1"
    let ?t1 = "t\<lparr>t_ready_notifiers := []\<rparr>"
    from v1 Inr obtain bs where bs: "n_chan (view w) h = buf # bs" and vw: "view w1 = net_take h (view w)" by auto
    have con: "conserves h (view w) (view ?w2)"
      using conserves_take [OF bs] vw notify_frame [OF rl short(1), of "\<lambda>k. k = h" w1 Resp_WriteDgramReady]
      by (simp add: conserves_def)
    have fr: "task_frame (\<lambda>k. k = h) (view w) (view ?w2)"
      using notify_frame [OF rl short(1), of "\<lambda>k. k = h" w1 Resp_WriteDgramReady] vw
      by (auto simp: task_frame_def net_take_def idle_def)
    have same: "outstanding (view w1) t = outstanding (view w) t" "n_cells (view w1) = n_cells (view w)"
      using vw by (simp_all add: net_take_def outstanding_def)
    have st: "settles (outstanding (view w) t) (view w) (outstanding (view ?w2) t2) (view ?w2)"
      if "t_ready_notifiers t2 = []" "t_flush_notifiers t2 = t_flush_notifiers t" for t2
      using ready_settles [OF rl _ refl that refl, of w1] less.prems(1) same by (simp add: settles_def)
    show ?thesis
    proof (cases "length (elems (t_write_dgrams t)) < MAX_SEND_DGRAMS")
      case True
      let ?t2 = "?t1\<lparr>t_write_dgrams := vd_push_back (t_write_dgrams ?t1) buf\<rparr>"
      have run: "recv_loop (l_cells L) (l_rx L) h ?t2 ?w2 = (t', w')"
        using less.prems(2) unf recv Inr True by (simp add: Let_def deque.count_items)
      have s2: "settles (outstanding (view w) t) (view w) (outstanding (view ?w2) ?t2) (view ?w2)"
        by (rule st) simp_all
      from less.hyps [OF _ _ run] True le_trans [OF settles_short [OF s2] less.prems(1)]
      have rest: "task_frame (\<lambda>k. k = h) (view ?w2) (view w')"
        "conserves h (view ?w2) (view w')"
        "settles (outstanding (view ?w2) ?t2) (view ?w2) (outstanding (view w') t') (view w')"
        "t_waiting t' = None \<longrightarrow> n_chan (view w') h = []" by auto
      from task_frame_trans [OF fr rest(1)] conserves_trans [OF con rest(2)] settles_trans [OF s2 rest(3)] rest(4)
      show ?thesis by blast
    next
      case False
      have "t' = ?t1\<lparr>t_waiting := Some buf\<rparr> \<and> w' = ?w2"
        using less.prems(2) unf recv Inr False by (simp add: Let_def deque.count_items)
      with fr con st [of "?t1\<lparr>t_waiting := Some buf\<rparr>"] show ?thesis by simp
    qed
  qed
qed

lemma recv_phase_view:
  assumes "request_laws view L" and "byte_laws view route L"
    and "length (outstanding (view w) t) \<le> 1" and "recv_phase (l_cells L) (l_rx L) h t w = (t', w')"
  shows "task_frame (\<lambda>k. k = h) (view w) (view w') \<and> conserves h (view w) (view w') \<and>
    settles (outstanding (view w) t) (view w) (outstanding (view w') t') (view w') \<and>
    (t_waiting t' = None \<longrightarrow> n_chan (view w') h = [])"
  using assms(4) recv_loop_view [OF assms(1-3)] by (auto simp: recv_phase_def conserves_def split: if_splits)

lemma offer_chunk_view:
  assumes B: "bytes_laws (l_bytes L)" and bl: "byte_laws view route L"
    and run: "offer_chunk (l_bytes L) (l_tx L) h w = Inr (go, w')"
  shows "task_frame (\<lambda>k. k = route h) (view w) (view w') \<and> n_cells (view w') = n_cells (view w) \<and>
    (n_chan (view w') (route h) = n_chan (view w) (route h) \<or>
     n_chan (view w') (route h) = n_chan (view w) (route h) @ [replicate 1300 0]) \<and>
    (n_open (view w) \<longrightarrow> go) \<and> (n_closed (view w) (route h) \<longrightarrow> \<not> go)"
proof -
  have small: "1300 \<le> isize_max" by (simp add: isize_max_def)
  obtain r w1 where res: "try_reserve (l_tx L) h w = (r, w1)" by (cases "try_reserve (l_tx L) h w")
  note v = byte_lawsD(6) [OF bl res]
  show ?thesis
  proof (cases r)
    case (Inl e)
    with v run res show ?thesis by (cases e) (auto simp: offer_chunk_def)
  next
    case (Inr p)
    with run res small bytes_lawsD(3,4,6) [OF B]
    have "w' = permit_send (l_tx L) p (replicate 1300 0) w1" and go by (auto simp: offer_chunk_def)
    then have "view w' = (net_put (route p) (replicate 1300 0) (view w1))\<lparr>n_dheld := (n_dheld (view w1))(p := False)\<rparr>"
      using byte_lawsD(7) [OF bl] by simp
    with v Inr \<open>go\<close> show ?thesis by (auto simp: task_frame_def net_put_def idle_def)
  qed
qed

text \<open>An offer that does not end the loop leaves the channel with a chunk in it.\<close>

lemma offer_chunk_fills:
  assumes B: "bytes_laws (l_bytes L)" and bl: "byte_laws view route L" and pr: "room_laws view route L"
    and run: "offer_chunk (l_bytes L) (l_tx L) h w = Inr (True, w')" and idle: "idle (view w)"
  shows "n_chan (view w') (route h) \<noteq> []"
proof (cases "n_chan (view w) (route h) = []")
  case True
  then have "fst (try_reserve (l_tx L) h w) \<noteq> Inl Send_Full"
    using pr idle unfolding room_laws_def idle_def by blast
  then obtain p w1 where res: "try_reserve (l_tx L) h w = (Inr p, w1)"
    using run by (cases "try_reserve (l_tx L) h w")
      (auto simp: offer_chunk_def split: sum.splits try_send_error.splits)
  have small: "1300 \<le> isize_max" by (simp add: isize_max_def)
  from run res small bytes_lawsD(3,4,6) [OF B]
  have "w' = permit_send (l_tx L) p (replicate 1300 0) w1" by (auto simp: offer_chunk_def)
  with byte_lawsD(6) [OF bl res] show ?thesis by (simp add: byte_lawsD(7) [OF bl] net_put_def)
qed (use offer_chunk_view [OF B bl run] in auto)

section \<open>The select block and the round\<close>

text \<open>The request that an event brings.\<close>

fun event_request :: "select_event \<Rightarrow> (request \<times> handle) list" where
  "event_request (Request_Arrived (Some x)) = [x]"
| "event_request _ = []"

lemma on_select_view:
  assumes rl: "request_laws view L" and run: "on_select (l_bytes L) (l_cells L) ev t w = Inr (go, t', w')"
    and one: "length (event_request ev @ outstanding (view w) t) \<le> 1"
    and client: "\<forall>x \<in> set (event_request ev). \<forall>len. fst x \<noteq> Req_Read len"
  shows "task_frame (\<lambda>_. False) (view w) (view w') \<and>
    settles (event_request ev @ outstanding (view w) t) (view w) (outstanding (view w') t') (view w') \<and>
    (go \<longleftrightarrow> ev \<noteq> Request_Arrived None) \<and> t_write_dgrams t' = t_write_dgrams t \<and> t_waiting t' = t_waiting t"
proof (cases ev)
  case Timer_Fired
  with run show ?thesis by (auto simp: outstanding_def split: prod.splits option.splits sum.splits)
next
  case (Request_Arrived m)
  show ?thesis
  proof (cases m)
    case None
    with Request_Arrived run show ?thesis by auto
  next
    case (Some x)
    obtain req tx where x: "x = (req, tx)" by (cases x)
    have none: "outstanding (view w) t = []" using one Request_Arrived Some by simp
    then have lists: "n_requests (view w) = []" "t_ready_notifiers t = []" "t_flush_notifiers t = []"
      by (simp_all add: outstanding_def)
    show ?thesis
    proof (cases req)
      case (Req_Read len)
      with client Request_Arrived Some x show ?thesis by simp
    next
      case (Req_Write buf)
      with run Request_Arrived Some x
      have "t' = t" and go and w': "w' = snd (respond (l_cells L) tx (Resp_Write (length buf)) w)" by auto
      moreover have v': "view w' = (view w)\<lparr>n_cells := answer tx (Resp_Write (length buf)) (n_cells (view w))\<rparr>"
        using request_lawsD(5) [OF rl] w' by simp
      ultimately show ?thesis using Request_Arrived Some x Req_Write none
        by (auto simp: settles_def task_frame_def idle_def outstanding_def)
    qed (use run Request_Arrived Some x lists in \<open>auto simp: outstanding_def\<close>)
  qed
qed

definition round_post :: "(('w, 'rb) libs) \<Rightarrow> ('w \<Rightarrow> net) \<Rightarrow> (handle \<Rightarrow> handle) \<Rightarrow> task_chans
    \<Rightarrow> select_event \<Rightarrow> task \<Rightarrow> net \<Rightarrow> bool \<Rightarrow> task \<Rightarrow> net \<Rightarrow> bool" where
  "round_post L view route ch ev t v go t' v' \<longleftrightarrow>
     (let st = route (c_stream_read ch); dr = route (c_dgram_read ch); dw = c_dgram_write ch
      in task_frame (\<lambda>k. k = dw \<or> k = st \<or> k = dr) v v' \<and>
         settles (event_request ev @ outstanding v t) v (outstanding v' t') v' \<and>
         set (n_chan v' dr) \<subseteq> insert (replicate 1300 0) (set (n_chan v dr)) \<and>
         set (n_chan v' st) \<subseteq> insert (replicate 1300 0) (set (n_chan v st)) \<and>
         conserves dw v v' \<and> (n_open v \<longrightarrow> ev \<noteq> Request_Arrived None \<longrightarrow> go) \<and> (n_closed v st \<longrightarrow> \<not> go) \<and>
         (go \<longrightarrow> t_waiting t' = None \<longrightarrow> n_chan v' dw = []) \<and>
         (room_laws view route L \<longrightarrow> idle v \<longrightarrow> go \<longrightarrow> n_chan v' st \<noteq> [] \<and> n_chan v' dr \<noteq> []))"

lemma outstanding_promote [simp]: "outstanding v (promote_waiting t) = outstanding v t"
  by (simp add: outstanding_def promote_waiting_facts)

lemma task_iter_view:
  assumes laws: "net_laws view route filled L"
    and dist: "distinct [route (c_stream_read ch), route (c_dgram_read ch), c_dgram_write ch]"
    and one: "length (event_request ev @ outstanding (view w) t) \<le> 1"
    and client: "\<forall>x \<in> set (event_request ev). \<forall>len. fst x \<noteq> Req_Read len"
    and run: "sys_round L ch ev t w = Inr (go, t', w')"
  shows "round_post L view route ch ev t (view w) go t' (view w')"
proof -
  note B = net_lawsD(1) [OF laws] and rl = net_lawsD(3) [OF laws] and bl = net_lawsD(4) [OF laws]
  obtain go1 t1 w1 where sel: "on_select (l_bytes L) (l_cells L) ev t w = Inr (go1, t1, w1)"
    using run by (cases "on_select (l_bytes L) (l_cells L) ev t w") (auto simp: task_iter_def)
  note sv = on_select_view [OF rl sel one client]
  show ?thesis
  proof (cases go1)
    case False
    with run sel have "(go, t', w') = (False, t1, w1)" by (simp add: task_iter_def)
    with sv False show ?thesis
      by (auto simp: round_post_def Let_def conserves_def task_frame_def)
  next
    case True
    let ?p = "promote_waiting t1"
    obtain t2 w2 where rp: "recv_phase (l_cells L) (l_rx L) (c_dgram_write ch) ?p w1 = (t2, w2)"
      by (cases "recv_phase (l_cells L) (l_rx L) (c_dgram_write ch) ?p w1")
    have "length (outstanding (view w1) ?p) \<le> 1"
      using settles_short [of _ "view w" "outstanding (view w1) t1" "view w1"] sv one by fastforce
    note rv = recv_phase_view [OF rl bl this rp]
    obtain g3 w3 where o3: "offer_chunk (l_bytes L) (l_tx L) (c_stream_read ch) w2 = Inr (g3, w3)"
      using run sel True rp
      by (cases "offer_chunk (l_bytes L) (l_tx L) (c_stream_read ch) w2") (auto simp: task_iter_def)
    note v3 = offer_chunk_view [OF B bl o3]
    let ?st = "route (c_stream_read ch)" and ?dr = "route (c_dgram_read ch)" and ?dw = "c_dgram_write ch"
    let ?H = "\<lambda>k. k = ?dw \<or> k = ?st \<or> k = ?dr"
    have set12: "settles (event_request ev @ outstanding (view w) t) (view w) (outstanding (view w2) t2) (view w2)"
      using sv rv settles_trans by auto
    have fr2: "task_frame (\<lambda>k. k = ?dw) (view w) (view w2)"
      using sv rv by (blast intro: task_frame_trans task_frame_mono)
    have con2: "conserves ?dw (view w) (view w2)"
      using sv rv by (simp add: conserves_def task_frame_def)
    have fr3: "task_frame ?H (view w) (view w3)"
      by (rule task_frame_trans [OF task_frame_mono [OF fr2] task_frame_mono [OF conjunct1 [OF v3]]]) auto
    have go3: "n_open (view w) \<longrightarrow> g3" "n_closed (view w) ?st \<longrightarrow> \<not> g3"
      using fr2 v3 by (simp_all add: task_frame_def)
    have ch3: "n_chan (view w3) ?dr = n_chan (view w) ?dr" "n_chan (view w3) ?dw = n_chan (view w2) ?dw"
      using fr2 v3 dist by (auto simp: task_frame_def)
    have out_same: "outstanding v t2 = outstanding (view w2) t2" if "n_requests v = n_requests (view w2)" for v
      using that by (simp add: outstanding_def)
    have st3: "settles (event_request ev @ outstanding (view w) t) (view w) (outstanding (view w3) t2) (view w3)"
      by (rule settles_trans [OF set12]) (use v3 out_same [of "view w3"] in \<open>simp add: task_frame_def\<close>)
    have sub3: "set (n_chan (view w3) ?st) \<subseteq> insert (replicate 1300 0) (set (n_chan (view w) ?st))"
      using fr2 v3 dist by (auto simp: task_frame_def)
    have con3: "conserves ?dw (view w) (view w3)"
      using con2 v3 dist by (auto simp: conserves_def task_frame_def)
    have ev: "ev \<noteq> Request_Arrived None" using sv True by simp
    show ?thesis
    proof (cases g3)
      case False
      with run sel True rp o3 have "(go, t', w') = (False, t2, w3)" by (simp add: task_iter_def)
      then have fin: "go = False" "t' = t2" "w' = w3" by simp_all
      show ?thesis
        unfolding round_post_def Let_def fin
        using fr3 st3 ch3(1) sub3 con3 go3(1) False by (auto simp only: simp_thms subset_insertI)
    next
      case g3: True
      obtain g4 w4 where o4: "offer_chunk (l_bytes L) (l_tx L) (c_dgram_read ch) w3 = Inr (g4, w4)"
        using run sel True rp o3 g3
        by (cases "offer_chunk (l_bytes L) (l_tx L) (c_dgram_read ch) w3") (auto simp: task_iter_def)
      note v4 = offer_chunk_view [OF B bl o4]
      have fr4: "task_frame ?H (view w) (view w4)"
        by (rule task_frame_trans [OF fr3 task_frame_mono [OF conjunct1 [OF v4]]]) auto
      obtain t3 where t3: "send_loop t2 = Inr t3" and sp: "send_post t2 t3" using send_loop_post by blast
      have st4: "settles (event_request ev @ outstanding (view w) t) (view w) (outstanding (view w4) t2) (view w4)"
        by (rule settles_trans [OF st3]) (use v4 in \<open>simp add: task_frame_def outstanding_def\<close>)
      have out3: "outstanding (view w4) t3 = outstanding (view w4) t2"
        using sp by (simp add: outstanding_def send_post_def)
      have con4: "conserves ?dw (view w) (view w4)"
        using con3 v4 dist by (auto simp: conserves_def task_frame_def)
      have ch4: "n_chan (view w4) ?st = n_chan (view w3) ?st" "n_chan (view w4) ?dw = n_chan (view w2) ?dw"
        using v4 ch3(2) dist by (auto simp: task_frame_def)
      have dr4: "set (n_chan (view w4) ?dr) \<subseteq> insert (replicate 1300 0) (set (n_chan (view w) ?dr))"
        using v4 ch3(1) by auto
      have go4: "n_open (view w) \<longrightarrow> g4" using v4 fr3 by (simp add: task_frame_def)
      have closed: "\<not> n_closed (view w) ?st" using go3(2) g3 by blast
      have fills: "n_chan (view w4) ?st \<noteq> [] \<and> n_chan (view w4) ?dr \<noteq> []"
        if pr: "room_laws view route L" and idle: "idle (view w)" and g: "g4"
      proof -
        have idle2: "idle (view w2)" and idle3: "idle (view w3)" using idle fr2 fr3 by (simp_all add: task_frame_def)
        from g3 o3 have "offer_chunk (l_bytes L) (l_tx L) (c_stream_read ch) w2 = Inr (True, w3)" by simp
        from offer_chunk_fills [OF B bl pr this idle2] have "n_chan (view w4) ?st \<noteq> []" using ch4 by simp
        moreover from g o4 have "offer_chunk (l_bytes L) (l_tx L) (c_dgram_read ch) w3 = Inr (True, w4)" by simp
        from offer_chunk_fills [OF B bl pr this idle3] have "n_chan (view w4) ?dr \<noteq> []" .
        ultimately show ?thesis by blast
      qed
      show ?thesis
      proof (cases g4)
        case g4: True
        with run sel True rp o3 g3 o4 t3 have "(go, t', w') = (True, t3, w4)" by (simp add: task_iter_def)
        then have fin: "go = True" "t' = t3" "w' = w4" by simp_all
        have "t_waiting t3 = None \<longrightarrow> n_chan (view w4) ?dw = []" using sp rv ch4(2) by (simp add: send_post_def)
        then show ?thesis
          unfolding round_post_def Let_def fin out3 using fr4 st4 dr4 sub3 ch4(1) con4 closed fills g4 by simp
      next
        case False
        with run sel True rp o3 g3 o4 have "(go, t', w') = (False, t2, w4)" by (simp add: task_iter_def)
        then have fin: "go = False" "t' = t2" "w' = w4" by simp_all
        show ?thesis
          unfolding round_post_def Let_def fin using fr4 st4 dr4 sub3 ch4(1) con4 go4 False by simp
      qed
    qed
  qed
qed

end
