(* ===== verification/Sample_Net.thy ===== *)
theory Sample_Net
  imports System_Laws
begin

text \<open>
  A concrete runtime that satisfies \<open>net_laws\<close> and \<open>room_laws\<close>: bounded channels, one-shot cells in a
  list and \<open>PollSender\<close>s, for the witnesses of the theorems about the whole program.  It models no
  code of the workspace.
\<close>

record net_world =
  m_requests :: "(request \<times> handle) list"
  m_held :: "handle list"
  m_dheld :: "handle list"
  m_cells :: "response option list"
  m_peers :: "handle option list"
  m_chan :: "handle \<Rightarrow> bytes list"
  m_taken :: "handle \<Rightarrow> bytes list"
  m_down :: bool
  m_closed :: "handle list"

definition net_view :: "net_world \<Rightarrow> net" where
  "net_view w =
     \<lparr>n_requests = m_requests w, n_held = (\<lambda>h. h \<in> set (m_held w)), n_dheld = (\<lambda>h. h \<in> set (m_dheld w)),
      n_cells = (\<lambda>tx. if tx < length (m_cells w) then Some (m_cells w ! tx) else None),
      n_peer = (\<lambda>rx. if rx < length (m_peers w) then m_peers w ! rx else None),
      n_chan = m_chan w, n_taken = m_taken w, n_open = (\<not> m_down w \<and> m_closed w = []),
      n_closed = (\<lambda>h. h \<in> set (m_closed w))\<rparr>"

definition net_is_open :: "net_world \<Rightarrow> bool" where
  "net_is_open w \<longleftrightarrow> \<not> m_down w \<and> m_closed w = []"

definition net_cmd :: "net_world cmd_sender" where
  "net_cmd =
     \<lparr>poll_reserve = (\<lambda>h cx w. if \<not> net_is_open w then (Ready (Inl (PollSendError None)), w)
        else if h \<in> set (m_held w) then (Ready (Inr ()), w)
        else if length (m_requests w) + length (m_held w) < 128
          then (Ready (Inr ()), w\<lparr>m_held := h # m_held w\<rparr>)
        else (Pending, w)),
      send_item = (\<lambda>h x w. if h \<in> set (m_held w)
        then Inr (Inr (), w\<lparr>m_requests := m_requests w @ [x], m_held := removeAll h (m_held w)\<rparr>)
        else Inl Library_Panic),
      get_ref = (\<lambda>h w. if net_is_open w then Some h else None),
      capacity = (\<lambda>h w. 128 - (length (m_requests w) + length (m_held w))),
      is_closed = (\<lambda>h w. \<not> net_is_open w),
      close = (\<lambda>h w. w\<lparr>m_down := True\<rparr>)\<rparr>"

definition net_cells :: "net_world resp_cell" where
  "net_cells =
     \<lparr>channel = (\<lambda>w. ((length (m_cells w), length (m_peers w)),
        w\<lparr>m_cells := m_cells w @ [None], m_peers := m_peers w @ [Some (length (m_cells w))]\<rparr>)),
      poll_oneshot = (\<lambda>rx cx w.
        case (if rx < length (m_peers w) then m_peers w ! rx else None) of
          None \<Rightarrow> Inl Library_Panic
        | Some tx \<Rightarrow>
            (case (if tx < length (m_cells w) then m_cells w ! tx else None) of
               None \<Rightarrow> Inr (Pending, w)
             | Some r \<Rightarrow> Inr (Ready (Inr r), w\<lparr>m_peers := (m_peers w)[rx := None]\<rparr>))),
      respond = (\<lambda>tx r w. if tx < length (m_cells w) \<and> m_cells w ! tx = None
        then (Inr (), w\<lparr>m_cells := (m_cells w)[tx := Some r]\<rparr>) else (Inl r, w))\<rparr>"

definition net_data :: "net_world data_sender" where
  "net_data =
     \<lparr>poll_reserve = (\<lambda>h cx w. if \<not> net_is_open w then (Ready (Inl (PollSendError None)), w)
        else if h \<in> set (m_dheld w) then (Ready (Inr ()), w)
        else if m_chan w h = [] then (Ready (Inr ()), w\<lparr>m_dheld := h # m_dheld w\<rparr>)
        else (Pending, w)),
      send_item = (\<lambda>h x w. if h \<in> set (m_dheld w)
        then Inr (Inr (), w\<lparr>m_chan := (m_chan w)(h := m_chan w h @ [x]), m_dheld := removeAll h (m_dheld w)\<rparr>)
        else Inl Library_Panic),
      get_ref = (\<lambda>h w. if net_is_open w then Some h else None),
      capacity = (\<lambda>h w. if m_chan w h = [] then 1 else 0),
      is_closed = (\<lambda>h w. \<not> net_is_open w),
      close = (\<lambda>h w. w\<lparr>m_down := True\<rparr>)\<rparr>"

definition net_requests :: "(net_world, request \<times> handle) receiver_api" where
  "net_requests =
     \<lparr>poll_recv = (\<lambda>h cx w. case m_requests w of
          x # xs \<Rightarrow> (Ready (Some x), w\<lparr>m_requests := xs\<rparr>)
        | [] \<Rightarrow> (if net_is_open w then Pending else Ready None, w)),
      try_recv = (\<lambda>h w. case m_requests w of
          x # xs \<Rightarrow> (Inr x, w\<lparr>m_requests := xs\<rparr>)
        | [] \<Rightarrow> (Inl Recv_Empty, w))\<rparr>"

definition m_take :: "handle \<Rightarrow> net_world \<Rightarrow> net_world" where
  "m_take h w = w\<lparr>m_chan := (m_chan w)(h := tl (m_chan w h)),
     m_taken := (m_taken w)(h := m_taken w h @ [hd (m_chan w h)])\<rparr>"

definition net_rx :: "(net_world, bytes) receiver_api" where
  "net_rx =
     \<lparr>poll_recv = (\<lambda>h cx w. case m_chan w h of
          b # bs \<Rightarrow> (Ready (Some b), m_take h w)
        | [] \<Rightarrow> (if net_is_open w then Pending else Ready None, w)),
      try_recv = (\<lambda>h w. case m_chan w h of
          b # bs \<Rightarrow> (Inr b, m_take h w)
        | [] \<Rightarrow> (Inl Recv_Empty, w))\<rparr>"

definition net_tx :: "(net_world, bytes) sender_api" where
  "net_tx =
     \<lparr>try_reserve = (\<lambda>h w. if h \<in> set (m_closed w) then (Inl Send_Closed, w)
        else if m_chan w h = [] \<and> h \<notin> set (m_dheld w) then (Inr h, w\<lparr>m_dheld := h # m_dheld w\<rparr>)
        else (Inl Send_Full, w)),
      permit_send = (\<lambda>p b w. w\<lparr>m_chan := (m_chan w)(p := m_chan w p @ [b]),
        m_dheld := removeAll p (m_dheld w)\<rparr>)\<rparr>"

definition net_libs :: "(net_world, sample_buf) libs" where
  "net_libs =
     \<lparr>l_bytes = sample_bytes, l_buf = sample_readbuf, l_cmd = net_cmd, l_cells = net_cells,
      l_data = net_data, l_requests = net_requests, l_rx = net_rx, l_tx = net_tx,
      l_drop_sender = (\<lambda>h w. w\<lparr>m_down := True\<rparr>),
      l_drop_receiver = (\<lambda>h w. w\<lparr>m_closed := h # m_closed w\<rparr>),
      l_drop_task = (\<lambda>w. w\<lparr>m_down := True\<rparr>)\<rparr>"

definition net_fresh :: net_world where
  "net_fresh = \<lparr>m_requests = [], m_held = [], m_dheld = [], m_cells = [], m_peers = [],
     m_chan = (\<lambda>_. []), m_taken = (\<lambda>_. []), m_down = False, m_closed = []\<rparr>"

section \<open>It satisfies the laws\<close>

lemma net_is_open_view: "net_is_open w = n_open (net_view w)"
  by (simp add: net_is_open_def net_view_def)

lemma net_request_laws: "request_laws net_view net_libs"
  unfolding request_laws_def
proof (intro conjI allI impI)
  fix h cx w r w' assume "poll_reserve (l_cmd net_libs) h cx w = (r, w')"
  then show "case r of Pending \<Rightarrow> net_view w' = net_view w
      | Ready (Inl x) \<Rightarrow> \<not> n_open (net_view w)
      | Ready (Inr _) \<Rightarrow> net_view w' = (net_view w)\<lparr>n_held := (n_held (net_view w))(h := True)\<rparr>"
    by (auto simp: net_libs_def net_cmd_def net_is_open_def net_view_def fun_eq_iff split: if_splits)
next
  fix h x w assume "n_held (net_view w) h"
  then show "\<exists>w'. send_item (l_cmd net_libs) h x w = Inr (Inr (), w') \<and>
      net_view w' = (net_view w)\<lparr>n_requests := n_requests (net_view w) @ [x],
        n_held := (n_held (net_view w))(h := False)\<rparr>"
    by (auto simp: net_libs_def net_cmd_def net_view_def fun_eq_iff)
next
  fix w tx rx w' assume "channel (l_cells net_libs) w = ((tx, rx), w')"
  then show "tx \<notin> dom (n_cells (net_view w))" and "rx \<notin> dom (n_peer (net_view w))"
    and "net_view w' = (net_view w)\<lparr>n_cells := (n_cells (net_view w))(tx \<mapsto> None),
          n_peer := (n_peer (net_view w))(rx \<mapsto> tx)\<rparr>"
    by (auto simp: net_libs_def net_cells_def net_view_def fun_eq_iff nth_append)
next
  fix rx tx cx w assume "n_peer (net_view w) rx = Some tx"
  then show "\<exists>r w'. poll_oneshot (l_cells net_libs) rx cx w = Inr (r, w') \<and>
      (case r of Pending \<Rightarrow> net_view w' = net_view w
       | Ready (Inl x) \<Rightarrow> \<not> n_open (net_view w)
       | Ready (Inr resp) \<Rightarrow> n_cells (net_view w) tx = Some (Some resp) \<and>
           net_view w' = (net_view w)\<lparr>n_peer := (n_peer (net_view w))(rx := None)\<rparr>)"
    by (cases "tx < length (m_cells w)"; cases "m_cells w ! tx")
      (auto simp: net_libs_def net_cells_def net_view_def fun_eq_iff nth_list_update split: if_splits)
next
  fix tx r w
  show "net_view (snd (respond (l_cells net_libs) tx r w)) =
      (net_view w)\<lparr>n_cells := answer tx r (n_cells (net_view w))\<rparr>"
    by (auto simp: net_libs_def net_cells_def net_view_def answer_def fun_eq_iff nth_list_update)
next
  fix h cx w r w' assume "poll_recv (l_requests net_libs) h cx w = (r, w')"
  then show "case r of Pending \<Rightarrow> net_view w' = net_view w
      | Ready None \<Rightarrow> net_view w' = net_view w \<and> \<not> n_open (net_view w)
      | Ready (Some x) \<Rightarrow> \<exists>xs. n_requests (net_view w) = x # xs \<and>
          net_view w' = (net_view w)\<lparr>n_requests := xs\<rparr>"
    by (auto simp: net_libs_def net_requests_def net_is_open_view split: list.splits if_splits)
      (auto simp: net_view_def)
qed

lemma net_view_take: "net_view (m_take h w) = net_take h (net_view w)"
  by (simp add: m_take_def net_take_def net_view_def fun_eq_iff)

lemma net_byte_laws: "byte_laws net_view id net_libs"
  unfolding byte_laws_def
proof (intro conjI allI impI)
  fix h cx w r w' assume "poll_reserve (l_data net_libs) h cx w = (r, w')"
  then show "case r of Pending \<Rightarrow> net_view w' = net_view w
      | Ready (Inl x) \<Rightarrow> \<not> n_open (net_view w)
      | Ready (Inr _) \<Rightarrow> net_view w' = (net_view w)\<lparr>n_dheld := (n_dheld (net_view w))(h := True)\<rparr>"
    by (auto simp: net_libs_def net_data_def net_is_open_def net_view_def fun_eq_iff split: if_splits)
next
  fix h x w assume "n_dheld (net_view w) h"
  then show "\<exists>w'. send_item (l_data net_libs) h x w = Inr (Inr (), w') \<and>
      net_view w' = (net_put (id h) x (net_view w))\<lparr>n_dheld := (n_dheld (net_view w))(h := False)\<rparr>"
    by (auto simp: net_libs_def net_data_def net_view_def net_put_def fun_eq_iff)
next
  fix h w assume "n_open (net_view w)"
  then show "\<exists>g. get_ref (l_data net_libs) h w = Some g \<and> id g = id h"
    by (simp add: net_libs_def net_data_def net_is_open_view)
next
  fix h cx w r w' assume "poll_recv (l_rx net_libs) h cx w = (r, w')"
  then show "case r of Pending \<Rightarrow> net_view w' = net_view w
      | Ready None \<Rightarrow> net_view w' = net_view w \<and> \<not> n_open (net_view w)
      | Ready (Some b) \<Rightarrow> \<exists>bs. n_chan (net_view w) h = b # bs \<and> net_view w' = net_take h (net_view w)"
    by (auto simp: net_libs_def net_rx_def net_is_open_view net_view_take split: list.splits if_splits)
      (auto simp: net_view_def)
next
  fix h w r w' assume "try_recv (l_rx net_libs) h w = (r, w')"
  then show "case r of Inl _ \<Rightarrow> n_chan (net_view w) h = [] \<and> net_view w' = net_view w
      | Inr b \<Rightarrow> \<exists>bs. n_chan (net_view w) h = b # bs \<and> net_view w' = net_take h (net_view w)"
    by (auto simp: net_libs_def net_rx_def net_view_take split: list.splits)
      (auto simp: net_view_def)
next
  fix h w r w' assume "try_reserve (l_tx net_libs) h w = (r, w')"
  then show "case r of
      Inl Send_Full \<Rightarrow> net_view w' = net_view w \<and> \<not> n_closed (net_view w) (id h)
    | Inl Send_Closed \<Rightarrow> net_view w' = net_view w \<and> \<not> n_open (net_view w)
    | Inr p \<Rightarrow> net_view w' = (net_view w)\<lparr>n_dheld := (n_dheld (net_view w))(p := True)\<rparr> \<and>
        id p = id h \<and> \<not> n_closed (net_view w) (id h)"
    by (auto simp: net_libs_def net_tx_def net_view_def fun_eq_iff split: if_splits)
next
  fix p b w
  show "net_view (permit_send (l_tx net_libs) p b w) =
      (net_put (id p) b (net_view w))\<lparr>n_dheld := (n_dheld (net_view w))(p := False)\<rparr>"
    by (auto simp: net_libs_def net_tx_def net_view_def net_put_def fun_eq_iff)
qed

lemma net_drop_laws: "drop_laws net_view net_libs"
  by (simp add: drop_laws_def net_libs_def net_view_def net_close_def fun_eq_iff)

lemma sample_net_laws: "net_laws net_view id content net_libs"
  unfolding net_laws_def
  using net_request_laws net_byte_laws net_drop_laws
  by (simp add: net_libs_def sample_bytes_laws sample_readbuf_laws)

lemma sample_net_room: "room_laws net_view id net_libs"
  by (auto simp: room_laws_def net_libs_def net_data_def net_tx_def net_view_def)

text \<open>Here no poll is ever pending without a cause.\<close>

lemma sample_net_served: "served net_view id net_libs w"
  unfolding served_def
proof (intro conjI allI impI)
  fix rx tx r cx w'
  assume "n_peer (net_view w) rx = Some tx" and "n_cells (net_view w) tx = Some (Some r)"
  then show "poll_oneshot (l_cells net_libs) rx cx w \<noteq> Inr (Pending, w')"
    by (auto simp: net_libs_def net_cells_def net_view_def split: if_splits)
qed (auto simp: net_libs_def net_cmd_def net_requests_def net_data_def net_rx_def net_view_def
      split: list.splits)

end
