(* ===== verification/System_Correct.thy ===== *)
theory System_Correct
  imports System_Task Sample_Net
begin

text \<open>
  The invariant of the whole program and what it gives: no part of it ever panics, each awaited
  operation ends as it is meant to, and the datagrams travel from the client to the network in order.
\<close>

section \<open>The invariant\<close>

text \<open>While \<open>main\<close> uses its handles.\<close>

definition using_inv :: "('w \<Rightarrow> net) \<Rightarrow> task_chans \<Rightarrow> 'rb client_op list \<Rightarrow> ('w, 'rb) sys \<Rightarrow> task \<Rightarrow> bool" where
  "using_inv view ch script s t \<longleftrightarrow>
     (let v = view (y_world s); cl = y_client s
      in task_ok t \<and> n_open v \<and> idle v \<and>
         (\<forall>b \<in> set (n_chan v (rd_read_receiver (cl_rdgram cl))). b = replicate 1300 0) \<and>
         (\<forall>b \<in> set (n_chan v (rs_receiver (cl_recv cl))). b = replicate 1300 0) \<and>
         (case y_todo s of [] \<Rightarrow> at_rest v t cl | op # _ \<Rightarrow> op_phase v t cl op) \<and>
         (\<forall>op \<in> set (y_todo s). op_fits op) \<and>
         (\<exists>acked. acked @ pipeline t @ n_chan v (c_dgram_write ch) @ dgrams (y_todo s) = dgrams script))"

text \<open>After it dropped them: the task runs on for at most one round.\<close>

definition joining_inv :: "('w \<Rightarrow> net) \<Rightarrow> ('w, 'rb) sys \<Rightarrow> task \<Rightarrow> bool" where
  "joining_inv view s t \<longleftrightarrow> task_ok t \<and> outstanding (view (y_world s)) t = [] \<and>
     n_closed (view (y_world s)) (rs_receiver (cl_recv (y_client s)))"

definition sys_inv :: "('w \<Rightarrow> net) \<Rightarrow> (handle \<Rightarrow> handle) \<Rightarrow> task_chans \<Rightarrow> 'rb client_op list \<Rightarrow> ('w, 'rb) sys \<Rightarrow> bool" where
  "sys_inv view route ch script s \<longleftrightarrow> y_panic s = None \<and> wired route ch (y_client s) \<and>
     y_results s @ map expected (y_todo s) = map expected script \<and>
     (case y_phase s of
        Using \<Rightarrow> \<exists>t. y_task s = Running t \<and> using_inv view ch script s t
      | Joining \<Rightarrow> y_todo s = [] \<and> (\<exists>t. y_task s = Running t \<and> joining_inv view s t \<or> y_task s = Stopped t)
      | Finished \<Rightarrow> y_todo s = [] \<and> (\<exists>t. y_task s = Stopped t))"

section \<open>Requests and rounds\<close>

lemma cmd_phase_one:
  "cmd_phase v t req c \<Longrightarrow> outstanding v t = [] \<or> (\<exists>tx. outstanding v t = [(req, tx)])"
  by (cases c) auto

lemma op_phase_one:
  assumes "op_phase v t cl op"
  shows "length (outstanding v t) \<le> 1 \<and> (\<forall>x \<in> set (outstanding v t). \<forall>len. fst x \<noteq> Req_Read len)"
  using assms
  by (cases op) (auto simp: slot_phase_def ready_phase_def at_rest_def dest!: cmd_phase_one)

lemma cmd_phase_settles:
  assumes "cmd_phase v t req c" and "settles (outstanding v t) v (outstanding v' t') v'"
    and "n_peer v' = n_peer v"
  shows "cmd_phase v' t' req c"
  using assms by (cases c) (auto simp: settles_def answer_def)

lemma settles_empty: "settles [] v O' v' \<Longrightarrow> O' = []"
  by (simp add: settles_def)

lemma slot_phase_mono:
  assumes "slot_phase P rest key tbl" and "\<And>c. P c \<Longrightarrow> Q c" and "rest \<Longrightarrow> rest'"
  shows "slot_phase Q rest' key tbl"
  using assms by (auto simp: slot_phase_def)

lemma op_phase_settles:
  assumes ph: "op_phase v t cl op" and st: "settles (outstanding v t) v (outstanding v' t') v'"
    and peer: "n_peer v' = n_peer v"
  shows "op_phase v' t' cl op"
proof -
  note cp = cmd_phase_settles [OF _ st peer]
  have none: "outstanding v' t' = []" if "outstanding v t = []" using st that by (simp add: settles_def)
  have rp: "ready_phase v' t' c" if "ready_phase v t c" for c
    using that cp none by (auto simp: ready_phase_def)
  show ?thesis
    using ph cp rp none by (cases op) (auto simp: at_rest_def intro: slot_phase_mono)
qed

lemma at_rest_settles:
  "at_rest v t cl \<Longrightarrow> settles (outstanding v t) v (outstanding v' t') v' \<Longrightarrow> at_rest v' t' cl"
  by (simp add: at_rest_def settles_def)

text \<open>A round in the state of the invariant.\<close>

lemma using_round:
  assumes laws: "net_laws view route filled L" and wired: "wired route ch cl"
    and ok: "task_ok t"
    and one: "length (event_request ev @ outstanding (view w) t) \<le> 1"
    and client: "\<forall>x \<in> set (event_request ev). \<forall>len. fst x \<noteq> Req_Read len"
  shows "\<exists>go t' w'. sys_round L ch ev t w = Inr (go, t', w') \<and>
    iter_post (\<lambda>w. n_taken (view w)) ch ev t w go t' w' \<and> round_post L view route ch ev t (view w) go t' (view w')"
proof -
  have size: "sized_event ev" and nonempty: "\<not> empty_read ev"
    using client by (cases ev rule: empty_read.cases; simp)+
  from task_iter_total [OF net_task_laws [OF laws] ok size, of ch w] nonempty obtain go t' w' where
    run: "sys_round L ch ev t w = Inr (go, t', w')"
    and post: "iter_post (\<lambda>w. n_taken (view w)) ch ev t w go t' w'" by auto
  have "distinct [route (c_stream_read ch), route (c_dgram_read ch), c_dgram_write ch]"
    using wired by (simp add: wired_def)
  from task_iter_view [OF laws this one client run] run post show ?thesis by blast
qed

text \<open>What the round does to the datagrams.\<close>

lemma round_pipeline:
  assumes it: "iter_post (\<lambda>w. n_taken (view w)) ch ev t w go t' w'"
    and con: "conserves (c_dgram_write ch) (view w) (view w')"
  shows "(if ev = Timer_Fired then take 1 (elems (t_sent_dgrams t)) else []) @ pipeline t' @
    n_chan (view w') (c_dgram_write ch) = pipeline t @ n_chan (view w) (c_dgram_write ch)"
proof -
  let ?a = "if ev = Timer_Fired then take 1 (elems (t_sent_dgrams t)) else []"
  from it obtain new where
    tk: "n_taken (view w') (c_dgram_write ch) = n_taken (view w) (c_dgram_write ch) @ new"
    and pipe: "?a @ pipeline t' = pipeline t @ new"
    by (auto simp: iter_post_def)
  from con tk have "n_chan (view w) (c_dgram_write ch) = new @ n_chan (view w') (c_dgram_write ch)"
    by (simp add: conserves_def)
  then show ?thesis using pipe by (simp only: append_assoc [symmetric])
qed

text \<open>The invariant after a round that started in world \<open>w\<close>, where the event was already taken.\<close>

lemma using_inv_round:
  assumes laws: "net_laws view route filled L" and wired: "wired route ch (y_client s)"
    and inv: "using_inv view ch script s t"
    and w: "event_request ev @ outstanding (view w) t = outstanding (view (y_world s)) t"
      "view w = (view (y_world s))\<lparr>n_requests := reqs\<rparr>" "ev \<noteq> Request_Arrived None"
  shows "\<exists>t' w'. sys_round L ch ev t w = Inr (True, t', w') \<and>
    using_inv view ch script (s\<lparr>y_task := Running t', y_world := w'\<rparr>) t' \<and>
    round_post L view route ch ev t (view w) True t' (view w') \<and>
    iter_post (\<lambda>w. n_taken (view w)) ch ev t w True t' w'"
proof -
  let ?v = "view (y_world s)" and ?cl = "y_client s"
  from inv have ok: "task_ok t" and up: "n_open ?v" and idle: "idle ?v"
    and zeros: "\<forall>b \<in> set (n_chan ?v (rd_read_receiver (cl_rdgram ?cl))). b = replicate 1300 0"
      "\<forall>b \<in> set (n_chan ?v (rs_receiver (cl_recv ?cl))). b = replicate 1300 0"
    and ph: "case y_todo s of [] \<Rightarrow> at_rest ?v t ?cl | op # _ \<Rightarrow> op_phase ?v t ?cl op"
    and fits: "\<forall>op \<in> set (y_todo s). op_fits op"
    and dg: "\<exists>acked. acked @ pipeline t @ n_chan ?v (c_dgram_write ch) @ dgrams (y_todo s) = dgrams script"
    by (simp_all add: using_inv_def Let_def)
  have one: "length (outstanding ?v t) \<le> 1 \<and> (\<forall>x \<in> set (outstanding ?v t). \<forall>len. fst x \<noteq> Req_Read len)"
    using ph op_phase_one [of ?v t ?cl] by (auto simp: at_rest_def split: list.splits)
  have "set (event_request ev) \<subseteq> set (outstanding ?v t)" using w(1) by (metis Un_upper1 set_append)
  with one have client: "\<forall>x \<in> set (event_request ev). \<forall>len. fst x \<noteq> Req_Read len" by blast
  obtain go t' w' where run: "sys_round L ch ev t w = Inr (go, t', w')"
    and it: "iter_post (\<lambda>w. n_taken (view w)) ch ev t w go t' w'"
    and rp: "round_post L view route ch ev t (view w) go t' (view w')"
    using using_round [OF laws wired ok _ client, of w] one w(1) by auto
  have routes: "route (c_stream_read ch) = rs_receiver (cl_recv ?cl)"
    "route (c_dgram_read ch) = rd_read_receiver (cl_rdgram ?cl)"
    using wired by (simp_all add: wired_def)
  have go: "go" using rp up w(2,3) by (simp add: round_post_def Let_def)
  from rp w(2) have fr: "n_peer (view w') = n_peer ?v" "n_open (view w')" "idle (view w')"
    using up idle by (simp_all add: round_post_def Let_def task_frame_def idle_def)
  have st: "settles (outstanding ?v t) ?v (outstanding (view w') t') (view w')"
    using rp w(1,2) by (simp add: round_post_def Let_def settles_def)
  have zeros': "\<forall>b \<in> set (n_chan (view w') (rd_read_receiver (cl_rdgram ?cl))). b = replicate 1300 0"
    "\<forall>b \<in> set (n_chan (view w') (rs_receiver (cl_recv ?cl))). b = replicate 1300 0"
    using rp w(2) zeros unfolding round_post_def Let_def routes by auto
  have ph': "case y_todo s of [] \<Rightarrow> at_rest (view w') t' ?cl | op # _ \<Rightarrow> op_phase (view w') t' ?cl op"
    using ph st fr(1) by (auto intro: at_rest_settles op_phase_settles split: list.splits)
  have con: "conserves (c_dgram_write ch) (view w) (view w')" using rp by (simp add: round_post_def Let_def)
  from round_pipeline [OF it con] w(2) obtain a where
    a: "a @ pipeline t' @ n_chan (view w') (c_dgram_write ch) = pipeline t @ n_chan ?v (c_dgram_write ch)" by simp
  from dg obtain acked where "acked @ pipeline t @ n_chan ?v (c_dgram_write ch) @ dgrams (y_todo s) = dgrams script" by blast
  then have "(acked @ a) @ pipeline t' @ n_chan (view w') (c_dgram_write ch) @ dgrams (y_todo s) = dgrams script"
    using a by (metis append_assoc)
  then have dg': "\<exists>acked. acked @ pipeline t' @ n_chan (view w') (c_dgram_write ch) @ dgrams (y_todo s) = dgrams script" ..
  have ok': "task_ok t'" using it by (simp add: iter_post_def)
  have "using_inv view ch script (s\<lparr>y_task := Running t', y_world := w'\<rparr>) t'"
    using ok' fr zeros' ph' fits dg' by (simp add: using_inv_def)
  with run rp it go show ?thesis by auto
qed

section \<open>Every move keeps the invariant\<close>

lemma dgrams_Cons: "dgrams (op # ops) = dgrams [op] @ dgrams ops"
  by (cases op) simp_all

lemma inv_client_polls:
  assumes laws: "net_laws view route filled L" and inv: "sys_inv view route ch script s"
    and ph: "y_phase s = Using" and todo: "y_todo s = op # ops"
  shows "\<exists>q op' cl' w'. client_poll L cx op (y_client s) (y_world s) = Some (Inr (q, op', cl', w')) \<and>
    (\<exists>t. y_task s = Running t \<and> client_post route (view (y_world s)) t (y_client s) op q op' cl' (view w')) \<and>
    sys_inv view route ch script
      (case q of
         Pending \<Rightarrow> s\<lparr>y_todo := op' # ops, y_client := cl', y_world := w'\<rparr>
       | Ready r \<Rightarrow> s\<lparr>y_todo := ops, y_results := y_results s @ [r], y_client := cl', y_world := w'\<rparr>)"
proof -
  let ?v = "view (y_world s)" and ?cl = "y_client s"
  from inv ph obtain t where t: "y_task s = Running t" and ui: "using_inv view ch script s t"
    and wired: "wired route ch ?cl" and rest: "y_panic s = None"
      "y_results s @ map expected (y_todo s) = map expected script"
    by (auto simp: sys_inv_def)
  from ui todo have st: "poll_ready_state view route filled L ch ?cl (y_world s)"
    and oph: "op_phase ?v t ?cl op" and fits: "op_fits op" "\<forall>op \<in> set ops. op_fits op" and ok: "task_ok t"
    and dg: "\<exists>acked. acked @ pipeline t @ n_chan ?v (c_dgram_write ch) @ dgrams (op # ops) = dgrams script"
    and chunks: "\<forall>b \<in> set (n_chan ?v (rs_receiver (cl_recv ?cl))). b = replicate 1300 0"
    using laws wired by (simp_all add: using_inv_def Let_def poll_ready_state_def)
  from client_poll_post [OF st oph fits(1)] obtain q op' cl' w' where
    run: "client_poll L cx op ?cl (y_world s) = Some (Inr (q, op', cl', w'))"
    and post: "client_post route ?v t ?cl op q op' cl' (view w')" by blast
  from post wired have wired': "wired route ch cl'" and same: "cl_rdgram cl' = cl_rdgram ?cl"
    "rs_receiver (cl_recv cl') = rs_receiver (cl_recv ?cl)"
    by (simp_all add: client_post_def same_handles_def wired_def)
  have dw: "route (wd_write_sender (cl_wdgram ?cl)) = c_dgram_write ch" using wired by (simp add: wired_def)
  have base: "task_ok t" "n_open (view w')" "idle (view w')"
    "\<forall>b \<in> set (n_chan (view w') (rd_read_receiver (cl_rdgram cl'))). b = replicate 1300 0"
    "\<forall>b \<in> set (n_chan (view w') (rs_receiver (cl_recv cl'))). b = replicate 1300 0"
    using post ok st chunks same by (auto simp: client_post_def Let_def poll_ready_state_def)
  have "sys_inv view route ch script
      (case q of
         Pending \<Rightarrow> s\<lparr>y_todo := op' # ops, y_client := cl', y_world := w'\<rparr>
       | Ready r \<Rightarrow> s\<lparr>y_todo := ops, y_results := y_results s @ [r], y_client := cl', y_world := w'\<rparr>)"
  proof (cases q)
    case Pending
    with post have p: "op_phase (view w') t cl' op'" "expected op' = expected op" "dgrams [op'] = dgrams [op]"
      "op_fits op'" "n_chan (view w') (c_dgram_write ch) = n_chan ?v (c_dgram_write ch)"
      using dw by (simp_all add: client_post_def Let_def)
    have "using_inv view ch script (s\<lparr>y_todo := op' # ops, y_client := cl', y_world := w'\<rparr>) t"
      using base p fits dg by (simp add: using_inv_def dgrams_Cons [of _ ops])
    with Pending rest t ph wired' todo p(2) show ?thesis by (simp add: sys_inv_def)
  next
    case (Ready r)
    with post have p: "at_rest (view w') t cl'" "r = expected op"
      "n_chan (view w') (c_dgram_write ch) = n_chan ?v (c_dgram_write ch) @ dgrams [op]"
      using dw by (simp_all add: client_post_def Let_def)
    have "case ops of [] \<Rightarrow> at_rest (view w') t cl' | o1 # _ \<Rightarrow> op_phase (view w') t cl' o1"
      using p(1) by (simp add: at_rest_phase split: list.splits)
    then have "using_inv view ch script
        (s\<lparr>y_todo := ops, y_results := y_results s @ [r], y_client := cl', y_world := w'\<rparr>) t"
      using base p fits dg by (simp add: using_inv_def dgrams_Cons [of op ops])
    with Ready rest t ph wired' todo p(2) show ?thesis by (simp add: sys_inv_def)
  qed
  with run post t show ?thesis by blast
qed

lemma inv_task_takes:
  assumes laws: "net_laws view route filled L" and inv: "sys_inv view route ch script s"
    and ph: "y_phase s = Using" and t: "y_task s = Running t"
    and recv: "poll_recv (l_requests L) rq cx (y_world s) = (Ready m, w)"
  shows "\<exists>x t' w'. m = Some x \<and> sys_round L ch (Request_Arrived m) t w = Inr (True, t', w') \<and>
    sys_inv view route ch script (s\<lparr>y_task := Running t', y_world := w'\<rparr>) \<and>
    round_post L view route ch (Request_Arrived m) t (view w) True t' (view w') \<and>
    iter_post (\<lambda>w. n_taken (view w)) ch (Request_Arrived m) t w True t' w' \<and>
    (\<exists>xs. n_requests (view (y_world s)) = x # xs \<and> view w = (view (y_world s))\<lparr>n_requests := xs\<rparr>)"
proof -
  from inv ph t have ui: "using_inv view ch script s t" and wired: "wired route ch (y_client s)"
    by (simp_all add: sys_inv_def)
  have "n_open (view (y_world s))" using ui by (simp add: using_inv_def Let_def)
  with request_lawsD(6) [OF net_lawsD(3) [OF laws] recv] obtain x xs where m: "m = Some x"
    and xs: "n_requests (view (y_world s)) = x # xs" "view w = (view (y_world s))\<lparr>n_requests := xs\<rparr>"
    by (cases m) auto
  have "event_request (Request_Arrived m) @ outstanding (view w) t = outstanding (view (y_world s)) t"
    using m xs by (simp add: outstanding_def)
  from using_inv_round [OF laws wired ui this xs(2)] m obtain t' w' where
    "sys_round L ch (Request_Arrived m) t w = Inr (True, t', w')"
    "using_inv view ch script (s\<lparr>y_task := Running t', y_world := w'\<rparr>) t'"
    "round_post L view route ch (Request_Arrived m) t (view w) True t' (view w')"
    "iter_post (\<lambda>w. n_taken (view w)) ch (Request_Arrived m) t w True t' w'" by auto
  with m xs inv ph show ?thesis by (auto simp: sys_inv_def)
qed

lemma inv_task_ticks:
  assumes laws: "net_laws view route filled L" and inv: "sys_inv view route ch script s"
    and ph: "y_phase s = Using" and t: "y_task s = Running t"
  shows "\<exists>t' w'. sys_round L ch Timer_Fired t (y_world s) = Inr (True, t', w') \<and>
    sys_inv view route ch script (s\<lparr>y_task := Running t', y_world := w'\<rparr>) \<and>
    round_post L view route ch Timer_Fired t (view (y_world s)) True t' (view w') \<and>
    iter_post (\<lambda>w. n_taken (view w)) ch Timer_Fired t (y_world s) True t' w'"
proof -
  from inv ph t have ui: "using_inv view ch script s t" and wired: "wired route ch (y_client s)"
    by (simp_all add: sys_inv_def)
  from using_inv_round [OF laws wired ui, of Timer_Fired "y_world s" "n_requests (view (y_world s))"]
  obtain t' w' where
    "sys_round L ch Timer_Fired t (y_world s) = Inr (True, t', w')"
    "using_inv view ch script (s\<lparr>y_task := Running t', y_world := w'\<rparr>) t'"
    "round_post L view route ch Timer_Fired t (view (y_world s)) True t' (view w')"
    "iter_post (\<lambda>w. n_taken (view w)) ch Timer_Fired t (y_world s) True t' w'" by auto
  with inv ph show ?thesis by (auto simp: sys_inv_def)
qed

text \<open>Once the readers are dropped, any round is the last one.\<close>

lemma joining_round:
  assumes laws: "net_laws view route filled L" and wired: "wired route ch (y_client s)"
    and inv: "joining_inv view s t" and w: "view w = view (y_world s)" and ev: "event_request ev = []"
  shows "\<exists>t' w'. sys_round L ch ev t w = Inr (False, t', w')"
proof -
  from inv w ev have "length (event_request ev @ outstanding (view w) t) \<le> 1" and ok: "task_ok t"
    by (simp_all add: joining_inv_def)
  from using_round [OF laws wired ok this(1)] ev obtain go t' w' where
    "sys_round L ch ev t w = Inr (go, t', w')" and "round_post L view route ch ev t (view w) go t' (view w')"
    by auto
  moreover have "n_closed (view w) (route (c_stream_read ch))"
    using inv w wired by (simp add: joining_inv_def wired_def)
  ultimately show ?thesis by (auto simp: round_post_def Let_def)
qed

lemma inv_client_drops:
  assumes laws: "net_laws view route filled L" and inv: "sys_inv view route ch script s"
    and move: "do_move L ch rq Client_Drops s = Some s'"
  shows "sys_inv view route ch script s'"
proof -
  from move have ph: "y_phase s = Using" and todo: "y_todo s = []" by (auto split: if_splits)
  with inv obtain t where t: "y_task s = Running t" and ui: "using_inv view ch script s t"
    by (auto simp: sys_inv_def)
  from ui todo have "task_ok t" and "outstanding (view (y_world s)) t = []"
    by (simp_all add: using_inv_def Let_def at_rest_def)
  moreover from move have s': "y_task s' = y_task s" "y_client s' = y_client s" "y_phase s' = Joining"
    "y_todo s' = y_todo s" "y_results s' = y_results s" "y_panic s' = y_panic s"
    "n_requests (view (y_world s')) = n_requests (view (y_world s))"
    "n_closed (view (y_world s')) (rs_receiver (cl_recv (y_client s)))"
    using net_lawsD(5) [OF laws] by (auto simp: drop_laws_def net_close_def split: if_splits)
  ultimately have "joining_inv view s' t" by (simp add: joining_inv_def outstanding_def)
  with inv t todo s' show ?thesis by (auto simp: sys_inv_def ph)
qed

text \<open>The invariant looks at a world through its view only.\<close>

lemma using_inv_view:
  "view w = view (y_world s) \<Longrightarrow> using_inv view ch script (s\<lparr>y_world := w\<rparr>) t = using_inv view ch script s t"
  by (simp add: using_inv_def)

lemma sys_inv_view:
  "view w = view (y_world s) \<Longrightarrow> sys_inv view route ch script (s\<lparr>y_world := w\<rparr>) = sys_inv view route ch script s"
  by (cases "y_phase s") (simp_all add: sys_inv_def using_inv_view joining_inv_def)

lemma sys_inv_move:
  assumes laws: "net_laws view route filled L" and inv: "sys_inv view route ch script s"
    and move: "do_move L ch rq m s = Some s'"
  shows "sys_inv view route ch script s'"
proof (cases m)
  case (Client_Polls cx)
  obtain op ops where todo: "y_todo s = op # ops"
    using move Client_Polls by (cases "y_todo s") (auto split: option.splits)
  with inv have ph: "y_phase s = Using" by (auto simp: sys_inv_def split: main_phase.splits)
  from inv_client_polls [OF laws inv ph todo, of cx] obtain q op' cl' w' where
    run: "client_poll L cx op (y_client s) (y_world s) = Some (Inr (q, op', cl', w'))"
    and s': "sys_inv view route ch script
      (case q of
         Pending \<Rightarrow> s\<lparr>y_todo := op' # ops, y_client := cl', y_world := w'\<rparr>
       | Ready r \<Rightarrow> s\<lparr>y_todo := ops, y_results := y_results s @ [r], y_client := cl', y_world := w'\<rparr>)" by blast
  have "y_panic s = None" using inv by (simp add: sys_inv_def)
  with move Client_Polls todo run s' show ?thesis by (cases q) auto
next
  case (Task_Takes cx)
  obtain t r w where t: "y_task s = Running t" and poll: "poll_recv (l_requests L) rq cx (y_world s) = (r, w)"
    using move Task_Takes by (auto split: conn_state.splits) (metis surj_pair)
  show ?thesis
  proof (cases r)
    case Pending
    with move Task_Takes t poll have "s' = s\<lparr>y_world := w\<rparr>" by simp
    moreover have "view w = view (y_world s)"
      using request_lawsD(6) [OF net_lawsD(3) [OF laws] poll] Pending by simp
    ultimately show ?thesis using inv by (simp add: sys_inv_view)
  next
    case (Ready x)
    with poll have recv: "poll_recv (l_requests L) rq cx (y_world s) = (Ready x, w)" by simp
    with move Task_Takes t have s': "s' = after_round L s (sys_round L ch (Request_Arrived x) t w)" by simp
    show ?thesis
    proof (cases "y_phase s")
      case Using
      from inv_task_takes [OF laws inv Using t recv] s' show ?thesis by auto
    next
      case Joining
      with inv t have j: "joining_inv view s t" and wired: "wired route ch (y_client s)" by (auto simp: sys_inv_def)
      from j have "n_requests (view (y_world s)) = []" by (simp add: joining_inv_def outstanding_def)
      with request_lawsD(6) [OF net_lawsD(3) [OF laws] recv] have "x = None" "view w = view (y_world s)"
        by (auto split: option.splits)
      with joining_round [OF laws wired j, of w "Request_Arrived x"] obtain t' w' where
        "sys_round L ch (Request_Arrived x) t w = Inr (False, t', w')" by auto
      with s' inv Joining show ?thesis by (auto simp: sys_inv_def)
    qed (use inv t in \<open>auto simp: sys_inv_def\<close>)
  qed
next
  case Task_Ticks
  obtain t where t: "y_task s = Running t" and s': "s' = after_round L s (sys_round L ch Timer_Fired t (y_world s))"
    using move Task_Ticks by (auto split: conn_state.splits)
  show ?thesis
  proof (cases "y_phase s")
    case Using
    from inv_task_ticks [OF laws inv Using t] s' show ?thesis by auto
  next
    case Joining
    with inv t have j: "joining_inv view s t" and wired: "wired route ch (y_client s)" by (auto simp: sys_inv_def)
    from joining_round [OF laws wired j refl, of Timer_Fired] s' inv Joining show ?thesis by (auto simp: sys_inv_def)
  qed (use inv t in \<open>auto simp: sys_inv_def\<close>)
next
  case Client_Drops
  with inv_client_drops [OF laws inv] move show ?thesis by simp
next
  case Client_Joins
  with move inv show ?thesis
    by (auto simp: sys_inv_def split: conn_state.splits if_splits main_phase.splits)
qed

lemma sys_reach_inv:
  assumes "net_laws view route filled L" and "sys_inv view route ch script s0"
    and "sys_reach L ch rq s0 s"
  shows "sys_inv view route ch script s"
  using assms(3) by induction (auto intro: assms(2) sys_inv_move [OF assms(1)])

text \<open>A program that has just been set up: nothing is in the channels yet.\<close>

definition fresh_start :: "('w \<Rightarrow> net) \<Rightarrow> (handle \<Rightarrow> handle) \<Rightarrow> task_chans \<Rightarrow> client \<Rightarrow> 'rb client_op list \<Rightarrow> 'w \<Rightarrow> bool" where
  "fresh_start view route ch cl script w \<longleftrightarrow> wired route ch cl \<and>
     ss_cmd_pending (cl_send cl) = Map.empty \<and> wd_cmd_pending (cl_wdgram cl) = Map.empty \<and>
     n_requests (view w) = [] \<and> (\<forall>h. n_chan (view w) h = []) \<and> idle (view w) \<and> n_open (view w) \<and>
     (\<forall>op \<in> set script. op_fits op)"

lemma sys_inv_start:
  assumes "fresh_start view route ch cl script w"
  shows "sys_inv view route ch script (main_start cl script w)"
proof -
  from assms have rest: "at_rest (view w) task_init cl"
    by (simp add: fresh_start_def at_rest_def outstanding_def task_init_def)
  have "pipeline task_init = []" by (simp add: pipeline_def task_init_def)
  then have "using_inv view ch script (main_start cl script w) task_init"
    using assms rest task_ok_init at_rest_phase [OF rest]
    by (auto simp: using_inv_def Let_def main_start_def fresh_start_def split: list.splits)
  with assms show ?thesis by (simp add: sys_inv_def main_start_def fresh_start_def)
qed

section \<open>The datagrams of a run\<close>

text \<open>
  What the network acknowledges in a run, by the moves of the run and the states they start in: a tick
  of the task acknowledges the oldest datagram in flight, no other move acknowledges anything.
\<close>

fun acked_by :: "move \<Rightarrow> ('w, 'rb) sys \<Rightarrow> bytes list" where
  "acked_by Task_Ticks s = (case y_task s of Running t \<Rightarrow> take 1 (elems (t_sent_dgrams t)) | _ \<Rightarrow> [])"
| "acked_by _ s = []"

fun acknowledged :: "('w, 'rb) libs \<Rightarrow> task_chans \<Rightarrow> handle \<Rightarrow> move list \<Rightarrow> ('w, 'rb) sys \<Rightarrow> bytes list" where
  "acknowledged L ch rq [] s = []"
| "acknowledged L ch rq (m # ms) s =
     acked_by m s @ (case do_move L ch rq m s of None \<Rightarrow> [] | Some s' \<Rightarrow> acknowledged L ch rq ms s')"

text \<open>The datagrams between the script and the acknowledgements, the oldest first.\<close>

definition on_the_way :: "('w \<Rightarrow> net) \<Rightarrow> task_chans \<Rightarrow> ('w, 'rb) sys \<Rightarrow> bytes list" where
  "on_the_way view ch s = (case y_task s of Running t \<Rightarrow> pipeline t | _ \<Rightarrow> []) @
     n_chan (view (y_world s)) (c_dgram_write ch) @ dgrams (y_todo s)"

lemma after_round_phase [simp]: "y_phase (after_round L s r) = y_phase s"
  by (cases "(L, s, r)" rule: after_round.cases) simp_all

lemma move_from_Using:
  assumes "do_move L ch rq m s = Some s'" and "y_phase s' = Using"
  shows "y_phase s = Using"
  using assms
  by (cases m) (auto split: option.splits list.splits sum.splits prod.splits poll.splits if_splits conn_state.splits)

lemma client_keeps_datagrams:
  assumes laws: "net_laws view route filled L" and inv: "sys_inv view route ch script s"
    and ph: "y_phase s = Using" and move: "do_move L ch rq (Client_Polls cx) s = Some s'"
  shows "on_the_way view ch s' = on_the_way view ch s"
proof -
  obtain op ops where todo: "y_todo s = op # ops"
    using move by (cases "y_todo s") (auto split: option.splits)
  from inv_client_polls [OF laws inv ph todo, of cx] obtain q op' cl' w' t where
    run: "client_poll L cx op (y_client s) (y_world s) = Some (Inr (q, op', cl', w'))"
    and t: "y_task s = Running t"
    and post: "client_post route (view (y_world s)) t (y_client s) op q op' cl' (view w')" by blast
  have "y_panic s = None" and dw: "route (wd_write_sender (cl_wdgram (y_client s))) = c_dgram_write ch"
    using inv by (simp_all add: sys_inv_def wired_def)
  with move todo run post t show ?thesis
    by (cases q) (auto simp: on_the_way_def client_post_def Let_def dgrams_Cons [of _ ops])
qed

lemma task_keeps_datagrams:
  assumes it: "iter_post (\<lambda>w. n_taken (view w)) ch ev t w go t' w'"
    and rp: "round_post L view route ch ev t (view w) go t' (view w')"
    and w: "n_chan (view w) = n_chan (view (y_world s))" and t: "y_task s = Running t"
  shows "(if ev = Timer_Fired then take 1 (elems (t_sent_dgrams t)) else []) @
    on_the_way view ch (s\<lparr>y_task := Running t', y_world := w'\<rparr>) = on_the_way view ch s"
proof -
  have "conserves (c_dgram_write ch) (view w) (view w')" using rp by (simp add: round_post_def Let_def)
  from round_pipeline [OF it this] w t show ?thesis by (simp add: on_the_way_def flip: append_assoc)
qed

lemma move_keeps_datagrams:
  assumes laws: "net_laws view route filled L" and inv: "sys_inv view route ch script s"
    and move: "do_move L ch rq m s = Some s'" and use: "y_phase s' = Using"
  shows "acked_by m s @ on_the_way view ch s' = on_the_way view ch s"
proof -
  have ph: "y_phase s = Using" by (rule move_from_Using [OF move use])
  with inv obtain t where t: "y_task s = Running t" by (auto simp: sys_inv_def)
  show ?thesis
  proof (cases m)
    case (Client_Polls cx)
    with client_keeps_datagrams [OF laws inv ph] move show ?thesis by simp
  next
    case (Task_Takes cx)
    obtain r w where poll: "poll_recv (l_requests L) rq cx (y_world s) = (r, w)" by (metis surj_pair)
    show ?thesis
    proof (cases r)
      case Pending
      with request_lawsD(6) [OF net_lawsD(3) [OF laws] poll] move Task_Takes t poll show ?thesis
        by (auto simp: on_the_way_def)
    next
      case (Ready x)
      with inv_task_takes [OF laws inv ph t] poll obtain t' w' where
        "sys_round L ch (Request_Arrived x) t w = Inr (True, t', w')"
        "round_post L view route ch (Request_Arrived x) t (view w) True t' (view w')"
        "iter_post (\<lambda>w. n_taken (view w)) ch (Request_Arrived x) t w True t' w'"
        "n_chan (view w) = n_chan (view (y_world s))" by fastforce
      with task_keeps_datagrams [of view ch "Request_Arrived x" t w True t' w'] move Task_Takes t poll Ready
      show ?thesis by auto
    qed
  next
    case Task_Ticks
    from inv_task_ticks [OF laws inv ph t] obtain t' w' where
      "sys_round L ch Timer_Fired t (y_world s) = Inr (True, t', w')"
      "round_post L view route ch Timer_Fired t (view (y_world s)) True t' (view w')"
      "iter_post (\<lambda>w. n_taken (view w)) ch Timer_Fired t (y_world s) True t' w'" by blast
    with task_keeps_datagrams [of view ch Timer_Fired t "y_world s" True t' w'] move Task_Ticks t
    show ?thesis by auto
  qed (use move use t in \<open>auto split: if_splits\<close>)
qed

lemma moves_from_Using: "do_moves L ch rq ms s = Some s' \<Longrightarrow> y_phase s' = Using \<Longrightarrow> y_phase s = Using"
  by (induction ms arbitrary: s) (auto simp del: do_move.simps split: Option.bind_splits intro: move_from_Using)

lemma moves_keep_datagrams:
  assumes laws: "net_laws view route filled L" and "sys_inv view route ch script s"
    and "do_moves L ch rq ms s = Some s'" and "y_phase s' = Using"
  shows "acknowledged L ch rq ms s @ on_the_way view ch s' = on_the_way view ch s"
  using assms(2-)
proof (induction ms arbitrary: s)
  case (Cons m ms)
  then obtain s1 where s1: "do_move L ch rq m s = Some s1" and rest: "do_moves L ch rq ms s1 = Some s'"
    by (auto simp del: do_move.simps split: Option.bind_splits)
  have "acknowledged L ch rq ms s1 @ on_the_way view ch s' = on_the_way view ch s1"
    by (rule Cons.IH [OF sys_inv_move [OF laws Cons.prems(1) s1] rest Cons.prems(3)])
  moreover have "acked_by m s @ on_the_way view ch s1 = on_the_way view ch s"
    by (rule move_keeps_datagrams [OF laws Cons.prems(1) s1 moves_from_Using [OF rest Cons.prems(3)]])
  ultimately show ?case using s1 by (simp del: do_move.simps)
qed simp

end
