(* ===== verification/System_Live.thy ===== *)
theory System_Live
  imports System_Correct
begin

text \<open>
  The script of \<open>main\<close> comes to its end.  The schedule is one turn of the task, with the request if one
  is there and with a timer tick otherwise, and then one poll of the client, over and over.  A poll may
  be pending without a cause in any round, but not in all from some round on; the datagrams of the
  script fit the initial window.
\<close>

section \<open>The schedule\<close>

definition task_turn :: "('w \<Rightarrow> net) \<Rightarrow> ('w, 'rb) libs \<Rightarrow> task_chans \<Rightarrow> handle \<Rightarrow> waker \<Rightarrow> ('w, 'rb) sys
    \<Rightarrow> ('w, 'rb) sys" where
  "task_turn view L ch rq ct s =
     (case do_move L ch rq (if n_requests (view (y_world s)) = [] then Task_Ticks else Task_Takes ct) s of
        Some s1 \<Rightarrow> s1
      | None \<Rightarrow> s)"

definition client_turn :: "('w, 'rb) libs \<Rightarrow> task_chans \<Rightarrow> handle \<Rightarrow> waker \<Rightarrow> ('w, 'rb) sys \<Rightarrow> ('w, 'rb) sys" where
  "client_turn L ch rq cx s = (case do_move L ch rq (Client_Polls cx) s of Some s1 \<Rightarrow> s1 | None \<Rightarrow> s)"

definition fair_round :: "('w \<Rightarrow> net) \<Rightarrow> ('w, 'rb) libs \<Rightarrow> task_chans \<Rightarrow> handle \<Rightarrow> waker \<Rightarrow> waker \<Rightarrow> ('w, 'rb) sys
    \<Rightarrow> ('w, 'rb) sys" where
  "fair_round view L ch rq ct cx s = client_turn L ch rq cx (task_turn view L ch rq ct s)"

text \<open>The polls of a round are served when the worlds of its two turns are.\<close>

definition served_round :: "('w \<Rightarrow> net) \<Rightarrow> (handle \<Rightarrow> handle) \<Rightarrow> ('w, 'rb) libs \<Rightarrow> task_chans \<Rightarrow> handle
    \<Rightarrow> waker \<Rightarrow> ('w, 'rb) sys \<Rightarrow> bool" where
  "served_round view route L ch rq ct s \<longleftrightarrow> served view route L (y_world s) \<and>
     served view route L (y_world (task_turn view L ch rq ct s))"

lemma fair_round_reach: "sys_reach L ch rq s0 s \<Longrightarrow> sys_reach L ch rq s0 (fair_round view L ch rq ct cx s)"
  unfolding fair_round_def task_turn_def client_turn_def
  by (auto simp del: do_move.simps split: option.splits intro: sys_reach.move)

lemma fair_rounds_reach: "sys_reach L ch rq s ((fair_round view L ch rq ct cx ^^ n) s)"
  by (induction n) (auto intro: sys_reach.start fair_round_reach)

section \<open>The task's part of a round\<close>

text \<open>
  With room for what is in the application's channel the receive loop ends on an empty channel, so it
  leaves no datagram waiting and no flush unanswered.
\<close>

lemma recv_loop_drains:
  assumes bl: "byte_laws view route L" and rl: "request_laws view L"
    and "recv_loop (l_cells L) (l_rx L) h t w = (t', w')" and "t_waiting t = None"
    and "length (elems (t_write_dgrams t)) + length (n_chan (view w) h) \<le> MAX_SEND_DGRAMS"
  shows "t_waiting t' = None \<and> t_flush_notifiers t' = []"
  using assms(3-)
proof (induction "length (n_chan (view w) h)" arbitrary: t w)
  case 0
  obtain r w1 where recv: "try_recv (l_rx L) h w = (r, w1)" by (cases "try_recv (l_rx L) h w")
  from byte_lawsD(5) [OF bl recv] 0(1) obtain e where "r = Inl e" by (cases r) auto
  with 0 recv show ?case by (auto simp: recv_loop.simps [of "l_cells L" "l_rx L" h t w])
next
  case (Suc n)
  obtain r w1 where recv: "try_recv (l_rx L) h w = (r, w1)" by (cases "try_recv (l_rx L) h w")
  from byte_lawsD(5) [OF bl recv] Suc(2) obtain b where r: "r = Inr b"
    and v1: "view w1 = net_take h (view w)" by (cases r) auto
  let ?w2 = "notify_all (l_cells L) Resp_WriteDgramReady (t_ready_notifiers t) w1"
  let ?t2 = "t\<lparr>t_ready_notifiers := [], t_write_dgrams := vd_push_back (t_write_dgrams t) b\<rparr>"
  have chan: "n_chan (view ?w2) h = tl (n_chan (view w) h)"
    using notify_all_frame [where obs = "\<lambda>w. n_chan (view w) h" and OS = "l_cells L"
        and r = Resp_WriteDgramReady and txs = "t_ready_notifiers t" and w = w1]
      request_lawsD(5) [OF rl] v1 by (simp add: net_take_def)
  have room: "length (elems (t_write_dgrams t)) < MAX_SEND_DGRAMS" using Suc(2,5) by simp
  have run: "recv_loop (l_cells L) (l_rx L) h ?t2 ?w2 = (t', w')"
    using Suc(3) recv r room by (simp add: recv_loop.simps [of "l_cells L" "l_rx L" h t w] Let_def deque.count_items)
  show ?case
    using Suc(1) [OF _ run] Suc(2,4,5) chan by simp
qed

lemma task_iter_drains:
  assumes laws: "net_laws view route filled L" and run: "sys_round L ch ev t w = Inr (True, t', w')"
    and wait: "t_waiting t = None"
    and room: "length (elems (t_write_dgrams t)) + length (n_chan (view w) (c_dgram_write ch)) \<le> MAX_SEND_DGRAMS"
    and one: "length (event_request ev @ outstanding (view w) t) \<le> 1"
    and client: "\<forall>x \<in> set (event_request ev). \<forall>len. fst x \<noteq> Req_Read len"
  shows "t_waiting t' = None \<and> t_flush_notifiers t' = []"
proof -
  note rl = net_lawsD(3) [OF laws] and bl = net_lawsD(4) [OF laws]
  obtain go1 t1 w1 where sel: "on_select (l_bytes L) (l_cells L) ev t w = Inr (go1, t1, w1)"
    using run by (cases "on_select (l_bytes L) (l_cells L) ev t w") (auto simp: task_iter_def)
  note sv = on_select_view [OF rl sel one client]
  have go1: "go1" using run sel by (cases go1) (auto simp: task_iter_def)
  have prom: "promote_waiting t1 = t1" using sv wait by (simp add: promote_waiting_def)
  obtain t2 w2 where rl2: "recv_loop (l_cells L) (l_rx L) (c_dgram_write ch) t1 w1 = (t2, w2)"
    by (cases "recv_loop (l_cells L) (l_rx L) (c_dgram_write ch) t1 w1")
  have "recv_phase (l_cells L) (l_rx L) (c_dgram_write ch) (promote_waiting t1) w1 = (t2, w2)"
    using prom rl2 sv wait by (simp add: recv_phase_def)
  with run sel go1 obtain t3 where "send_loop t2 = Inr t3" and t': "t' = t3"
    by (auto simp: task_iter_def split: sum.splits prod.splits if_splits bool.splits)
  with send_loop_post [of t2] have "t_waiting t' = t_waiting t2" "t_flush_notifiers t' = t_flush_notifiers t2"
    by (auto simp: send_post_def)
  moreover have "t_waiting t1 = None"
    and "length (elems (t_write_dgrams t1)) + length (n_chan (view w1) (c_dgram_write ch)) \<le> MAX_SEND_DGRAMS"
    using sv wait room by (simp_all add: task_frame_def)
  from recv_loop_drains [OF bl rl rl2 this] have "t_waiting t2 = None \<and> t_flush_notifiers t2 = []" .
  ultimately show ?thesis by simp
qed

section \<open>The client's part of a round\<close>

lemma servedD:
  assumes "served view route L w"
  shows "n_requests (view w) = [] \<Longrightarrow> idle (view w) \<Longrightarrow> poll_reserve (l_cmd L) h cx w \<noteq> (Pending, w')"
    and "n_peer (view w) rx = Some tx \<Longrightarrow> n_cells (view w) tx = Some (Some r) \<Longrightarrow>
      poll_oneshot (l_cells L) rx cx w \<noteq> Inr (Pending, w')"
    and "n_requests (view w) \<noteq> [] \<Longrightarrow> poll_recv (l_requests L) h cx w \<noteq> (Pending, w')"
    and "n_chan (view w) (route h) = [] \<Longrightarrow> idle (view w) \<Longrightarrow> poll_reserve (l_data L) h cx w \<noteq> (Pending, w')"
    and "n_chan (view w) h \<noteq> [] \<Longrightarrow> poll_recv (l_rx L) h cx w \<noteq> (Pending, w')"
  using assms unfolding served_def idle_def by (metis fst_conv)+

text \<open>A pending command is as far as before, and further when it was served with nothing outstanding.\<close>

fun sent_rank :: "command option \<Rightarrow> nat" where
  "sent_rank (Some (State1 _)) = 0"
| "sent_rank _ = 1"

lemma exec_progress:
  assumes up: "n_open (view w)" and idle: "idle (view w)" and ph: "cmd_phase (view w) t req c"
    and run: "poll_execute (l_cmd L) (l_cells L) c h cx w = Inr (Pending, c', w')"
  shows "sent_rank (Some c') \<le> sent_rank (Some c) \<and>
    (served view route L w \<longrightarrow> outstanding (view w) t = [] \<longrightarrow> sent_rank (Some c') < sent_rank (Some c))"
proof (cases c)
  case (State1 rx)
  with run have poll: "poll_oneshot (l_cells L) rx cx w = Inr (Pending, w')" and "c' = State1 rx"
    by (auto split: sum.splits prod.splits poll.splits)
  moreover have "\<not> served view route L w" if out: "outstanding (view w) t = []"
  proof -
    from ph out State1 obtain tx r where "n_peer (view w) rx = Some tx" "n_cells (view w) tx = Some (Some r)" by auto
    with poll servedD(2) [of view route L w rx tx r] show ?thesis by blast
  qed
  ultimately show ?thesis using State1 by auto
next
  case (State0 m)
  have "\<exists>rx. c' = State1 rx" if sv: "served view route L w" and out: "outstanding (view w) t = []"
  proof -
    have "n_requests (view w) = []" using out by (simp add: outstanding_def)
    note np = servedD(1) [OF sv this idle]
    show ?thesis using run np State0 by (auto split: sum.splits prod.splits poll.splits option.splits)
  qed
  moreover have "sent_rank (Some c') \<le> 1" by (cases c') simp_all
  ultimately show ?thesis using State0 by auto
qed (use ph in simp)

text \<open>How far an operation is: the bytes a read still lacks, whether a request was sent.\<close>

fun op_rank :: "('w, 'rb) libs \<Rightarrow> client \<Rightarrow> 'rb client_op \<Rightarrow> nat" where
  "op_rank L cl (Do_Write key _) = sent_rank (ss_cmd_pending (cl_send cl) key)"
| "op_rank L cl (Do_Read rb) = remaining (l_buf L) rb"
| "op_rank L cl (Do_Flush key) = sent_rank (wd_cmd_pending (cl_wdgram cl) key)"
| "op_rank L cl _ = 0"

text \<open>
  The operations that hand over a datagram have not asked for room: they found some at once, and at
  most the reservation was pending.
\<close>

fun not_asked :: "client \<Rightarrow> 'rb client_op \<Rightarrow> bool" where
  "not_asked cl (Do_Write_Chunk key _) =
     (wd_cmd_pending (cl_wdgram cl) = Map.empty \<or> wd_cmd_pending (cl_wdgram cl) = [key \<mapsto> Terminated])"
| "not_asked cl (Do_Feed key _) =
     (wd_cmd_pending (cl_wdgram cl) = Map.empty \<or> wd_cmd_pending (cl_wdgram cl) = [key \<mapsto> Terminated])"
| "not_asked cl _ = True"

lemma map_poll_Pending [simp]: "map_poll f q = Pending \<longleftrightarrow> q = Pending" "Pending = map_poll f q \<longleftrightarrow> q = Pending"
  by (cases q; simp)+

lemma at_rest_not_asked: "at_rest v t cl \<Longrightarrow> not_asked cl op"
  by (cases op) (simp_all add: at_rest_def)

text \<open>
  What a pending poll leaves: it takes nothing back, and it is a step forward where it was served with
  the answers given and the channels filled.
\<close>

definition poll_progress :: "('w \<Rightarrow> net) \<Rightarrow> (handle \<Rightarrow> handle) \<Rightarrow> ('w, 'rb) libs \<Rightarrow> task \<Rightarrow> client \<Rightarrow> 'rb client_op
    \<Rightarrow> 'w \<Rightarrow> client \<Rightarrow> 'rb client_op \<Rightarrow> bool" where
  "poll_progress view route L t cl op w cl' op' \<longleftrightarrow> not_asked cl' op' \<and>
     op_rank L cl' op' \<le> op_rank L cl op \<and>
     (served view route L w \<longrightarrow> outstanding (view w) t = [] \<longrightarrow>
      n_chan (view w) (rs_receiver (cl_recv cl)) \<noteq> [] \<longrightarrow>
      n_chan (view w) (rd_read_receiver (cl_rdgram cl)) \<noteq> [] \<longrightarrow>
      op_rank L cl' op' < op_rank L cl op)"

lemma write_progress:
  assumes st: "poll_ready_state view route filled L ch cl w"
    and ph: "op_phase (view w) t cl (Do_Write key buf)" and fits: "op_fits (Do_Write key buf)"
    and run: "client_poll L cx (Do_Write key buf) cl w = Some (Inr (Pending, op', cl', w'))"
  shows "poll_progress view route L t cl (Do_Write key buf) w cl' op'"
proof -
  note s = poll_ready_stateD [OF st]
  let ?c = "case ss_cmd_pending (cl_send cl) key of None \<Rightarrow> State0 (Some (Req_Write buf)) | Some c \<Rightarrow> c"
  have len: "length buf \<le> isize_max" using fits by simp
  from ph have c: "cmd_phase (view w) t (Req_Write buf) ?c"
    using slot_phase_command [of "cmd_phase (view w) t (Req_Write buf)" _ key _ "State0 (Some (Req_Write buf))"]
    by fastforce
  from run obtain q tbl where
    ex: "table_exec (\<lambda>c. poll_execute (l_cmd L) (l_cells L) c (ss_sender (cl_send cl)))
        (State0 (Some (Req_Write buf))) key (ss_cmd_pending (cl_send cl)) cx w = Inr (q, tbl, w')"
    and "write_answer q = Inr Pending" and op': "op' = Do_Write key buf"
    and cl': "cl' = cl\<lparr>cl_send := (cl_send cl)\<lparr>ss_cmd_pending := tbl\<rparr>\<rparr>"
    by (auto simp: poll_write_table [OF s(1) len] split: sum.splits prod.splits)
  then have q: "q = Pending" by (simp add: write_answer_Pending)
  from ex q obtain c' where
    pe: "poll_execute (l_cmd L) (l_cells L) ?c (ss_sender (cl_send cl)) cx w = Inr (Pending, c', w')"
    and tbl: "tbl = (ss_cmd_pending (cl_send cl))(key \<mapsto> c')"
    by (auto simp: table_exec_def split: sum.splits)
  have "sent_rank (Some ?c) = sent_rank (ss_cmd_pending (cl_send cl) key)" by (simp split: option.splits)
  with exec_progress [where view = view and route = route and w = w, OF s(6,7) c pe] tbl op' cl' show ?thesis
    by (simp add: poll_progress_def)
qed

lemma flush_progress:
  assumes st: "poll_ready_state view route filled L ch cl w" and ph: "op_phase (view w) t cl (Do_Flush key)"
    and run: "client_poll L cx (Do_Flush key) cl w = Some (Inr (Pending, op', cl', w'))"
  shows "poll_progress view route L t cl (Do_Flush key) w cl' op'"
proof -
  note s = poll_ready_stateD [OF st]
  let ?fresh = "State0 (Some Req_WriteDgramFlush)"
  let ?c = "case wd_cmd_pending (cl_wdgram cl) key of None \<Rightarrow> ?fresh | Some c \<Rightarrow> c"
  from ph have c: "cmd_phase (view w) t Req_WriteDgramFlush ?c"
    using slot_phase_command [of "cmd_phase (view w) t Req_WriteDgramFlush" _ key _ ?fresh] by fastforce
  from run obtain c' where op': "op' = Do_Flush key"
    and pe: "poll_execute (l_cmd L) (l_cells L) ?c (wd_cmd_sender (cl_wdgram cl)) cx w = Inr (Pending, c', w')"
    and tbl: "wd_cmd_pending (cl_wdgram cl') = (wd_cmd_pending (cl_wdgram cl))(key \<mapsto> c')"
    by (auto simp: sink_poll_flush_def wd_poll_flush_def Let_def
        split: sum.splits prod.splits poll.splits response.splits option.splits if_splits)
  have "sent_rank (Some ?c) = sent_rank (wd_cmd_pending (cl_wdgram cl) key)" by (simp split: option.splits)
  with exec_progress [where view = view and route = route and w = w, OF s(6,7) c pe] tbl op' show ?thesis
    by (simp add: poll_progress_def)
qed

lemma read_progress:
  assumes st: "poll_ready_state view route filled L ch cl w"
    and chunks: "\<forall>b \<in> set (n_chan (view w) (rs_receiver (cl_recv cl))). b = replicate 1300 0"
    and run: "client_poll L cx (Do_Read rb) cl w = Some (Inr (Pending, op', cl', w'))"
  shows "poll_progress view route L t cl (Do_Read rb) w cl' op'"
proof -
  note s = poll_ready_stateD [OF st]
  let ?h = "rs_receiver (cl_recv cl)"
  from poll_read_view [OF s(1,2,4,6), of "cl_recv cl" cx rb] obtain r me' rb' w1 where
    pl: "poll_read (l_bytes L) (l_buf L) (l_rx L) (cl_recv cl) cx rb w = Some (Inr (r, me', rb', w1))"
    and rv: "read_view L view (cl_recv cl) cx w r me' w1"
    and mv: "read_moves L ?h 0 rb (view w) rb' (view w1)" by blast
  from run pl have r: "r = Pending" and op': "op' = Do_Read rb'" and w1: "w1 = w'" by auto
  have "remaining (l_buf L) rb' < remaining (l_buf L) rb"
    if "served view route L w" and full: "n_chan (view w) ?h \<noteq> []"
  proof -
    from rv r servedD(5) [OF that] have "length (n_chan (view w1) ?h) < length (n_chan (view w) ?h)"
      by (auto simp: read_view_def)
    moreover from full chunks have "hd (n_chan (view w) ?h) \<noteq> []" by (cases "n_chan (view w) ?h") auto
    ultimately show ?thesis using mv by (auto simp: read_moves_def)
  qed
  with mv op' show ?thesis by (simp add: poll_progress_def read_moves_def)
qed

lemma dgram_progress:
  assumes st: "poll_ready_state view route filled L ch cl w" and op: "op = Do_Read_Chunk \<or> op = Do_Next"
    and run: "client_poll L cx op cl w = Some (Inr (Pending, op', cl', w'))"
  shows "poll_progress view route L t cl op w cl' op'"
proof -
  note s = poll_ready_stateD [OF st]
  obtain r w1 where chunk: "poll_read_chunk (l_rx L) (cl_rdgram cl) cx w = (r, w1)" by (metis surj_pair)
  with run op have "r = Pending" and op': "op' = op"
    by (auto simp: read_chunk_poll_def poll_next_def split: poll.splits sum.splits)
  with poll_read_chunk_view [OF s(4,6) chunk] obtain w2 where
    "poll_recv (l_rx L) (rd_read_receiver (cl_rdgram cl)) cx w = (Pending, w2)" by auto
  with servedD(5) [of view route L w "rd_read_receiver (cl_rdgram cl)" cx w2]
  have "\<not> (served view route L w \<and> n_chan (view w) (rd_read_receiver (cl_rdgram cl)) \<noteq> [])" by blast
  with op op' show ?thesis by (auto simp: poll_progress_def)
qed

lemma send_progress:
  assumes st: "poll_ready_state view route filled L ch cl w" and room: "room_laws view route L"
    and asked: "not_asked cl op" and free: "n_chan (view w) (c_dgram_write ch) = []"
    and op: "op = Do_Write_Chunk key buf \<or> op = Do_Feed key buf"
    and run: "client_poll L cx op cl w = Some (Inr (Pending, op', cl', w'))"
  shows "poll_progress view route L t cl op w cl' op'"
proof -
  note s = poll_ready_stateD [OF st]
  let ?h = "wd_write_sender (cl_wdgram cl)" and ?me = "(cl_wdgram cl)\<lparr>wd_cmd_pending := [key \<mapsto> Terminated]\<rparr>"
  have dw: "route ?h = c_dgram_write ch" using s(5) by (simp add: wired_def)
  from byte_lawsD(3) [OF s(4,6)] obtain g where g: "get_ref (l_data L) ?h w = Some g" "route g = route ?h" by blast
  have cap: "0 < capacity (l_data L) g w" using room s(7) g(2) dw free unfolding room_laws_def idle_def by simp
  obtain r me' w1 where res: "ready_reserve (l_data L) key ?me cx w = (r, me', w1)" by (metis surj_pair)
  have tbl: "wd_cmd_pending (cl_wdgram cl) = Map.empty \<or> wd_cmd_pending (cl_wdgram cl) = [key \<mapsto> Terminated]"
    using asked op by auto
  have ready: "wd_poll_ready (l_cmd L) (l_cells L) (l_data L) key (cl_wdgram cl) cx w = Inr (r, me', w1)"
    using tbl
  proof
    assume "wd_cmd_pending (cl_wdgram cl) = Map.empty"
    with g(1) cap res show ?thesis by (simp add: wd_poll_ready_def ready_entry_def)
  next
    assume "wd_cmd_pending (cl_wdgram cl) = [key \<mapsto> Terminated]"
    with res show ?thesis by (simp add: wd_poll_ready_def ready_entry_def wd_pending_same)
  qed
  from run ready op have r: "r = Pending" and cl': "op' = op" "cl_wdgram cl' = me'"
    by (auto simp: poll_write_chunk_def sink_poll_ready_def split: poll.splits sum.splits prod.splits)
  from res r have "poll_reserve (l_data L) ?h cx w = (Pending, w1)" and "me' = ?me"
    by (auto simp: ready_reserve_def split: prod.splits poll.splits sum.splits)
  moreover from this(1) have "\<not> served view route L w" using servedD(4) dw free s(7) by metis
  ultimately show ?thesis using op cl' by (auto simp: poll_progress_def)
qed

text \<open>A request in the channel is then one of the other two kinds.\<close>

lemma single_map_eq [simp]: "[k \<mapsto> c] = [k \<mapsto> d] \<longleftrightarrow> c = d"
  by (metis fun_upd_same option.inject)

lemma not_asked_rest:
  assumes "op_phase v t cl op" and "not_asked cl op" and "op = Do_Write_Chunk key buf \<or> op = Do_Feed key buf"
  shows "outstanding v t = []"
  using assms by (auto simp: slot_phase_def ready_phase_def)

lemma client_progress:
  assumes st: "poll_ready_state view route filled L ch cl w" and room: "room_laws view route L"
    and ph: "op_phase (view w) t cl op" and fits: "op_fits op" and asked: "not_asked cl op"
    and free: "n_chan (view w) (c_dgram_write ch) = [] \<or> outstanding (view w) t \<noteq> []"
    and chunks: "\<forall>b \<in> set (n_chan (view w) (rs_receiver (cl_recv cl))). b = replicate 1300 0"
    and run: "client_poll L cx op cl w = Some (Inr (Pending, op', cl', w'))"
  shows "poll_progress view route L t cl op w cl' op'"
proof (cases op)
  case (Do_Write key buf)
  with write_progress [OF st] ph fits run show ?thesis by blast
next
  case (Do_Read rb)
  with read_progress [OF st chunks] run show ?thesis by blast
next
  case (Do_Flush key)
  with flush_progress [OF st] ph run show ?thesis by blast
next
  case (Do_Write_Chunk key buf)
  with not_asked_rest [OF ph asked] send_progress [OF st room asked _ _ run] free show ?thesis by blast
next
  case (Do_Feed key buf)
  with not_asked_rest [OF ph asked] send_progress [OF st room asked _ _ run] free show ?thesis by blast
qed (use dgram_progress [OF st _ run] in blast)+

section \<open>One round\<close>

definition live_inv :: "('w \<Rightarrow> net) \<Rightarrow> task_chans \<Rightarrow> ('w, 'rb) sys \<Rightarrow> bool" where
  "live_inv view ch s \<longleftrightarrow> y_phase s = Using \<and>
     (\<exists>t. y_task s = Running t \<and> t_waiting t = None \<and> elems (t_write_dgrams t) = [] \<and>
        length (n_chan (view (y_world s)) (c_dgram_write ch)) \<le> 1) \<and>
     (case y_todo s of [] \<Rightarrow> True | op # _ \<Rightarrow> not_asked (y_client s) op)"

text \<open>A window that admits everything leaves nothing in the queue.\<close>

lemma queue_sent:
  assumes ok: "task_ok t" and pipe: "total_len (pipeline t) \<le> 10000"
    and head: "case elems (t_write_dgrams t) of [] \<Rightarrow> True | v # _ \<Rightarrow> t_cwnd t < length v"
  shows "elems (t_write_dgrams t) = []"
proof (cases "elems (t_write_dgrams t)")
  case (Cons v vs)
  with pipe have "total_len (elems (t_sent_dgrams t)) + length v \<le> 10000" by (simp add: pipeline_def)
  with ok head Cons show ?thesis by (simp add: task_ok_def)
qed

lemma using_inv_pipeline:
  assumes "using_inv view ch script s t" and "total_len (dgrams script) \<le> 10000"
  shows "total_len (pipeline t) \<le> 10000"
proof -
  from assms(1) have "\<exists>acked. acked @ pipeline t @ n_chan (view (y_world s)) (c_dgram_write ch) @ dgrams (y_todo s)
      = dgrams script"
    by (simp add: using_inv_def Let_def)
  then obtain acked where
    "acked @ pipeline t @ n_chan (view (y_world s)) (c_dgram_write ch) @ dgrams (y_todo s) = dgrams script" ..
  from arg_cong [OF this, of total_len] assms(2) show ?thesis by simp
qed

text \<open>
  The state between the task's turn and the client's turn: the task has answered and filled the
  channels, or its receive was not served and a request is still on its way.
\<close>

definition mid_inv :: "('w \<Rightarrow> net) \<Rightarrow> task_chans \<Rightarrow> ('w, 'rb) sys \<Rightarrow> ('w, 'rb) sys \<Rightarrow> bool" where
  "mid_inv view ch s s1 \<longleftrightarrow> (\<exists>t. y_task s1 = Running t \<and> t_waiting t = None \<and> elems (t_write_dgrams t) = [] \<and>
     outstanding (view (y_world s1)) t = [] \<and> n_chan (view (y_world s1)) (c_dgram_write ch) = [] \<and>
     n_chan (view (y_world s1)) (rs_receiver (cl_recv (y_client s1))) \<noteq> [] \<and>
     n_chan (view (y_world s1)) (rd_read_receiver (cl_rdgram (y_client s1))) \<noteq> []) \<and>
     y_todo s1 = y_todo s \<and> y_client s1 = y_client s \<and> y_phase s1 = y_phase s"

definition stalled :: "('w \<Rightarrow> net) \<Rightarrow> ('w, 'rb) sys \<Rightarrow> ('w, 'rb) sys \<Rightarrow> bool" where
  "stalled view s s1 \<longleftrightarrow> n_requests (view (y_world s)) \<noteq> [] \<and>
     (\<exists>w. s1 = s\<lparr>y_world := w\<rparr> \<and> view w = view (y_world s))"

lemma not_asked_request:
  assumes ph: "case todo of [] \<Rightarrow> at_rest v t cl | op # _ \<Rightarrow> op_phase v t cl op"
    and na: "case todo of [] \<Rightarrow> True | op # _ \<Rightarrow> not_asked cl op"
  shows "\<forall>x \<in> set (outstanding v t). fst x \<noteq> Req_WriteDgramReady"
proof (cases todo)
  case Nil
  with ph show ?thesis by (simp add: at_rest_def)
next
  case (Cons op ops)
  with ph na have oph: "op_phase v t cl op" and asked: "not_asked cl op" by simp_all
  show ?thesis
  proof (cases "\<exists>key buf. op = Do_Write_Chunk key buf \<or> op = Do_Feed key buf")
    case True
    with not_asked_rest [OF oph asked] have "outstanding v t = []" by blast
    then show ?thesis by simp
  next
    case False
    with oph show ?thesis by (cases op) (auto simp: slot_phase_def at_rest_def dest!: cmd_phase_one)
  qed
qed

lemma round_settled:
  assumes st: "settles (event_request ev @ outstanding v t) v (outstanding v' t') v'"
    and reqs: "n_requests v = []" "n_requests v' = []" and fl: "t_flush_notifiers t' = []"
    and noready: "\<forall>x \<in> set (event_request ev @ outstanding v t). fst x \<noteq> Req_WriteDgramReady"
  shows "outstanding v' t' = []"
proof -
  have "\<forall>x \<in> set (outstanding v' t'). fst x = Req_WriteDgramReady"
    using reqs fl by (auto simp: outstanding_def)
  moreover have "outstanding v' t' = [] \<or> outstanding v' t' = event_request ev @ outstanding v t"
    using st by (auto simp: settles_def)
  ultimately show ?thesis using noready by (metis hd_in_set)
qed

text \<open>A round of the task that has run: what was asked is answered and the channels are as they should be.\<close>

lemma round_mid:
  assumes laws: "net_laws view route filled L" and room: "room_laws view route L"
    and small: "total_len (dgrams script) \<le> 10000"
    and inv: "sys_inv view route ch script s" and live: "live_inv view ch s" and t: "y_task s = Running t"
    and run: "sys_round L ch ev t w = Inr (True, t', w')" and s1: "s1 = s\<lparr>y_task := Running t', y_world := w'\<rparr>"
    and inv1: "sys_inv view route ch script s1"
    and rp: "round_post L view route ch ev t (view w) True t' (view w')"
    and it: "iter_post (\<lambda>w. n_taken (view w)) ch ev t w True t' w'"
    and out: "event_request ev @ outstanding (view w) t = outstanding (view (y_world s)) t"
    and w: "view w = (view (y_world s))\<lparr>n_requests := []\<rparr>"
  shows "mid_inv view ch s s1"
proof -
  let ?v = "view (y_world s)"
  from live t have ph: "y_phase s = Using" and wait: "t_waiting t = None"
    and empty: "elems (t_write_dgrams t) = []" and chan: "length (n_chan ?v (c_dgram_write ch)) \<le> 1"
    and asked: "case y_todo s of [] \<Rightarrow> True | op # _ \<Rightarrow> not_asked (y_client s) op"
    by (auto simp: live_inv_def)
  from inv ph t have ui: "using_inv view ch script s t" and wired: "wired route ch (y_client s)"
    by (simp_all add: sys_inv_def)
  from ui have oph: "case y_todo s of [] \<Rightarrow> at_rest ?v t (y_client s) | op # _ \<Rightarrow> op_phase ?v t (y_client s) op"
    and idle: "idle ?v" by (simp_all add: using_inv_def Let_def)
  have one: "length (outstanding ?v t) \<le> 1 \<and> (\<forall>x \<in> set (outstanding ?v t). \<forall>len. fst x \<noteq> Req_Read len)"
    using oph op_phase_one [of ?v t "y_client s"] by (auto simp: at_rest_def split: list.splits)
  have len: "length (event_request ev @ outstanding (view w) t) \<le> 1" using out one by simp
  have "set (event_request ev) \<subseteq> set (outstanding ?v t)" using out by (metis Un_upper1 set_append)
  with one have client: "\<forall>x \<in> set (event_request ev). \<forall>len. fst x \<noteq> Req_Read len" by blast
  have "length (elems (t_write_dgrams t)) + length (n_chan (view w) (c_dgram_write ch)) \<le> MAX_SEND_DGRAMS"
    using empty chan w by (simp add: MAX_SEND_DGRAMS_def)
  from task_iter_drains [OF laws run wait this len client]
  have wait': "t_waiting t' = None" and flush': "t_flush_notifiers t' = []" by simp_all
  have idle_w: "idle (view w)" using idle w by (simp add: idle_def)
  have reqs: "n_requests (view w') = []" using rp w by (simp add: round_post_def Let_def task_frame_def)
  have chans: "n_chan (view w') (c_dgram_write ch) = []"
    "n_chan (view w') (rs_receiver (cl_recv (y_client s))) \<noteq> []"
    "n_chan (view w') (rd_read_receiver (cl_rdgram (y_client s))) \<noteq> []"
    using rp wait' room idle_w wired by (simp_all add: round_post_def Let_def wired_def)
  have "outstanding (view w') t' = []"
  proof (rule round_settled)
    show "settles (event_request ev @ outstanding (view w) t) (view w) (outstanding (view w') t') (view w')"
      using rp by (simp add: round_post_def Let_def)
    show "n_requests (view w) = []" using w by simp
  qed (use reqs flush' not_asked_request [OF oph asked] out in simp_all)
  moreover from inv1 s1 ph have "using_inv view ch script s1 t'" by (simp add: sys_inv_def)
  from using_inv_pipeline [OF this small] it have "elems (t_write_dgrams t') = []"
    by (intro queue_sent) (simp_all add: iter_post_def)
  ultimately show ?thesis using s1 wait' chans by (simp add: mid_inv_def)
qed

lemma task_part:
  assumes laws: "net_laws view route filled L" and room: "room_laws view route L"
    and small: "total_len (dgrams script) \<le> 10000"
    and inv: "sys_inv view route ch script s" and live: "live_inv view ch s"
    and s1: "s1 = task_turn view L ch rq ct s"
  shows "sys_inv view route ch script s1 \<and>
    (mid_inv view ch s s1 \<or> stalled view s s1 \<and> \<not> served view route L (y_world s))"
proof -
  let ?v = "view (y_world s)"
  from live obtain t where ph: "y_phase s = Using" and t: "y_task s = Running t" by (auto simp: live_inv_def)
  from inv ph t have ui: "using_inv view ch script s t" by (simp add: sys_inv_def)
  note mid = round_mid [OF laws room small inv live t]
  show ?thesis
  proof (cases "n_requests ?v")
    case Nil
    from inv_task_ticks [OF laws inv ph t] obtain t' w' where
      r: "sys_round L ch Timer_Fired t (y_world s) = Inr (True, t', w')"
        "sys_inv view route ch script (s\<lparr>y_task := Running t', y_world := w'\<rparr>)"
        "round_post L view route ch Timer_Fired t ?v True t' (view w')"
        "iter_post (\<lambda>w. n_taken (view w)) ch Timer_Fired t (y_world s) True t' w'" by blast
    with s1 t Nil have "s1 = s\<lparr>y_task := Running t', y_world := w'\<rparr>" by (simp add: task_turn_def)
    with mid [OF r(1) this _ r(3,4)] r(2) Nil show ?thesis by simp
  next
    case (Cons x xs)
    obtain q w where poll: "poll_recv (l_requests L) rq ct (y_world s) = (q, w)" by (metis surj_pair)
    show ?thesis
    proof (cases q)
      case Pending
      with s1 t Cons poll have s1': "s1 = s\<lparr>y_world := w\<rparr>" by (simp add: task_turn_def)
      moreover have vw: "view w = ?v" using request_lawsD(6) [OF net_lawsD(3) [OF laws] poll] Pending by simp
      moreover have "\<not> served view route L (y_world s)"
        using servedD(3) [of view route L "y_world s" rq ct w] poll Pending Cons by auto
      ultimately show ?thesis using inv Cons by (auto simp: sys_inv_view stalled_def)
    next
      case (Ready m)
      with poll have recv: "poll_recv (l_requests L) rq ct (y_world s) = (Ready m, w)" by simp
      from inv_task_takes [OF laws inv ph t recv] Cons obtain t' w' where
        r: "sys_round L ch (Request_Arrived m) t w = Inr (True, t', w')"
          "sys_inv view route ch script (s\<lparr>y_task := Running t', y_world := w'\<rparr>)"
          "round_post L view route ch (Request_Arrived m) t (view w) True t' (view w')"
          "iter_post (\<lambda>w. n_taken (view w)) ch (Request_Arrived m) t w True t' w'"
        and m: "m = Some x" and vw: "view w = ?v\<lparr>n_requests := xs\<rparr>" by auto
      have "xs = []" using ui op_phase_one [of ?v t "y_client s"] Cons
        by (auto simp: using_inv_def Let_def at_rest_def outstanding_def split: list.splits)
      moreover have "event_request (Request_Arrived m) @ outstanding (view w) t = outstanding ?v t"
        using m vw Cons by (simp add: outstanding_def)
      moreover have "s1 = s\<lparr>y_task := Running t', y_world := w'\<rparr>" using s1 t Cons recv r(1) by (simp add: task_turn_def)
      ultimately show ?thesis using mid [OF r(1) _ _ r(3,4)] r(2) vw by simp
    qed
  qed
qed

definition todo_rank :: "('w, 'rb) libs \<Rightarrow> ('w, 'rb) sys \<Rightarrow> nat" where
  "todo_rank L s = (case y_todo s of [] \<Rightarrow> 0 | op # _ \<Rightarrow> op_rank L (y_client s) op)"

lemma dgrams_one: "length (dgrams [op]) \<le> 1"
  by (cases op) simp_all

text \<open>What the client finds, after either kind of turn of the task.\<close>

definition before_poll :: "('w \<Rightarrow> net) \<Rightarrow> task_chans \<Rightarrow> ('w, 'rb) sys \<Rightarrow> task \<Rightarrow> bool" where
  "before_poll view ch s t \<longleftrightarrow> y_phase s = Using \<and> y_task s = Running t \<and> t_waiting t = None \<and>
     elems (t_write_dgrams t) = [] \<and> length (n_chan (view (y_world s)) (c_dgram_write ch)) \<le> 1 \<and>
     (n_chan (view (y_world s)) (c_dgram_write ch) = [] \<or> outstanding (view (y_world s)) t \<noteq> []) \<and>
     (case y_todo s of [] \<Rightarrow> True | op # _ \<Rightarrow> not_asked (y_client s) op)"

lemma mid_before_poll:
  assumes live: "live_inv view ch s" and mid: "mid_inv view ch s s1 \<or> stalled view s s1"
  shows "\<exists>t. before_poll view ch s1 t \<and> y_todo s1 = y_todo s \<and> y_client s1 = y_client s \<and>
    (mid_inv view ch s s1 \<longrightarrow> outstanding (view (y_world s1)) t = [] \<and>
      n_chan (view (y_world s1)) (rs_receiver (cl_recv (y_client s1))) \<noteq> [] \<and>
      n_chan (view (y_world s1)) (rd_read_receiver (cl_rdgram (y_client s1))) \<noteq> [])"
  using mid
proof
  assume mid: "mid_inv view ch s s1"
  then obtain t where "y_task s1 = Running t" "t_waiting t = None" "elems (t_write_dgrams t) = []"
    "outstanding (view (y_world s1)) t = []" "n_chan (view (y_world s1)) (c_dgram_write ch) = []"
    "n_chan (view (y_world s1)) (rs_receiver (cl_recv (y_client s1))) \<noteq> []"
    "n_chan (view (y_world s1)) (rd_read_receiver (cl_rdgram (y_client s1))) \<noteq> []"
    "y_todo s1 = y_todo s" "y_client s1 = y_client s" "y_phase s1 = y_phase s"
    by (auto simp: mid_inv_def)
  with live show ?thesis
    by (intro exI [of _ t]) (cases "y_todo s"; simp add: live_inv_def before_poll_def)
next
  assume st: "stalled view s s1"
  then have "n_requests (view (y_world s1)) \<noteq> []" by (auto simp: stalled_def)
  then have "\<not> mid_inv view ch s s1" by (auto simp: mid_inv_def outstanding_def)
  moreover obtain t where "y_task s = Running t" "t_waiting t = None" "elems (t_write_dgrams t) = []"
    "length (n_chan (view (y_world s)) (c_dgram_write ch)) \<le> 1" using live by (auto simp: live_inv_def)
  ultimately show ?thesis using st live
    by (intro exI [of _ t]) (cases "y_todo s"; auto simp: stalled_def live_inv_def before_poll_def outstanding_def)
qed

text \<open>The order of the rounds: operations left, then how far the first of them is.\<close>

definition left :: "('w, 'rb) libs \<Rightarrow> ('w, 'rb) sys \<Rightarrow> nat \<times> nat" where
  "left L s = (length (y_todo s), todo_rank L s)"

definition no_worse :: "nat \<times> nat \<Rightarrow> nat \<times> nat \<Rightarrow> bool" where
  "no_worse x y \<longleftrightarrow> x = y \<or> (x, y) \<in> less_than <*lex*> less_than"

lemma no_worse_refl [simp]: "no_worse x x"
  by (simp add: no_worse_def)

lemma no_worse_less:
  "no_worse x y \<Longrightarrow> x \<noteq> y \<Longrightarrow> no_worse y z \<Longrightarrow> (x, z) \<in> less_than <*lex*> less_than"
  by (cases x; cases y; cases z) (auto simp: no_worse_def)

lemma no_worse_trans: "no_worse x y \<Longrightarrow> no_worse y z \<Longrightarrow> no_worse x z"
  by (cases x; cases y; cases z) (auto simp: no_worse_def)

lemma client_part:
  assumes laws: "net_laws view route filled L" and room: "room_laws view route L"
    and inv: "sys_inv view route ch script s" and before: "before_poll view ch s t" and todo: "y_todo s = op # ops"
  shows "sys_inv view route ch script (client_turn L ch rq cx s) \<and> live_inv view ch (client_turn L ch rq cx s) \<and>
    no_worse (left L (client_turn L ch rq cx s)) (left L s) \<and>
    (served view route L (y_world s) \<longrightarrow> outstanding (view (y_world s)) t = [] \<longrightarrow>
     n_chan (view (y_world s)) (rs_receiver (cl_recv (y_client s))) \<noteq> [] \<longrightarrow>
     n_chan (view (y_world s)) (rd_read_receiver (cl_rdgram (y_client s))) \<noteq> [] \<longrightarrow>
     left L (client_turn L ch rq cx s) \<noteq> left L s)"
proof -
  from before todo have ph: "y_phase s = Using" and t: "y_task s = Running t" and wait: "t_waiting t = None"
    and empty: "elems (t_write_dgrams t) = []" and chan: "length (n_chan (view (y_world s)) (c_dgram_write ch)) \<le> 1"
    and free: "n_chan (view (y_world s)) (c_dgram_write ch) = [] \<or> outstanding (view (y_world s)) t \<noteq> []"
    and asked: "not_asked (y_client s) op"
    by (auto simp: before_poll_def)
  from inv_client_polls [OF laws inv ph todo, of cx] obtain q op' cl' w' where
    run: "client_poll L cx op (y_client s) (y_world s) = Some (Inr (q, op', cl', w'))"
    and post: "client_post route (view (y_world s)) t (y_client s) op q op' cl' (view w')"
    and inv2: "sys_inv view route ch script
      (case q of
         Pending \<Rightarrow> s\<lparr>y_todo := op' # ops, y_client := cl', y_world := w'\<rparr>
       | Ready r \<Rightarrow> s\<lparr>y_todo := ops, y_results := y_results s @ [r], y_client := cl', y_world := w'\<rparr>)"
    using t by auto
  have nopanic: "y_panic s = None" using inv by (simp add: sys_inv_def)
  have fr: "client_turn L ch rq cx s =
      (case q of
         Pending \<Rightarrow> s\<lparr>y_todo := op' # ops, y_client := cl', y_world := w'\<rparr>
       | Ready r \<Rightarrow> s\<lparr>y_todo := ops, y_results := y_results s @ [r], y_client := cl', y_world := w'\<rparr>)"
    unfolding client_turn_def using todo nopanic run by (cases q) simp_all
  from inv ph t have ui: "using_inv view ch script s t" and wired: "wired route ch (y_client s)"
    by (simp_all add: sys_inv_def)
  from ui todo have st: "poll_ready_state view route filled L ch (y_client s) (y_world s)"
    and oph: "op_phase (view (y_world s)) t (y_client s) op" and fits: "op_fits op"
    and chunks: "\<forall>b \<in> set (n_chan (view (y_world s)) (rs_receiver (cl_recv (y_client s)))). b = replicate 1300 0"
    using laws wired by (simp_all add: using_inv_def Let_def poll_ready_state_def)
  have dw: "n_chan (view w') (c_dgram_write ch) =
      n_chan (view (y_world s)) (c_dgram_write ch) @ (if q = Pending then [] else dgrams [op])"
    using post wired by (simp add: client_post_def Let_def wired_def)
  show ?thesis
  proof (cases q)
    case (Ready r)
    from post Ready have rest: "at_rest (view w') t cl'" by (simp add: client_post_def)
    then have na: "case ops of [] \<Rightarrow> True | o1 # _ \<Rightarrow> not_asked cl' o1"
      by (simp add: at_rest_not_asked split: list.splits)
    have "length (n_chan (view w') (c_dgram_write ch)) \<le> 1"
    proof (cases "dgrams [op]")
      case Nil
      with dw chan show ?thesis by simp
    next
      case (Cons b bs)
      then have "\<exists>key buf. op = Do_Write_Chunk key buf \<or> op = Do_Feed key buf" by (cases op) auto
      with not_asked_rest [OF oph asked] free have "n_chan (view (y_world s)) (c_dgram_write ch) = []" by blast
      with dw dgrams_one [of op] show ?thesis by simp
    qed
    then have "live_inv view ch (client_turn L ch rq cx s)"
      using na fr Ready t ph wait empty by (cases ops) (simp_all add: live_inv_def)
    with inv2 fr Ready todo show ?thesis by (simp add: left_def no_worse_def)
  next
    case Pending
    from client_progress [OF st room oph fits asked free chunks] run Pending
    have pp: "poll_progress view route L t (y_client s) op (y_world s) cl' op'" by blast
    with dw chan fr Pending t ph wait empty have "live_inv view ch (client_turn L ch rq cx s)"
      by (simp add: live_inv_def poll_progress_def)
    with inv2 fr Pending todo pp show ?thesis
      by (auto simp: left_def no_worse_def todo_rank_def poll_progress_def)
  qed
qed

lemma live_round:
  assumes laws: "net_laws view route filled L" and room: "room_laws view route L"
    and small: "total_len (dgrams script) \<le> 10000"
    and inv: "sys_inv view route ch script s" and live: "live_inv view ch s" and todo: "y_todo s \<noteq> []"
  shows "sys_inv view route ch script (fair_round view L ch rq ct cx s) \<and>
    live_inv view ch (fair_round view L ch rq ct cx s) \<and>
    no_worse (left L (fair_round view L ch rq ct cx s)) (left L s) \<and>
    (served_round view route L ch rq ct s \<longrightarrow> left L (fair_round view L ch rq ct cx s) \<noteq> left L s)"
proof -
  define s1 where "s1 = task_turn view L ch rq ct s"
  from task_part [OF laws room small inv live s1_def]
  have inv1: "sys_inv view route ch script s1"
    and turn: "mid_inv view ch s s1 \<or> stalled view s s1 \<and> \<not> served view route L (y_world s)" by blast+
  then obtain t where before: "before_poll view ch s1 t" and same: "y_todo s1 = y_todo s" "y_client s1 = y_client s"
    and mid: "mid_inv view ch s s1 \<Longrightarrow> outstanding (view (y_world s1)) t = [] \<and>
      n_chan (view (y_world s1)) (rs_receiver (cl_recv (y_client s1))) \<noteq> [] \<and>
      n_chan (view (y_world s1)) (rd_read_receiver (cl_rdgram (y_client s1))) \<noteq> []"
    using mid_before_poll [OF live, of s1] by blast
  obtain op ops where ops: "y_todo s1 = op # ops" using todo same by (cases "y_todo s") auto
  have "left L s1 = left L s" using same by (cases "y_todo s") (simp_all add: left_def todo_rank_def)
  with client_part [OF laws room inv1 before ops, of rq cx] turn mid show ?thesis
    unfolding fair_round_def served_round_def s1_def [symmetric] by auto
qed

text \<open>A run of rounds: it never gets further from the end, and each served round brings it nearer.\<close>

lemma live_run:
  assumes laws: "net_laws view route filled L" and room: "room_laws view route L"
    and small: "total_len (dgrams script) \<le> 10000"
    and inv: "sys_inv view route ch script s" and live: "live_inv view ch s"
    and busy: "\<And>i. i < n \<Longrightarrow> y_todo ((fair_round view L ch rq ct cx ^^ i) s) \<noteq> []"
  shows "sys_inv view route ch script ((fair_round view L ch rq ct cx ^^ n) s) \<and>
    live_inv view ch ((fair_round view L ch rq ct cx ^^ n) s) \<and>
    no_worse (left L ((fair_round view L ch rq ct cx ^^ n) s)) (left L s)"
  using busy
proof (induction n)
  case 0
  show ?case using inv live by simp
next
  case (Suc n)
  then have "sys_inv view route ch script ((fair_round view L ch rq ct cx ^^ n) s)"
    and "live_inv view ch ((fair_round view L ch rq ct cx ^^ n) s)"
    and le: "no_worse (left L ((fair_round view L ch rq ct cx ^^ n) s)) (left L s)" by simp_all
  from live_round [OF laws room small this(1,2), of rq ct cx] Suc.prems show ?case
    using no_worse_trans [OF _ le] by simp
qed

lemma live_rounds:
  assumes laws: "net_laws view route filled L" and room: "room_laws view route L"
    and small: "total_len (dgrams script) \<le> 10000"
    and "sys_inv view route ch script s" and "live_inv view ch s"
    and "\<And>i. \<exists>j\<ge>i. served_round view route L ch rq ct ((fair_round view L ch rq ct cx ^^ j) s)"
  shows "\<exists>n. y_todo ((fair_round view L ch rq ct cx ^^ n) s) = []"
  using assms(4-)
proof (induction "left L s" arbitrary: s
    rule: wf_induct_rule [OF wf_lex_prod [OF wf_less_than wf_less_than]])
  case 1
  let ?run = "\<lambda>n. (fair_round view L ch rq ct cx ^^ n) s"
  show ?case
  proof (rule ccontr)
    assume "\<nexists>n. y_todo (?run n) = []"
    then have busy: "y_todo (?run n) \<noteq> []" for n by blast
    from 1(4) [of 0] obtain j where sv: "served_round view route L ch rq ct (?run j)" by blast
    note before = live_run [OF laws room small 1(2,3), of j rq ct cx, OF busy]
    from live_round [OF laws room small _ _ busy, of ch j] before sv
    have step: "sys_inv view route ch script (?run (Suc j))" "live_inv view ch (?run (Suc j))"
      "no_worse (left L (?run (Suc j))) (left L (?run j))" "left L (?run (Suc j)) \<noteq> left L (?run j)" by auto
    then have less: "(left L (?run (Suc j)), left L s) \<in> less_than <*lex*> less_than"
      using before no_worse_less by blast
    have later: "(fair_round view L ch rq ct cx ^^ k) (?run (Suc j)) = ?run (k + Suc j)" for k
      by (simp only: funpow_add o_apply)
    have fair: "\<exists>k\<ge>i. served_round view route L ch rq ct ((fair_round view L ch rq ct cx ^^ k) (?run (Suc j)))" for i
    proof -
      from 1(4) [of "i + Suc j"] obtain m where "m \<ge> i + Suc j" "served_round view route L ch rq ct (?run m)" by blast
      then show ?thesis by (intro exI [of _ "m - Suc j"]) (simp add: later del: funpow.simps)
    qed
    from 1(1) [OF less step(1,2) fair] later busy show False by metis
  qed
qed

end
