(* ===== verification/System_Properties.thy ===== *)
theory System_Properties
  imports System_Live
begin

text \<open>
  What holds of \<open>poll-read\<close> as a whole, for every script of operations and every interleaving of the
  client with the connection task.
\<close>

section \<open>A concrete program\<close>

definition net_client :: client where
  "net_client = main_client 17 18 3 19 5 20 9"

lemma net_fresh_start:
  assumes "\<forall>op \<in> set script. op_fits op"
  shows "fresh_start net_view id sample_chans net_client script net_fresh"
  using assms
  by (simp add: fresh_start_def wired_def net_client_def main_client_def sample_chans_def net_view_def
      net_fresh_def idle_def)

lemmas net_run_defs = net_libs_def net_cmd_def net_cells_def net_data_def net_requests_def net_rx_def
  net_tx_def net_is_open_def m_take_def net_fresh_def net_client_def main_client_def main_start_def
  sample_bytes_def sample_readbuf_def sample_chans_def isize_max_def

lemmas poll_defs = poll_write_def wd_poll_ready_def wd_poll_flush_def ready_entry_def ready_reserve_def
  poll_write_chunk_def sink_poll_ready_def sink_poll_flush_def sink_start_send_def Let_def

lemmas round_defs = task_iter_def task_init_def promote_waiting_def recv_phase_def recv_loop.simps
  notify_all.simps offer_chunk_def send_loop.simps vecdeque_defs MAX_SEND_DGRAMS_def usize_sub_def

text \<open>A write of one byte, its answer and a datagram.\<close>

definition short_script :: "sample_buf client_op list" where
  "short_script = [Do_Write 64 [7], Do_Write_Chunk 64 [8, 9]]"

definition short_moves :: "move list" where
  "short_moves = [Client_Polls 2, Task_Takes 4, Client_Polls 2, Client_Polls 2]"

lemma short_fits: "\<forall>op \<in> set short_script. op_fits op"
  by (simp add: short_script_def isize_max_def)

lemma short_run:
  "\<exists>s. do_moves net_libs sample_chans 6 short_moves (main_start net_client short_script net_fresh) = Some s \<and>
     y_results s = [Wrote (Inr 1), Sent (Inr ())] \<and> y_todo s = [] \<and> y_phase s = Using"
  by (simp add: short_script_def short_moves_def net_run_defs poll_defs round_defs del: replicate.simps)

lemma short_reach:
  "\<exists>s. sys_reach net_libs sample_chans 6 (main_start net_client short_script net_fresh) s \<and>
     y_results s = [Wrote (Inr 1), Sent (Inr ())] \<and> y_todo s = [] \<and> y_phase s = Using"
  using short_run do_moves_reach by metis

section \<open>Nothing goes wrong\<close>

text \<open>
  C2: No part of the program ever panics, whatever the script and the interleaving: the client's polls
  meet none of their \<open>unwrap\<close>s, \<open>Invalid response!\<close> or \<open>future polled after completion\<close>, and the
  connection task does not overflow.  And as long as the script is not finished, a poll of the awaited
  future returns.
\<close>

theorem program_never_panics:
  assumes laws: "net_laws view route filled L" and start: "fresh_start view route ch cl script w"
    and reach: "sys_reach L ch rq (main_start cl script w) s"
  shows "y_panic s = None \<and> (\<forall>p. y_task s \<noteq> Crashed p) \<and>
    (y_todo s \<noteq> [] \<longrightarrow> (\<exists>s'. do_move L ch rq (Client_Polls cx) s = Some s'))"
proof -
  have inv: "sys_inv view route ch script s" by (rule sys_reach_inv [OF laws sys_inv_start [OF start] reach])
  have "\<exists>s'. do_move L ch rq (Client_Polls cx) s = Some s'" if todo: "y_todo s \<noteq> []"
  proof -
    obtain op ops where ops: "y_todo s = op # ops" using todo by (cases "y_todo s") auto
    then have ph: "y_phase s = Using" using inv by (auto simp: sys_inv_def split: main_phase.splits)
    obtain q op' cl' w' where "client_poll L cx op (y_client s) (y_world s) = Some (Inr (q, op', cl', w'))"
      using inv_client_polls [OF laws inv ph ops, of cx] by blast
    with ops inv show ?thesis by (cases q) (auto simp: sys_inv_def)
  qed
  with inv show ?thesis by (auto simp: sys_inv_def split: main_phase.splits)
qed

theorem program_never_panics_witness:
  "\<exists>s. sys_reach net_libs sample_chans 6 (main_start net_client short_script net_fresh) s \<and>
     y_results s = [Wrote (Inr 1), Sent (Inr ())] \<and> y_panic s = None"
proof -
  obtain s where s: "sys_reach net_libs sample_chans 6 (main_start net_client short_script net_fresh) s"
    "y_results s = [Wrote (Inr 1), Sent (Inr ())]" using short_reach by blast
  from program_never_panics [OF sample_net_laws net_fresh_start [OF short_fits] s(1), of 2] s show ?thesis by blast
qed

text \<open>The request that the client's table has in progress for an operation, with its command.\<close>

fun pending_request :: "client \<Rightarrow> 'rb client_op \<Rightarrow> (request \<times> command) option" where
  "pending_request cl (Do_Write key buf) = map_option (Pair (Req_Write buf)) (ss_cmd_pending (cl_send cl) key)"
| "pending_request cl (Do_Write_Chunk key _) = map_option (Pair Req_WriteDgramReady) (wd_cmd_pending (cl_wdgram cl) key)"
| "pending_request cl (Do_Feed key _) = map_option (Pair Req_WriteDgramReady) (wd_cmd_pending (cl_wdgram cl) key)"
| "pending_request cl (Do_Flush key) = map_option (Pair Req_WriteDgramFlush) (wd_cmd_pending (cl_wdgram cl) key)"
| "pending_request cl _ = None"

text \<open>
  C6: Requests and answers are typed alike.  An answer that lies in the cell a waiting command polls is
  the one that its request demands: a write gets \<open>Response::Write\<close> with the number of its own bytes,
  a ready request \<open>WriteDgramReady\<close>, a flush \<open>WriteDgramFlush\<close>.  So the arms
  \<open>Ok(_) => panic!("Invalid response!")\<close> are never taken.
\<close>

theorem answers_fit_requests:
  assumes laws: "net_laws view route filled L" and start: "fresh_start view route ch cl script w"
    and reach: "sys_reach L ch rq (main_start cl script w) s"
    and op: "y_todo s = op # ops" and waits: "pending_request (y_client s) op = Some (req, State1 rx)"
    and cell: "n_peer (view (y_world s)) rx = Some tx" "n_cells (view (y_world s)) tx = Some (Some r)"
  shows "resp_ok req r"
proof -
  have inv: "sys_inv view route ch script s" by (rule sys_reach_inv [OF laws sys_inv_start [OF start] reach])
  with op obtain t where "op_phase (view (y_world s)) t (y_client s) op"
    by (auto simp: sys_inv_def using_inv_def Let_def split: main_phase.splits)
  with waits have "cmd_phase (view (y_world s)) t req (State1 rx)"
    by (cases op) (auto simp: slot_phase_def ready_phase_def at_rest_def)
  with cell show ?thesis by auto
qed

lemma answered_run:
  "\<exists>s. do_moves net_libs sample_chans 6 [Client_Polls 2, Task_Takes 4] (main_start net_client short_script net_fresh) = Some s \<and>
     y_todo s = short_script \<and> ss_cmd_pending (cl_send (y_client s)) 64 = Some (State1 0) \<and>
     n_peer (net_view (y_world s)) 0 = Some 0 \<and> n_cells (net_view (y_world s)) 0 = Some (Some (Resp_Write 1))"
  by (simp add: short_script_def net_run_defs poll_defs round_defs net_view_def del: replicate.simps)

theorem answers_fit_requests_witness:
  "resp_ok (Req_Write [7]) (Resp_Write 1)"
proof -
  obtain s where run: "do_moves net_libs sample_chans 6 [Client_Polls 2, Task_Takes 4]
      (main_start net_client short_script net_fresh) = Some s"
    and s: "y_todo s = short_script" "ss_cmd_pending (cl_send (y_client s)) 64 = Some (State1 0)"
      "n_peer (net_view (y_world s)) 0 = Some 0" "n_cells (net_view (y_world s)) 0 = Some (Some (Resp_Write 1))"
    using answered_run by blast
  show ?thesis
    by (rule answers_fit_requests [OF sample_net_laws net_fresh_start [OF short_fits] do_moves_reach [OF run]
          s(1) [unfolded short_script_def] _ s(3,4)]) (simp add: s(2))
qed

section \<open>What the script does\<close>

text \<open>
  C1: The concurrent program is equivalent to running its operations one after the other by their
  reference results: under every interleaving, the results so far are those of the first operations of
  the script, in order, and each is a success with the right value (a write returns the number of its
  bytes, a datagram read is a chunk of 1300 zeros).
\<close>

theorem program_results:
  assumes laws: "net_laws view route filled L" and start: "fresh_start view route ch cl script w"
    and reach: "sys_reach L ch rq (main_start cl script w) s"
  shows "y_results s = map expected (take (length (y_results s)) script) \<and>
    length (y_results s) + length (y_todo s) = length script"
proof -
  have "sys_inv view route ch script s" by (rule sys_reach_inv [OF laws sys_inv_start [OF start] reach])
  then have eq: "y_results s @ map expected (y_todo s) = map expected script" by (simp add: sys_inv_def)
  from arg_cong [OF eq, of "take (length (y_results s))"] arg_cong [OF eq, of length]
  show ?thesis by (simp add: take_map)
qed

theorem program_results_witness:
  "\<exists>s. sys_reach net_libs sample_chans 6 (main_start net_client short_script net_fresh) s \<and>
     y_results s = map expected short_script"
proof -
  obtain s where s: "sys_reach net_libs sample_chans 6 (main_start net_client short_script net_fresh) s"
    "y_results s = [Wrote (Inr 1), Sent (Inr ())]" using short_reach by blast
  from program_results [OF sample_net_laws net_fresh_start [OF short_fits] s(1)] s show ?thesis
    by (intro exI [of _ s]) (simp add: short_script_def)
qed

text \<open>
  C3: The whole program implements a first-in first-out queue of datagrams: after any run during which
  \<open>main\<close> still uses its handles, the datagrams of its script are, in order, those acknowledged, those in
  flight, those queued, the one waiting for room in the queue, those in the channel, and those that the
  rest of the script will hand over.  Acknowledged are exactly, tick by tick of the run, the oldest
  datagram then in flight.  So none is lost, duplicated or overtaken on its way to its acknowledgement.
\<close>

theorem program_datagrams_in_order:
  assumes laws: "net_laws view route filled L" and start: "fresh_start view route ch cl script w"
    and run: "do_moves L ch rq ms (main_start cl script w) = Some s" and use: "y_phase s = Using"
  shows "\<exists>t. y_task s = Running t \<and>
    dgrams script = acknowledged L ch rq ms (main_start cl script w) @
      elems (t_sent_dgrams t) @ elems (t_write_dgrams t) @
      (case t_waiting t of None \<Rightarrow> [] | Some b \<Rightarrow> [b]) @ n_chan (view (y_world s)) (c_dgram_write ch) @
      dgrams (y_todo s)"
proof -
  note inv0 = sys_inv_start [OF start]
  have "sys_inv view route ch script s" by (rule sys_reach_inv [OF laws inv0 do_moves_reach [OF run]])
  with use obtain t where t: "y_task s = Running t" by (auto simp: sys_inv_def)
  have "on_the_way view ch (main_start cl script w) = dgrams script"
    using start by (simp add: on_the_way_def main_start_def fresh_start_def pipeline_def task_init_def)
  with moves_keep_datagrams [OF laws inv0 run use] t show ?thesis
    by (simp add: on_the_way_def pipeline_def)
qed

text \<open>The short run and two ticks: the first sends the datagram, the second acknowledges it.\<close>

lemma acked_run:
  "\<exists>s t. do_moves net_libs sample_chans 6 (short_moves @ [Task_Ticks, Task_Ticks])
       (main_start net_client short_script net_fresh) = Some s \<and> y_phase s = Using \<and> y_todo s = [] \<and>
     y_task s = Running t \<and> elems (t_sent_dgrams t) = [] \<and> elems (t_write_dgrams t) = [] \<and>
     t_waiting t = None \<and> n_chan (net_view (y_world s)) 9 = []"
  by (simp add: short_script_def short_moves_def net_run_defs poll_defs round_defs net_view_def usize_add_def usize_limit_def
    del: replicate.simps)

theorem program_datagrams_in_order_witness:
  "acknowledged net_libs sample_chans 6 (short_moves @ [Task_Ticks, Task_Ticks])
     (main_start net_client short_script net_fresh) = [[8, 9]]"
proof -
  obtain s t where run: "do_moves net_libs sample_chans 6 (short_moves @ [Task_Ticks, Task_Ticks])
      (main_start net_client short_script net_fresh) = Some s" and use: "y_phase s = Using"
    and s: "y_todo s = []" "y_task s = Running t" "elems (t_sent_dgrams t) = []" "elems (t_write_dgrams t) = []"
      "t_waiting t = None" "n_chan (net_view (y_world s)) 9 = []" using acked_run by blast
  from program_datagrams_in_order [OF sample_net_laws net_fresh_start [OF short_fits] run use] s
  have "dgrams short_script = acknowledged net_libs sample_chans 6 (short_moves @ [Task_Ticks, Task_Ticks])
      (main_start net_client short_script net_fresh)" by (simp add: sample_chans_def)
  then show ?thesis by (simp add: short_script_def)
qed

section \<open>How it ends\<close>

text \<open>
  C4: The program gets through its script.  When the task and the client take turns, a request being
  served before the timer, and the datagrams of the script fit the initial congestion window, a finite
  number of turns completes every operation, each with its result.  Two things are asked beyond the
  channels' contracts.  \<open>room_laws\<close>: an empty channel of bytes has room.  And the run is fair to the
  polls: it is not the case that from some round on every round has a poll that is \<open>Pending\<close> although
  the message, the answer or the slot it asks for is there.  (\<open>tokio\<close> allows such a poll at any time; a
  round with one is a round without progress at worst.  The datagrams of \<open>main\<close> are 3900 bytes.)
\<close>

theorem program_completes:
  assumes laws: "net_laws view route filled L" and room: "room_laws view route L"
    and start: "fresh_start view route ch cl script w" and small: "total_len (dgrams script) \<le> 10000"
    and fair: "\<And>i. \<exists>j\<ge>i. served_round view route L ch rq ct
      ((fair_round view L ch rq ct cx ^^ j) (main_start cl script w))"
  shows "\<exists>n. y_todo ((fair_round view L ch rq ct cx ^^ n) (main_start cl script w)) = [] \<and>
    y_results ((fair_round view L ch rq ct cx ^^ n) (main_start cl script w)) = map expected script"
proof -
  let ?s0 = "main_start cl script w"
  have inv: "sys_inv view route ch script ?s0" by (rule sys_inv_start [OF start])
  have rest: "at_rest (view w) task_init cl"
    using start by (simp add: fresh_start_def at_rest_def outstanding_def task_init_def)
  have live: "live_inv view ch ?s0"
    using start at_rest_not_asked [OF rest]
    by (cases script) (simp_all add: live_inv_def main_start_def fresh_start_def task_init_def)
  from live_rounds [OF laws room small inv live fair] obtain n where
    n: "y_todo ((fair_round view L ch rq ct cx ^^ n) ?s0) = []" by blast
  have "sys_inv view route ch script ((fair_round view L ch rq ct cx ^^ n) ?s0)"
    by (rule sys_reach_inv [OF laws inv fair_rounds_reach])
  with n show ?thesis by (intro exI [of _ n]) (simp add: sys_inv_def)
qed

theorem program_completes_witness:
  "\<exists>n. y_results ((fair_round net_view net_libs sample_chans 6 4 2 ^^ n) (main_start net_client
      (main_script (\<lambda>i. 64) \<lparr>space = 1948, content = []\<rparr> \<lparr>space = 652, content = []\<rparr> [1, 2, 3]) net_fresh)) =
    [Wrote (Inr 4), Read_Done (Inr ()), Read_Done (Inr ()), Got (Some (Inr (replicate 1300 0))),
     Got (Some (Inr (replicate 1300 0))), Got (Some (Inr (replicate 1300 0))), Sent (Inr ()), Sent (Inr ()),
     Sent (Inr ()), Flushed (Inr ()), Flushed (Inr ())]"
proof -
  let ?script = "main_script (\<lambda>i. 64) \<lparr>space = 1948, content = []\<rparr> \<lparr>space = 652, content = []\<rparr> [1, 2, 3]"
  have fits: "\<forall>op \<in> set ?script. op_fits op" by (simp add: main_script_def isize_max_def)
  have small: "total_len (dgrams ?script) \<le> 10000" by (simp add: main_script_def)
  have fair: "\<exists>j\<ge>i. served_round net_view id net_libs sample_chans 6 4
      ((fair_round net_view net_libs sample_chans 6 4 2 ^^ j) (main_start net_client ?script net_fresh))" for i
    using sample_net_served by (auto simp: served_round_def)
  from program_completes [OF sample_net_laws sample_net_room net_fresh_start [OF fits] small fair]
  obtain n where n: "y_results ((fair_round net_view net_libs sample_chans 6 4 2 ^^ n) (main_start net_client ?script net_fresh)) =
      map expected ?script" by blast
  show ?thesis by (rule exI [of _ n], subst n) (simp add: main_script_def expected_def)
qed

text \<open>
  C7: The program shuts down.  Once the script is finished, dropping the handles, one more round of the
  task (a tick) and the join bring \<open>main\<close> to its end, with the task out of its loop: the dropped
  readers close their channels and \<open>try_reserve\<close> fails with \<open>Closed\<close>, although a command sender is
  still alive.
\<close>

theorem program_shuts_down:
  assumes laws: "net_laws view route filled L" and start: "fresh_start view route ch cl script w"
    and reach: "sys_reach L ch rq (main_start cl script w) s" and fin: "y_todo s = []" "y_phase s = Using"
  shows "\<exists>s' t. do_moves L ch rq [Client_Drops, Task_Ticks, Client_Joins] s = Some s' \<and>
    y_phase s' = Finished \<and> y_task s' = Stopped t"
proof -
  have inv: "sys_inv view route ch script s" by (rule sys_reach_inv [OF laws sys_inv_start [OF start] reach])
  then have "y_panic s = None" by (simp add: sys_inv_def)
  with fin obtain s1 where s1: "do_move L ch rq Client_Drops s = Some s1" and ph: "y_phase s1 = Joining"
    and same: "y_task s1 = y_task s" by auto
  have inv1: "sys_inv view route ch script s1" by (rule sys_inv_move [OF laws inv s1])
  obtain t where t: "y_task s1 = Running t" using inv fin(2) same by (auto simp: sys_inv_def)
  with inv1 ph have j: "joining_inv view s1 t" and wired: "wired route ch (y_client s1)"
    by (auto simp: sys_inv_def)
  from joining_round [OF laws wired j refl, of Timer_Fired] obtain t' w' where
    "sys_round L ch Timer_Fired t (y_world s1) = Inr (False, t', w')" by auto
  with s1 t ph show ?thesis by simp
qed

theorem program_shuts_down_witness:
  "\<exists>s'. sys_reach net_libs sample_chans 6 (main_start net_client short_script net_fresh) s' \<and> y_phase s' = Finished"
proof -
  obtain s where s: "sys_reach net_libs sample_chans 6 (main_start net_client short_script net_fresh) s"
    "y_todo s = []" "y_phase s = Using" using short_reach by blast
  from program_shuts_down [OF sample_net_laws net_fresh_start [OF short_fits] s]
  obtain s' where "do_moves net_libs sample_chans 6 [Client_Drops, Task_Ticks, Client_Joins] s = Some s'"
    and "y_phase s' = Finished" by blast
  with do_moves_reach_from [OF _ s(1)] show ?thesis by blast
qed

section \<open>The lost wake-up\<close>

text \<open>
  The client waits for room to hand over a datagram, the task knows, and the channel is already empty.
\<close>

definition lost_wakeup :: "('w \<Rightarrow> net) \<Rightarrow> task_chans \<Rightarrow> ('w, 'rb) sys \<Rightarrow> bool" where
  "lost_wakeup view ch s \<longleftrightarrow> (\<exists>key buf ops rx tx t. y_todo s = Do_Write_Chunk key buf # ops \<and>
     wd_cmd_pending (cl_wdgram (y_client s)) = [key \<mapsto> State1 rx] \<and>
     n_peer (view (y_world s)) rx = Some tx \<and> n_cells (view (y_world s)) tx = Some None \<and>
     y_task s = Running t \<and> tx \<in> set (t_ready_notifiers t) \<and> n_chan (view (y_world s)) (c_dgram_write ch) = [])"

lemma lost_wakeup_tick:
  assumes laws: "net_laws view route filled L" and inv: "sys_inv view route ch script s"
    and lost: "lost_wakeup view ch s" and ph: "y_phase s = Using"
    and t: "y_task s = Running t"
    and run: "sys_round L ch Timer_Fired t (y_world s) = Inr (True, t', w')"
    and rp: "round_post L view route ch Timer_Fired t (view (y_world s)) True t' (view w')"
    and it: "iter_post (\<lambda>w. n_taken (view w)) ch Timer_Fired t (y_world s) True t' w'"
  shows "lost_wakeup view ch (s\<lparr>y_task := Running t', y_world := w'\<rparr>)"
proof -
  let ?v = "view (y_world s)"
  from lost t obtain key buf ops rx tx where l: "y_todo s = Do_Write_Chunk key buf # ops"
    "wd_cmd_pending (cl_wdgram (y_client s)) = [key \<mapsto> State1 rx]" "n_peer ?v rx = Some tx"
    "n_cells ?v tx = Some None" "tx \<in> set (t_ready_notifiers t)" "n_chan ?v (c_dgram_write ch) = []"
    by (auto simp: lost_wakeup_def)
  from rp have con: "conserves (c_dgram_write ch) ?v (view w')"
    and st: "settles (outstanding ?v t) ?v (outstanding (view w') t') (view w')"
    and peer: "n_peer (view w') = n_peer ?v"
    by (simp_all add: round_post_def Let_def task_frame_def)
  from it obtain new where "n_taken (view w') (c_dgram_write ch) = n_taken ?v (c_dgram_write ch) @ new"
    and ready: "new = [] \<longrightarrow> (\<exists>txs. t_ready_notifiers t' = t_ready_notifiers t @ txs)"
    by (auto simp: iter_post_def)
  with con l(6) have "new = [] \<and> n_chan (view w') (c_dgram_write ch) = []" by (simp add: conserves_def)
  with ready l(5) have tx: "tx \<in> set (t_ready_notifiers t')" and chan: "n_chan (view w') (c_dgram_write ch) = []"
    by auto
  from tx have "outstanding (view w') t' \<noteq> []" by (auto simp: outstanding_def)
  with st have "n_cells (view w') = n_cells ?v" by (auto simp: settles_def)
  with l peer tx chan show ?thesis
    unfolding lost_wakeup_def
    by (intro exI [of _ key] exI [of _ buf] exI [of _ ops] exI [of _ rx] exI [of _ tx] exI [of _ t']) simp
qed

lemma lost_wakeup_poll:
  assumes laws: "net_laws view route filled L" and inv: "sys_inv view route ch script s"
    and lost: "lost_wakeup view ch s" and move: "do_move L ch rq (Client_Polls cx) s = Some s'"
  shows "lost_wakeup view ch s' \<and> y_todo s' = y_todo s \<and> y_results s' = y_results s"
proof -
  let ?v = "view (y_world s)" and ?me = "cl_wdgram (y_client s)"
  from lost obtain key buf ops rx tx t where l: "y_todo s = Do_Write_Chunk key buf # ops"
    "wd_cmd_pending ?me = [key \<mapsto> State1 rx]" "n_peer ?v rx = Some tx"
    "n_cells ?v tx = Some None" "y_task s = Running t" "tx \<in> set (t_ready_notifiers t)"
    "n_chan ?v (c_dgram_write ch) = []"
    by (auto simp: lost_wakeup_def)
  from inv l(1) have up: "n_open ?v"
    by (auto simp: sys_inv_def using_inv_def Let_def split: main_phase.splits)
  obtain w1 where
    poll: "poll_oneshot (l_cells L) rx cx (y_world s) = Inr (Pending, w1)" and v1: "view w1 = ?v"
  proof -
    assume that: "\<And>w1. poll_oneshot (l_cells L) rx cx (y_world s) = Inr (Pending, w1) \<Longrightarrow> view w1 = ?v \<Longrightarrow> thesis"
    from request_lawsD(4) [OF net_lawsD(3) [OF laws] l(3), of cx] obtain r w1 where
      r: "poll_oneshot (l_cells L) rx cx (y_world s) = Inr (r, w1)"
      "case r of Pending \<Rightarrow> view w1 = ?v
         | Ready (Inr resp) \<Rightarrow> n_cells ?v tx = Some (Some resp) \<and>
             view w1 = ?v\<lparr>n_peer := (n_peer ?v)(rx := None)\<rparr>
         | Ready (Inl _) \<Rightarrow> \<not> n_open ?v" by blast
    have "r = Pending"
    proof (cases r)
      case (Ready x)
      with r l(4) up show ?thesis by (cases x) simp_all
    qed
    with r that show thesis by simp
  qed
  have "wd_poll_ready (l_cmd L) (l_cells L) (l_data L) key ?me cx (y_world s) = Inr (Pending, ?me, w1)"
    using l(2) poll by (simp add: wd_poll_ready_def ready_entry_def Let_def wd_pending_same)
  then have "client_poll L cx (Do_Write_Chunk key buf) (y_client s) (y_world s) =
      Some (Inr (Pending, Do_Write_Chunk key buf, y_client s, w1))"
    by (simp add: poll_write_chunk_def)
  with move l(1) have "s' = s\<lparr>y_world := w1\<rparr>" by (auto split: option.splits)
  with l v1 have "lost_wakeup view ch s'"
    unfolding lost_wakeup_def
    by (intro exI [of _ key] exI [of _ buf] exI [of _ ops] exI [of _ rx] exI [of _ tx] exI [of _ t]) simp
  with \<open>s' = s\<lparr>y_world := w1\<rparr>\<close> show ?thesis by simp
qed

lemma lost_wakeup_move:
  assumes laws: "net_laws view route filled L" and inv: "sys_inv view route ch script s"
    and lost: "lost_wakeup view ch s" and move: "do_move L ch rq m s = Some s'"
  shows "lost_wakeup view ch s' \<and> y_todo s' = y_todo s \<and> y_results s' = y_results s"
proof -
  from lost obtain key buf ops t tx where todo: "y_todo s = Do_Write_Chunk key buf # ops"
    and t: "y_task s = Running t" and tx: "tx \<in> set (t_ready_notifiers t)" by (auto simp: lost_wakeup_def)
  from todo inv have ph: "y_phase s = Using" by (auto simp: sys_inv_def split: main_phase.splits)
  show ?thesis
  proof (cases m)
    case (Client_Polls cx)
    with lost_wakeup_poll [OF laws inv lost] move show ?thesis by blast
  next
    case (Task_Takes cx)
    obtain q w where poll: "poll_recv (l_requests L) rq cx (y_world s) = (q, w)" by (metis surj_pair)
    show ?thesis
    proof (cases q)
      case Pending
      with request_lawsD(6) [OF net_lawsD(3) [OF laws] poll] move Task_Takes t poll
      have "s' = s\<lparr>y_world := w\<rparr>" "view w = view (y_world s)" by auto
      with lost show ?thesis by (auto simp: lost_wakeup_def)
    next
      case (Ready x)
      with poll have "n_requests (view (y_world s)) \<noteq> []" using inv_task_takes [OF laws inv ph t] by fastforce
      moreover from inv ph t todo have "length (outstanding (view (y_world s)) t) \<le> 1"
        using op_phase_one [of "view (y_world s)" t "y_client s" "Do_Write_Chunk key buf"]
        by (simp add: sys_inv_def using_inv_def Let_def)
      ultimately show ?thesis using tx
        by (cases "n_requests (view (y_world s))"; cases "t_ready_notifiers t") (auto simp: outstanding_def)
    qed
  next
    case Task_Ticks
    from inv_task_ticks [OF laws inv ph t] obtain t' w' where
      run: "sys_round L ch Timer_Fired t (y_world s) = Inr (True, t', w')"
      and "round_post L view route ch Timer_Fired t (view (y_world s)) True t' (view w')"
      and "iter_post (\<lambda>w. n_taken (view w)) ch Timer_Fired t (y_world s) True t' w'" by blast
    from lost_wakeup_tick [OF laws inv lost ph t this] move Task_Ticks t run show ?thesis by auto
  qed (use move todo ph in \<open>auto split: conn_state.splits\<close>)
qed

text \<open>
  C5: The program can hang.  Once the client asks for room to hand over a datagram and the task takes
  the datagram that filled the channel in a round before it sees the request, no interleaving helps:
  in every later state the client still waits at the same operation, with the channel empty.
\<close>

theorem writer_waits_for_ever:
  assumes laws: "net_laws view route filled L" and start: "fresh_start view route ch cl script w"
    and reach: "sys_reach L ch rq (main_start cl script w) s" and lost: "lost_wakeup view ch s"
    and later: "sys_reach L ch rq s s'"
  shows "y_todo s' = y_todo s \<and> y_todo s' \<noteq> [] \<and> y_results s' = y_results s \<and>
    n_chan (view (y_world s')) (c_dgram_write ch) = []"
proof -
  have inv: "sys_inv view route ch script s" by (rule sys_reach_inv [OF laws sys_inv_start [OF start] reach])
  from later have "sys_inv view route ch script s' \<and> lost_wakeup view ch s' \<and> y_todo s' = y_todo s \<and>
    y_results s' = y_results s"
  proof (induction)
    case start
    show ?case using inv lost by blast
  next
    case (move s1 m s2)
    from move lost_wakeup_move [OF laws _ _ move(2)] sys_inv_move [OF laws _ move(2)] show ?case by auto
  qed
  then show ?thesis by (auto simp: lost_wakeup_def)
qed

text \<open>Two datagrams, and a timer tick just before the request for room is seen.\<close>

definition two_dgrams :: "sample_buf client_op list" where
  "two_dgrams = [Do_Write_Chunk 64 [1], Do_Write_Chunk 64 [2]]"

lemma lost_run:
  "\<exists>s. do_moves net_libs sample_chans 6 [Client_Polls 2, Client_Polls 2, Task_Ticks, Task_Takes 4]
       (main_start net_client two_dgrams net_fresh) = Some s \<and>
     y_results s = [Sent (Inr ())] \<and> lost_wakeup net_view sample_chans s"
  by (simp add: two_dgrams_def lost_wakeup_def net_run_defs poll_defs round_defs net_view_def del: replicate.simps)

theorem writer_waits_for_ever_witness:
  "\<exists>s. sys_reach net_libs sample_chans 6 (main_start net_client two_dgrams net_fresh) s \<and>
     y_results s = [Sent (Inr ())] \<and>
     (\<forall>n. y_todo ((fair_round net_view net_libs sample_chans 6 4 2 ^^ n) s) \<noteq> [])"
proof -
  obtain s where run: "do_moves net_libs sample_chans 6 [Client_Polls 2, Client_Polls 2, Task_Ticks, Task_Takes 4]
       (main_start net_client two_dgrams net_fresh) = Some s"
    and s: "y_results s = [Sent (Inr ())]" "lost_wakeup net_view sample_chans s" using lost_run by blast
  have fits: "\<forall>op \<in> set two_dgrams. op_fits op" by (simp add: two_dgrams_def)
  note reach = do_moves_reach [OF run]
  have "y_todo ((fair_round net_view net_libs sample_chans 6 4 2 ^^ n) s) \<noteq> []" for n
    using writer_waits_for_ever [OF sample_net_laws net_fresh_start [OF fits] reach s(2) fair_rounds_reach] by blast
  with reach s(1) show ?thesis by blast
qed

end
