(* ===== verification/Machine_Words.thy ===== *)
theory Machine_Words
  imports Prelude
begin

unbundle bit_operations_syntax

text \<open>
  \<open>usize\<close> as a 64-bit word, for the code that rounds sizes with bit masks, with the checked
  arithmetic of a development build, and the memory that its raw pointers read and write: a map
  from addresses to bytes, in which integers are stored with the least significant byte first.
\<close>

type_synonym usize = "64 word"
type_synonym u32 = "32 word"
type_synonym u16 = "16 word"
type_synonym u8 = "8 word"
type_synonym memory = "usize \<Rightarrow> u8"

section \<open>Checked arithmetic\<close>

definition uadd :: "usize \<Rightarrow> usize \<Rightarrow> usize run" where
  "uadd a b = (if unat a + unat b < 2 ^ 64 then Inr (a + b) else Inl Arith_Overflow)"

definition usub :: "usize \<Rightarrow> usize \<Rightarrow> usize run" where
  "usub a b = (if b \<le> a then Inr (a - b) else Inl Arith_Overflow)"

lemma uadd_Inr: "uadd a b = Inr c \<longleftrightarrow> unat a + unat b < 2 ^ 64 \<and> c = a + b"
  by (auto simp: uadd_def)

lemma unat_uadd: "uadd a b = Inr c \<Longrightarrow> unat c = unat a + unat b"
  by (simp add: uadd_Inr unat_word_ariths)

lemma unat_usub: "usub a b = Inr c \<Longrightarrow> unat c = unat a - unat b \<and> unat b \<le> unat a"
  by (auto simp: usub_def unat_sub word_le_nat_alt split: if_splits)

lemma unat_ucast_u32 [simp]: "unat (ucast (x :: u32) :: usize) = unat x"
proof -
  have "unat x < 2 ^ 32" using unsigned_less [of x] by simp
  then have "take_bit 64 (unat x) = unat x" by (intro take_bit_nat_eq_self) simp
  then show ?thesis by (simp add: unsigned_ucast_eq)
qed

section \<open>Clearing the low bits\<close>

lemma and_not_mask_minus:
  fixes w :: "'a::len word"
  shows "w AND NOT (mask n) = w - take_bit n w"
proof -
  have "(w AND NOT (mask n)) OR take_bit n w = w"
    by (rule bit_word_eqI) (auto simp: bit_simps)
  moreover have "(w AND NOT (mask n)) AND take_bit n w = 0"
    by (rule bit_word_eqI) (auto simp: bit_simps)
  ultimately have "(w AND NOT (mask n)) + take_bit n w = w"
    by (simp add: disjunctive_add_eq_or)
  then show ?thesis by (simp add: algebra_simps)
qed

lemma unat_and_not_mask:
  fixes w :: "'a::len word"
  shows "unat (w AND NOT (mask n)) = 2 ^ n * (unat w div 2 ^ n)"
proof -
  have mod: "unat (take_bit n w) = unat w mod 2 ^ n"
    by (simp only: unsigned_take_bit_eq) (simp add: take_bit_eq_mod)
  have "take_bit n w \<le> w" by (simp add: word_le_nat_alt mod)
  then have "unat (w - take_bit n w) = unat w - unat w mod 2 ^ n"
    by (simp add: unat_sub mod)
  then show ?thesis
    by (simp add: and_not_mask_minus minus_mod_eq_mult_div)
qed

section \<open>Memory\<close>

text \<open>An \<open>n\<close>-byte integer at an address, and storing one there.\<close>

fun load_le :: "nat \<Rightarrow> memory \<Rightarrow> usize \<Rightarrow> nat" where
  "load_le 0 m a = 0"
| "load_le (Suc n) m a = unat (m a) + 256 * load_le n m (a + 1)"

fun store_le :: "nat \<Rightarrow> memory \<Rightarrow> usize \<Rightarrow> nat \<Rightarrow> memory" where
  "store_le 0 m a v = m"
| "store_le (Suc n) m a v = store_le n (m(a := of_nat v)) (a + 1) (v div 256)"

lemma store_le_other:
  "unat a + n \<le> 2 ^ 64 \<Longrightarrow> unat p < unat a \<or> unat a + n \<le> unat p \<Longrightarrow> store_le n m a v p = m p"
proof (induction n arbitrary: m a v)
  case (Suc n)
  have ne: "p \<noteq> a" using Suc.prems(2) by auto
  show ?case
  proof (cases n)
    case 0
    with ne show ?thesis by simp
  next
    case (Suc k)
    then have a1: "unat (a + 1) = Suc (unat a)"
      using Suc.prems(1) by (simp add: unat_word_ariths)
    have "store_le n (m(a := of_nat v)) (a + 1) (v div 256) p = (m(a := of_nat v)) p"
      by (rule Suc.IH) (use a1 Suc.prems ne in auto)
    with ne show ?thesis by simp
  qed
qed simp

lemma load_le_cong:
  "(\<And>i. i < n \<Longrightarrow> m (a + of_nat i) = m' (a + of_nat i)) \<Longrightarrow> load_le n m a = load_le n m' a"
proof (induction n arbitrary: a)
  case (Suc n)
  have "load_le n m (a + 1) = load_le n m' (a + 1)"
  proof (rule Suc.IH)
    fix i assume "i < n"
    then show "m (a + 1 + of_nat i) = m' (a + 1 + of_nat i)"
      using Suc.prems [of "Suc i"] by (simp add: algebra_simps)
  qed
  with Suc.prems [of 0] show ?case by simp
qed simp

lemma unat_add_small: "unat a + i < 2 ^ 64 \<Longrightarrow> unat (a + of_nat i :: usize) = unat a + i"
  by (simp add: unat_word_ariths unat_of_nat)

text \<open>A store elsewhere does not change what is loaded.\<close>

lemma load_le_store_other:
  assumes "unat a + n \<le> 2 ^ 64" and "unat p + k \<le> 2 ^ 64"
    and "unat p + k \<le> unat a \<or> unat a + n \<le> unat p"
  shows "load_le k (store_le n m a v) p = load_le k m p"
proof (rule load_le_cong)
  fix i assume i: "i < k"
  then have "unat (p + of_nat i) = unat p + i" using assms(2) by (intro unat_add_small) simp
  then show "store_le n m a v (p + of_nat i) = m (p + of_nat i)"
    using assms i by (intro store_le_other) auto
qed

text \<open>What was stored is loaded again.\<close>

lemma load_store_le:
  "unat a + n \<le> 2 ^ 64 \<Longrightarrow> load_le n (store_le n m a v) a = v mod 256 ^ n"
proof (induction n arbitrary: m a v)
  case 0
  then show ?case by simp
next
  case (Suc n)
  have first: "store_le n (m(a := of_nat v)) (a + 1) (v div 256) a = of_nat v"
  proof (cases n)
    case (Suc k)
    then have "unat (a + 1) = Suc (unat a)"
      using Suc.prems by (simp add: unat_word_ariths)
    with Suc.prems show ?thesis by (subst store_le_other) auto
  qed simp
  have rest: "load_le n (store_le n (m(a := of_nat v)) (a + 1) (v div 256)) (a + 1) = v div 256 mod 256 ^ n"
  proof (cases n)
    case (Suc k)
    then have "unat (a + 1) = Suc (unat a)"
      using Suc.prems by (simp add: unat_word_ariths)
    with Suc.prems show ?thesis by (intro Suc.IH) simp
  qed simp
  have "v mod (256 * 256 ^ n) = v mod 256 + 256 * (v div 256 mod 256 ^ n)"
    by (rule mod_mult2_eq [THEN trans]) (simp add: add.commute)
  with first rest show ?case by (simp add: unat_of_nat)
qed

section \<open>Integers as lists of bytes\<close>

text \<open>The bytes of an integer in memory, and the integer they stand for.\<close>

fun le_bytes :: "nat \<Rightarrow> nat \<Rightarrow> u8 list" where
  "le_bytes 0 v = []"
| "le_bytes (Suc n) v = of_nat v # le_bytes n (v div 256)"

fun le_value :: "u8 list \<Rightarrow> nat" where
  "le_value [] = 0"
| "le_value (b # bs) = unat b + 256 * le_value bs"

lemma le_bytes_length [simp]: "length (le_bytes n v) = n"
  by (induction n arbitrary: v) auto

lemma le_value_bytes [simp]: "le_value (le_bytes n v) = v mod 256 ^ n"
proof (induction n arbitrary: v)
  case (Suc n)
  have "v mod (256 * 256 ^ n) = v mod 256 + 256 * (v div 256 mod 256 ^ n)"
    by (rule mod_mult2_eq [THEN trans]) (simp add: add.commute)
  with Suc show ?case by (simp add: unat_of_nat)
qed simp

lemma le_bytes_take: "n \<le> k \<Longrightarrow> take n (le_bytes k v) = le_bytes n v"
proof (induction k arbitrary: n v)
  case (Suc k)
  then show ?case by (cases n) auto
qed simp

lemma le_bytes_inject: "le_bytes n v = le_bytes n u \<longleftrightarrow> v mod 256 ^ n = u mod 256 ^ n"
proof
  assume "le_bytes n v = le_bytes n u"
  then have "le_value (le_bytes n v) = le_value (le_bytes n u)" by simp
  then show "v mod 256 ^ n = u mod 256 ^ n" by simp
next
  have "le_bytes n (v mod 256 ^ n) = le_bytes n v" for v :: nat
  proof (induction n arbitrary: v)
    case (Suc n)
    have v: "v mod (256 * 256 ^ n) = v mod 256 + 256 * (v div 256 mod 256 ^ n)"
      by (rule mod_mult2_eq [THEN trans]) (simp add: add.commute)
    have "(of_nat (v mod 256 + 256 * k) :: u8) = of_nat v" for k :: nat
      by (simp only: word_unat_eq_iff unat_of_nat) simp
    with v Suc show ?case by simp
  qed simp
  then show "v mod 256 ^ n = u mod 256 ^ n \<Longrightarrow> le_bytes n v = le_bytes n u" by metis
qed

end
