(* ===== verification/Cmsg.thy ===== *)
theory Cmsg
  imports Machine_Words
begin

text \<open>
  The control-message helpers of \<open>migrate-Udp\<close> (lines 110 to 157), on a 64-bit target: the
  layout of \<open>WSACMSGHDR\<close>, the rounding of lengths and the walk over the headers of a control
  buffer.  A pointer is its address, the null pointer is 0.
\<close>

section \<open>The model\<close>

text \<open>
  \<open>#[repr(C)] struct WSACMSGHDR\<close>: a \<open>usize\<close> and two \<open>i32\<close>, so 16 bytes aligned to 8.  The two
  \<open>i32\<close> fields are only copied and compared, so they are kept as 32-bit words.
\<close>

record WSACMSGHDR =
  cmsg_len :: usize
  cmsg_level :: u32
  cmsg_type :: u32

definition size_of_WSACMSGHDR :: usize where
  "size_of_WSACMSGHDR = 16"

definition align_of_WSACMSGHDR :: usize where
  "align_of_WSACMSGHDR = 8"

definition size_of_usize :: usize where
  "size_of_usize = 8"

definition align_of_usize :: usize where
  "align_of_usize = 8"

lemmas layout_defs = size_of_WSACMSGHDR_def align_of_WSACMSGHDR_def size_of_usize_def align_of_usize_def

definition read_hdr :: "memory \<Rightarrow> usize \<Rightarrow> WSACMSGHDR" where
  "read_hdr m p = \<lparr>cmsg_len = of_nat (load_le 8 m p), cmsg_level = of_nat (load_le 4 m (p + 8)),
     cmsg_type = of_nat (load_le 4 m (p + 12))\<rparr>"

definition write_hdr :: "memory \<Rightarrow> usize \<Rightarrow> WSACMSGHDR \<Rightarrow> memory" where
  "write_hdr m p h = store_le 4 (store_le 4 (store_le 8 m p (unat (cmsg_len h)))
     (p + 8) (unat (cmsg_level h))) (p + 12) (unat (cmsg_type h))"

text \<open>
  In Rust \<open>+\<close> and \<open>-\<close> bind more tightly than \<open>&\<close>: both functions add first and mask the
  result.
\<close>

definition WSA_CMSGHDR_ALIGN :: "usize \<Rightarrow> usize run" where
  "WSA_CMSGHDR_ALIGN len =
     (case uadd len align_of_WSACMSGHDR of
        Inl p \<Rightarrow> Inl p
      | Inr a \<Rightarrow>
          (case usub a 1 of
             Inl p \<Rightarrow> Inl p
           | Inr b \<Rightarrow> Inr (b AND NOT (size_of_WSACMSGHDR - 1))))"

definition WSA_CMSGDATA_ALIGN :: "usize \<Rightarrow> usize run" where
  "WSA_CMSGDATA_ALIGN len =
     (case uadd len align_of_usize of
        Inl p \<Rightarrow> Inl p
      | Inr a \<Rightarrow>
          (case usub a 1 of
             Inl p \<Rightarrow> Inl p
           | Inr b \<Rightarrow> Inr (b AND NOT (size_of_usize - 1))))"

record WSABUF =
  buf_len :: u32
  buf_ptr :: usize

record WSAMSG =
  msg_name :: usize
  msg_namelen :: nat
  msg_lpBuffers :: WSABUF
  msg_dwBufferCount :: u32
  msg_Control :: WSABUF
  msg_dwFlags :: u32

definition WSA_CMSG_FIRSTHDR :: "WSAMSG \<Rightarrow> usize" where
  "WSA_CMSG_FIRSTHDR msg =
     (if ucast (buf_len (msg_Control msg)) \<ge> size_of_WSACMSGHDR then buf_ptr (msg_Control msg) else 0)"

definition WSA_CMSG_NXTHDR :: "memory \<Rightarrow> WSAMSG \<Rightarrow> usize \<Rightarrow> usize run" where
  "WSA_CMSG_NXTHDR m msg cmsg =
     (if cmsg = 0 then Inr (WSA_CMSG_FIRSTHDR msg)
      else (case WSA_CMSGHDR_ALIGN (cmsg_len (read_hdr m cmsg)) of
              Inl p \<Rightarrow> Inl p
            | Inr a \<Rightarrow>
                (case uadd cmsg a of
                   Inl p \<Rightarrow> Inl p
                 | Inr nxt \<Rightarrow>
                     (case uadd (buf_ptr (msg_Control msg)) (ucast (buf_len (msg_Control msg))) of
                        Inl p \<Rightarrow> Inl p
                      | Inr max_ptr \<Rightarrow>
                          Inr (if nxt + size_of_WSACMSGHDR > max_ptr then 0 else nxt)))))"

definition WSA_CMSG_DATA :: "usize \<Rightarrow> usize" where
  "WSA_CMSG_DATA cmsg = cmsg + size_of_WSACMSGHDR"

definition WSA_CMSG_SPACE :: "usize \<Rightarrow> usize run" where
  "WSA_CMSG_SPACE len =
     (case WSA_CMSGHDR_ALIGN len of
        Inl p \<Rightarrow> Inl p
      | Inr a \<Rightarrow>
          (case uadd size_of_WSACMSGHDR a of
             Inl p \<Rightarrow> Inl p
           | Inr b \<Rightarrow> WSA_CMSGDATA_ALIGN b))"

definition WSA_CMSG_LEN :: "usize \<Rightarrow> usize run" where
  "WSA_CMSG_LEN len =
     (case uadd size_of_WSACMSGHDR len of
        Inl p \<Rightarrow> Inl p
      | Inr b \<Rightarrow> WSA_CMSGDATA_ALIGN b)"

section \<open>Rounding\<close>

lemma WSA_CMSGHDR_ALIGN_Inr:
  "WSA_CMSGHDR_ALIGN len = Inr r \<Longrightarrow> unat len + 8 < 2 ^ 64 \<and> unat r = 16 * ((unat len + 7) div 16)"
  using unat_and_not_mask [of "7 + len" 4]
  by (auto simp: WSA_CMSGHDR_ALIGN_def layout_defs uadd_def usub_def unat_word_ariths mask_eq_exp_minus_1
      split: if_splits)

lemma WSA_CMSGDATA_ALIGN_Inr:
  "WSA_CMSGDATA_ALIGN len = Inr r \<Longrightarrow> unat len + 8 < 2 ^ 64 \<and> unat r = 8 * ((unat len + 7) div 8)"
  using unat_and_not_mask [of "7 + len" 3]
  by (auto simp: WSA_CMSGDATA_ALIGN_def layout_defs uadd_def usub_def unat_word_ariths mask_eq_exp_minus_1
      split: if_splits)

lemma align_total:
  assumes "unat len + 8 < 2 ^ 64"
  shows "\<exists>r. WSA_CMSGHDR_ALIGN len = Inr r" and "\<exists>r. WSA_CMSGDATA_ALIGN len = Inr r"
proof -
  have "unat (len + 8) = unat len + 8" using assms by (simp add: unat_word_ariths)
  then have "1 \<le> len + 8" by (simp add: word_le_nat_alt)
  with assms show "\<exists>r. WSA_CMSGHDR_ALIGN len = Inr r" "\<exists>r. WSA_CMSGDATA_ALIGN len = Inr r"
    by (simp_all add: WSA_CMSGHDR_ALIGN_def WSA_CMSGDATA_ALIGN_def layout_defs uadd_def usub_def)
qed

lemma data_align_ge: "WSA_CMSGDATA_ALIGN len = Inr r \<Longrightarrow> unat len \<le> unat r \<and> unat r < unat len + 8"
  by (frule WSA_CMSGDATA_ALIGN_Inr) linarith

lemma WSA_CMSG_LEN_Inr:
  "WSA_CMSG_LEN len = Inr l \<Longrightarrow> unat l = 8 * ((unat len + 23) div 8) \<and> unat len + 24 < 2 ^ 64"
  by (auto simp: WSA_CMSG_LEN_def layout_defs dest!: WSA_CMSGDATA_ALIGN_Inr unat_uadd
      split: sum.splits)

lemma rounding_gap:
  fixes n :: nat
  shows "16 + 16 * ((n + 7) div 16) < 8 * ((n + 23) div 8) \<longleftrightarrow> 1 \<le> n mod 16 \<and> n mod 16 \<le> 8"
proof -
  define q r where "q = n div 16" and "r = n mod 16"
  have n: "n = 16 * q + r" and r: "r < 16" by (simp_all add: q_def r_def)
  have "(n + 7) div 16 = (if r \<le> 8 then q else q + 1)"
    using n r by (auto intro!: div_nat_eqI)
  moreover have "(n + 23) div 8 = (if r = 0 then 2 * q + 2 else if r \<le> 8 then 2 * q + 3 else 2 * q + 4)"
    using n r by (auto intro!: div_nat_eqI)
  ultimately show ?thesis unfolding r_def [symmetric] by auto
qed

lemma WSA_CMSG_SPACE_Inr:
  assumes "WSA_CMSG_SPACE len = Inr s"
  shows "unat s = 16 + 16 * ((unat len + 7) div 16)"
proof -
  obtain a b where ab: "WSA_CMSGHDR_ALIGN len = Inr a" "uadd size_of_WSACMSGHDR a = Inr b"
    "WSA_CMSGDATA_ALIGN b = Inr s"
    using assms by (auto simp: WSA_CMSG_SPACE_def split: sum.splits)
  have "unat b = 16 + 16 * ((unat len + 7) div 16)"
    using WSA_CMSGHDR_ALIGN_Inr [OF ab(1)] unat_uadd [OF ab(2)] by (simp add: layout_defs)
  moreover have "unat s = 8 * ((unat b + 7) div 8)"
    using WSA_CMSGDATA_ALIGN_Inr [OF ab(3)] by simp
  ultimately show ?thesis by presburger
qed

section \<open>The layout as an interface\<close>

text \<open>
  What a reader of control messages relies on: the first header has room in the buffer, the data
  of a message starts behind its header, and the length of a message covers both.
\<close>

locale cmsg_layout =
  fixes first :: "WSAMSG \<Rightarrow> usize" and data :: "usize \<Rightarrow> usize" and len :: "usize \<Rightarrow> usize run"
  assumes first_room: "first msg \<noteq> 0 \<Longrightarrow>
      first msg = buf_ptr (msg_Control msg) \<and> 16 \<le> unat (buf_len (msg_Control msg))"
    and data_after: "unat p + 16 < 2 ^ 64 \<Longrightarrow> unat (data p) = unat p + 16"
    and len_covers: "len n = Inr l \<Longrightarrow> 16 + unat n \<le> unat l"
begin

text \<open>
  A message whose length field is at least \<open>len n\<close> and at most the length of the control buffer has
  its \<open>n\<close> bytes of data inside the control buffer.
\<close>

lemma data_inside:
  assumes "first msg \<noteq> 0" and "len n = Inr l" and "unat l \<le> unat (buf_len (msg_Control msg))"
    and "unat (buf_ptr (msg_Control msg)) + unat (buf_len (msg_Control msg)) < 2 ^ 64"
  shows "unat (data (first msg)) = unat (buf_ptr (msg_Control msg)) + 16"
    and "unat (data (first msg)) + unat n
      \<le> unat (buf_ptr (msg_Control msg)) + unat (buf_len (msg_Control msg))"
proof -
  have f: "first msg = buf_ptr (msg_Control msg)" "16 \<le> unat (buf_len (msg_Control msg))"
    using first_room [OF assms(1)] by auto
  then show d: "unat (data (first msg)) = unat (buf_ptr (msg_Control msg)) + 16"
    using assms(4) by (simp add: data_after)
  show "unat (data (first msg)) + unat n
      \<le> unat (buf_ptr (msg_Control msg)) + unat (buf_len (msg_Control msg))"
    using d len_covers [OF assms(2)] assms(3) by linarith
qed

end

lemma first_hdr_room:
  "WSA_CMSG_FIRSTHDR msg \<noteq> 0 \<Longrightarrow>
     WSA_CMSG_FIRSTHDR msg = buf_ptr (msg_Control msg) \<and> 16 \<le> unat (buf_len (msg_Control msg))"
  by (auto simp: WSA_CMSG_FIRSTHDR_def layout_defs word_le_nat_alt split: if_splits)

interpretation wsa: cmsg_layout WSA_CMSG_FIRSTHDR WSA_CMSG_DATA WSA_CMSG_LEN
proof
  fix msg assume "WSA_CMSG_FIRSTHDR msg \<noteq> 0"
  then show "WSA_CMSG_FIRSTHDR msg = buf_ptr (msg_Control msg) \<and> 16 \<le> unat (buf_len (msg_Control msg))"
    by (rule first_hdr_room)
next
  fix p :: usize assume "unat p + 16 < 2 ^ 64"
  then show "unat (WSA_CMSG_DATA p) = unat p + 16"
    by (simp add: WSA_CMSG_DATA_def layout_defs unat_word_ariths)
next
  fix n l assume "WSA_CMSG_LEN n = Inr l"
  then have "unat l = 8 * ((unat n + 23) div 8)" by (simp add: WSA_CMSG_LEN_Inr)
  then show "16 + unat n \<le> unat l" by linarith
qed

section \<open>Properties\<close>

text \<open>
  \<open>WSA_CMSGDATA_ALIGN\<close> rounds a length up to a multiple of 8, and its result is the least
  such multiple.
\<close>

theorem data_align_least_multiple:
  assumes "WSA_CMSGDATA_ALIGN len = Inr r"
  shows "8 dvd unat r \<and> unat len \<le> unat r \<and> (\<forall>k. 8 dvd k \<and> unat len \<le> k \<longrightarrow> unat r \<le> k)"
proof -
  have r: "unat r = 8 * ((unat len + 7) div 8)" using WSA_CMSGDATA_ALIGN_Inr [OF assms] by simp
  have "unat r \<le> k" if "8 dvd k" "unat len \<le> k" for k
  proof -
    from \<open>8 dvd k\<close> obtain j where j: "k = 8 * j" by (elim dvdE)
    with \<open>unat len \<le> k\<close> have "unat len + 7 < Suc j * 8" by simp
    then have "(unat len + 7) div 8 < Suc j" by (rule less_mult_imp_div_less)
    with r j show ?thesis by simp
  qed
  with r data_align_ge [OF assms] show ?thesis by simp
qed

theorem data_align_least_multiple_witness:
  "WSA_CMSGDATA_ALIGN 9 = Inr 16 \<and> 8 dvd unat (16 :: usize) \<and> unat (9 :: usize) \<le> unat (16 :: usize)"
proof -
  have "WSA_CMSGDATA_ALIGN 9 = Inr 16"
    by (simp add: WSA_CMSGDATA_ALIGN_def layout_defs uadd_def usub_def)
  with data_align_least_multiple [OF this] show ?thesis by simp
qed

text \<open>
  C24: \<open>WSA_CMSGHDR_ALIGN\<close> adds the alignment of \<open>WSACMSGHDR\<close> (8) but masks with its size (16), so
  it rounds down for some lengths; then the space \<open>WSA_CMSG_SPACE\<close> gives for a message is smaller
  than the length \<open>WSA_CMSG_LEN\<close> puts in its header.  This happens exactly for the lengths that
  leave a remainder of 1 to 8 modulo 16, the 8 bytes of \<open>IN_PKTINFO\<close> among them.
\<close>

theorem cmsg_space_below_len:
  assumes "WSA_CMSG_SPACE len = Inr s" and "WSA_CMSG_LEN len = Inr l"
  shows "s < l \<longleftrightarrow> 1 \<le> unat len mod 16 \<and> unat len mod 16 \<le> 8"
proof -
  have "unat s = 16 + 16 * ((unat len + 7) div 16)" using WSA_CMSG_SPACE_Inr [OF assms(1)] .
  moreover have "unat l = 8 * ((unat len + 23) div 8)" using WSA_CMSG_LEN_Inr [OF assms(2)] by simp
  ultimately show ?thesis by (simp add: word_less_nat_alt rounding_gap)
qed

theorem cmsg_space_below_len_witness:
  "WSA_CMSG_SPACE 8 = Inr 16 \<and> WSA_CMSG_LEN 8 = Inr 24 \<and> (16 :: usize) < 24"
proof -
  have "WSA_CMSG_SPACE 8 = Inr 16" "WSA_CMSG_LEN 8 = Inr 24"
    by (simp_all add: WSA_CMSG_SPACE_def WSA_CMSG_LEN_def WSA_CMSGHDR_ALIGN_def WSA_CMSGDATA_ALIGN_def
        layout_defs uadd_def usub_def)
  with cmsg_space_below_len [OF this] show ?thesis by simp
qed

lemma next_header_cases:
  assumes "WSA_CMSG_NXTHDR m msg cmsg = Inr p" and "cmsg \<noteq> 0" and "p \<noteq> 0"
  shows "unat p = unat cmsg + 16 * ((unat (cmsg_len (read_hdr m cmsg)) + 7) div 16)
    \<and> p + size_of_WSACMSGHDR \<le> buf_ptr (msg_Control msg) + ucast (buf_len (msg_Control msg))
    \<and> unat (buf_ptr (msg_Control msg)) + unat (buf_len (msg_Control msg)) < 2 ^ 64"
proof -
  let ?c = "msg_Control msg"
  obtain a nxt mx where s: "WSA_CMSGHDR_ALIGN (cmsg_len (read_hdr m cmsg)) = Inr a"
    "uadd cmsg a = Inr nxt" "uadd (buf_ptr ?c) (ucast (buf_len ?c)) = Inr mx"
    "p = (if nxt + size_of_WSACMSGHDR > mx then 0 else nxt)"
    using assms(1,2) by (auto simp: WSA_CMSG_NXTHDR_def split: sum.splits)
  from s(4) assms(3) have "p = nxt" "nxt + size_of_WSACMSGHDR \<le> mx" by (auto split: if_splits)
  then show ?thesis
    using WSA_CMSGHDR_ALIGN_Inr [OF s(1)] unat_uadd [OF s(2)] s(3) by (simp add: uadd_Inr)
qed

text \<open>
  A header that \<open>WSA_CMSG_NXTHDR\<close> returns does not lie before the one it was given, and lies
  with its 16 bytes inside the control buffer, unless the addition of these 16 bytes to its address
  wraps around.
\<close>

theorem next_header_inside:
  assumes "WSA_CMSG_NXTHDR m msg cmsg = Inr p" and "cmsg \<noteq> 0" and "p \<noteq> 0"
    and "unat p + 16 < 2 ^ 64"
  shows "cmsg \<le> p \<and> unat p + 16 \<le> unat (buf_ptr (msg_Control msg)) + unat (buf_len (msg_Control msg))"
proof -
  note n = next_header_cases [OF assms(1-3)]
  have "unat (p + size_of_WSACMSGHDR) = unat p + 16"
    using assms(4) by (simp add: layout_defs unat_word_ariths)
  moreover have "unat (p + size_of_WSACMSGHDR)
      \<le> unat (buf_ptr (msg_Control msg) + ucast (buf_len (msg_Control msg)))"
    using n by (simp only: word_le_nat_alt)
  moreover have "\<dots> = unat (buf_ptr (msg_Control msg)) + unat (buf_len (msg_Control msg))"
    using n by (simp add: unat_word_ariths)
  ultimately show ?thesis using n by (simp add: word_le_nat_alt)
qed

definition sample_msg :: WSAMSG where
  "sample_msg = \<lparr>msg_name = 0, msg_namelen = 0, msg_lpBuffers = \<lparr>buf_len = 0, buf_ptr = 0\<rparr>,
     msg_dwBufferCount = 1, msg_Control = \<lparr>buf_len = 128, buf_ptr = 4096\<rparr>, msg_dwFlags = 0\<rparr>"

definition sample_memory :: memory where
  "sample_memory = store_le 8 (\<lambda>_. 0) 4096 24"

lemma sample_next: "WSA_CMSG_NXTHDR sample_memory sample_msg 4096 = Inr 4112"
  by (simp add: WSA_CMSG_NXTHDR_def read_hdr_def sample_memory_def sample_msg_def load_store_le
      WSA_CMSGHDR_ALIGN_def layout_defs uadd_def usub_def)

theorem next_header_inside_witness:
  "WSA_CMSG_NXTHDR sample_memory sample_msg 4096 = Inr 4112 \<and> (4096 :: usize) \<le> 4112"
  using next_header_inside [OF sample_next] sample_next by simp

text \<open>
  C23: The walk over the control messages is broken for messages of 8 bytes of data: the header
  that \<open>WSA_CMSG_NXTHDR\<close> finds behind a header with the length that \<open>WSA_CMSG_LEN\<close> gives for
  8 bytes is the data of that very message, not the header that follows it; and for a length field
  of at most 8 the walk stays at the same header forever.
\<close>

theorem next_header_is_own_data:
  assumes "WSA_CMSG_NXTHDR m msg cmsg = Inr p" and "cmsg \<noteq> 0" and "p \<noteq> 0"
  shows "(WSA_CMSG_LEN 8 = Inr (cmsg_len (read_hdr m cmsg)) \<longrightarrow> p = WSA_CMSG_DATA cmsg)
    \<and> (p = cmsg \<longleftrightarrow> cmsg_len (read_hdr m cmsg) \<le> 8)"
proof -
  let ?l = "cmsg_len (read_hdr m cmsg)"
  have p: "unat p = unat cmsg + 16 * ((unat ?l + 7) div 16)"
    using next_header_cases [OF assms] by simp
  have "p = WSA_CMSG_DATA cmsg" if "WSA_CMSG_LEN 8 = Inr ?l"
  proof -
    have "unat ?l = 24" using WSA_CMSG_LEN_Inr [OF that] by simp
    with p have "unat p = unat cmsg + 16" by simp
    moreover from this have "unat cmsg + 16 < 2 ^ 64" using unsigned_less [of p, where ?'a = nat] by simp
    ultimately have "unat p = unat (WSA_CMSG_DATA cmsg)" by (simp add: wsa.data_after)
    then show ?thesis by (simp add: word_unat_eq_iff)
  qed
  moreover have "p = cmsg \<longleftrightarrow> ?l \<le> 8"
  proof -
    have "p = cmsg \<longleftrightarrow> (unat ?l + 7) div 16 = 0" by (auto simp: word_unat_eq_iff p)
    also have "\<dots> \<longleftrightarrow> unat ?l \<le> 8" by (simp add: div_eq_0_iff) linarith
    also have "\<dots> \<longleftrightarrow> ?l \<le> 8" by (simp add: word_le_nat_alt)
    finally show ?thesis .
  qed
  ultimately show ?thesis by blast
qed

theorem next_header_is_own_data_witness:
  "WSA_CMSG_NXTHDR sample_memory sample_msg 4096 = Inr 4112
    \<and> WSA_CMSG_LEN 8 = Inr (cmsg_len (read_hdr sample_memory 4096)) \<and> (4112 :: usize) = WSA_CMSG_DATA 4096"
proof -
  have "WSA_CMSG_LEN 8 = Inr (cmsg_len (read_hdr sample_memory 4096))"
    by (simp add: WSA_CMSG_LEN_def WSA_CMSGDATA_ALIGN_def layout_defs uadd_def usub_def read_hdr_def
        sample_memory_def load_store_le)
  with next_header_is_own_data [OF sample_next] sample_next show ?thesis by simp
qed

end
