(* ===== verification/Migrate_Udp.thy ===== *)
theory Migrate_Udp
  imports Cmsg
begin

text \<open>
  The program \<open>migrate-Udp\<close>: looking up the \<open>WSARecvMsg\<close> and \<open>WSASendMsg\<close> extensions, the thread
  that receives datagrams with their destination address, the thread that sends datagrams with a
  chosen source address, and the two callbacks for changes of routes and addresses.  Winsock, the
  IP helper library and the conversions of \<open>socket2\<close> and \<open>os_socketaddr\<close> are parameters.
\<close>

section \<open>Data and parameters\<close>

type_synonym socket = usize
type_synonym i32 = "32 word"

record GUID =
  data1 :: u32
  data2 :: u16
  data3 :: u16
  data4 :: "u8 list"

definition WSAID_WSARECVMSG :: GUID where
  "WSAID_WSARECVMSG = \<lparr>data1 = 0xf689d7c8, data2 = 0x6f1f, data3 = 0x436b,
     data4 = [0x8a, 0x53, 0xe5, 0x4f, 0xe3, 0x51, 0xc3, 0x22]\<rparr>"

definition WSAID_WSASENDMSG :: GUID where
  "WSAID_WSASENDMSG = \<lparr>data1 = 0xa441e712, data2 = 0x754f, data3 = 0x43ca,
     data4 = [0x84, 0xa7, 0x0d, 0xee, 0x44, 0xcf, 0x60, 0x6d]\<rparr>"

text \<open>The structures of \<open>windows-sys\<close> that the program fills in, with their C layout.\<close>

record IN_PKTINFO =
  ipi_addr :: u32
  ipi_ifindex :: u32

definition size_of_IN_PKTINFO :: usize where
  "size_of_IN_PKTINFO = 8"

record SOCKADDR_IN =
  sin_family :: u16
  sin_port :: u16
  sin_addr :: u32
  sin_zero :: "u8 list"

datatype socket_addr = V4 (ip: u32) (port: u16) | V6 "u8 list" u16

text \<open>
  The constants of Winsock, the system calls and the conversions.  \<open>as_std\<close> reads the bytes of a
  socket address (\<open>SockAddr::from_raw_parts(..).as_std()\<close>), \<open>sockaddr_from\<close> gives them
  (\<open>SockAddr::from\<close>); an IPv4 address is the word whose bytes in memory are its octets.
\<close>

record winsock_consts =
  IPPROTO_IP :: i32
  IP_PKTINFO :: i32
  AF_INET :: u16
  AF_UNSPEC :: u16
  SIO_GET_EXTENSION_FUNCTION_POINTER :: u32

record socket2_api =
  as_std :: "u8 list \<Rightarrow> socket_addr option"
  sockaddr_from :: "socket_addr \<Rightarrow> u8 list"

record ('w, 'f) winsock_api =
  udp_bind :: "string \<Rightarrow> 'w \<Rightarrow> (io_error + socket) \<times> 'w"
  setsockopt :: "socket \<Rightarrow> i32 \<Rightarrow> i32 \<Rightarrow> u32 list \<Rightarrow> 'w \<Rightarrow> i32 \<times> 'w"
  wsa_ioctl :: "socket \<Rightarrow> u32 \<Rightarrow> GUID \<Rightarrow> 'f option \<times> u32 \<Rightarrow> 'w \<Rightarrow> (i32 \<times> 'f option \<times> u32) \<times> 'w"
  last_os_error :: "'w \<Rightarrow> io_error"
  call_recvmsg :: "'f \<Rightarrow> socket \<Rightarrow> WSAMSG \<Rightarrow> memory \<Rightarrow> 'w \<Rightarrow> (i32 \<times> WSAMSG \<times> u32 \<times> memory) \<times> 'w"
  call_sendmsg :: "'f \<Rightarrow> socket \<Rightarrow> WSAMSG \<Rightarrow> memory \<Rightarrow> 'w \<Rightarrow> (i32 \<times> u32) \<times> 'w"
  sleep_secs :: "nat \<Rightarrow> 'w \<Rightarrow> 'w"

text \<open>\<open>size_of::<LPFN_WSARECVMSG>()\<close> and \<open>size_of::<LPFN_WSASENDMSG>()\<close> on a 64-bit target.\<close>

definition size_of_LPFN :: usize where
  "size_of_LPFN = 8"

section \<open>The extension functions\<close>

definition locate_wsarecvmsg ::
    "winsock_consts \<Rightarrow> ('w, 'f) winsock_api \<Rightarrow> socket \<Rightarrow> 'w \<Rightarrow> (io_error + 'f) \<times> 'w" where
  "locate_wsarecvmsg K W sock w =
     (let ((res, func, byte_len), w1) =
        wsa_ioctl W sock (SIO_GET_EXTENSION_FUNCTION_POINTER K) WSAID_WSARECVMSG (None, 0) w
      in if res \<noteq> 0 then (Inl (last_os_error W w1), w1)
      else if (ucast byte_len :: usize) \<noteq> size_of_LPFN then
        (Inl (Io_Error Other ''Locating fn pointer to WSARecvMsg returned different expected bytes''), w1)
      else (case func of
              None \<Rightarrow> (Inl (Io_Error Other ''WSARecvMsg extension not foud''), w1)
            | Some extension \<Rightarrow> (Inr extension, w1)))"

definition locate_wsasendmsg ::
    "winsock_consts \<Rightarrow> ('w, 'f) winsock_api \<Rightarrow> socket \<Rightarrow> 'w \<Rightarrow> (io_error + 'f) \<times> 'w" where
  "locate_wsasendmsg K W sock w =
     (let ((r, func, byte_len), w1) =
        wsa_ioctl W sock (SIO_GET_EXTENSION_FUNCTION_POINTER K) WSAID_WSASENDMSG (None, 0) w
      in if r \<noteq> 0 then (Inl (last_os_error W w1), w1)
      else if (ucast byte_len :: usize) \<noteq> size_of_LPFN then
        (Inl (Io_Error Other ''Locating fn pointer to WSASendMsg returned different expected bytes''), w1)
      else (case func of
              None \<Rightarrow> (Inl (Io_Error Other ''WSASendMsg extension not foud''), w1)
            | Some extension \<Rightarrow> (Inr extension, w1)))"

section \<open>The receiver\<close>

text \<open>\<open>u16::to_be\<close> on a little-endian target, the raw bytes of structures, and reading them.\<close>

definition to_be16 :: "u16 \<Rightarrow> u16" where
  "to_be16 x = push_bit 8 x OR drop_bit 8 x"

definition load_bytes :: "nat \<Rightarrow> memory \<Rightarrow> usize \<Rightarrow> u8 list" where
  "load_bytes n m a = map (\<lambda>i. m (a + of_nat i)) [0..<n]"

definition sockaddr_in_bytes :: "SOCKADDR_IN \<Rightarrow> u8 list" where
  "sockaddr_in_bytes s = le_bytes 2 (unat (sin_family s)) @ le_bytes 2 (unat (sin_port s))
     @ le_bytes 4 (unat (sin_addr s)) @ sin_zero s"

definition read_sockaddr_in :: "u8 list \<Rightarrow> SOCKADDR_IN" where
  "read_sockaddr_in bs = \<lparr>sin_family = of_nat (le_value (take 2 bs)),
     sin_port = of_nat (le_value (take 2 (drop 2 bs))),
     sin_addr = of_nat (le_value (take 4 (drop 4 bs))), sin_zero = take 8 (drop 8 bs)\<rparr>"

definition read_pktinfo :: "memory \<Rightarrow> usize \<Rightarrow> IN_PKTINFO" where
  "read_pktinfo m p = \<lparr>ipi_addr = of_nat (load_le 4 m p), ipi_ifindex = of_nat (load_le 4 m (p + 4))\<rparr>"

definition write_pktinfo :: "memory \<Rightarrow> usize \<Rightarrow> IN_PKTINFO \<Rightarrow> memory" where
  "write_pktinfo m p i = store_le 4 (store_le 4 m p (unat (ipi_addr i))) (p + 4) (unat (ipi_ifindex i))"

text \<open>The destination address of a received datagram.\<close>

definition parse_destination ::
    "winsock_consts \<Rightarrow> socket2_api \<Rightarrow> memory \<Rightarrow> WSAMSG \<Rightarrow> socket_addr option run" where
  "parse_destination K S m msg =
     (let cmsg = WSA_CMSG_FIRSTHDR msg
      in if cmsg \<noteq> 0 \<and> cmsg_level (read_hdr m cmsg) = IPPROTO_IP K
            \<and> cmsg_type (read_hdr m cmsg) = IP_PKTINFO K
         then (case WSA_CMSG_LEN size_of_IN_PKTINFO of
                 Inl p \<Rightarrow> Inl p
               | Inr n \<Rightarrow>
                   if cmsg_len (read_hdr m cmsg) \<ge> n
                   then (let info = read_pktinfo m (WSA_CMSG_DATA cmsg);
                             destination = \<lparr>sin_family = AF_INET K, sin_port = to_be16 8080,
                               sin_addr = ipi_addr info, sin_zero = replicate 8 0\<rparr>
                         in Inr (as_std S (sockaddr_in_bytes destination)))
                   else Inr None)
         else Inr None)"

definition size_of_SOCKADDR_INET :: nat where
  "size_of_SOCKADDR_INET = 28"

text \<open>The message structure that every round fills in afresh, at the addresses of its buffers.\<close>

record recv_buffers =
  data_at :: usize
  control_at :: usize
  source_at :: usize

definition recv_msg :: "recv_buffers \<Rightarrow> WSAMSG" where
  "recv_msg b = \<lparr>msg_name = source_at b, msg_namelen = size_of_SOCKADDR_INET,
     msg_lpBuffers = \<lparr>buf_len = 1024, buf_ptr = data_at b\<rparr>, msg_dwBufferCount = 1,
     msg_Control = \<lparr>buf_len = 128, buf_ptr = control_at b\<rparr>, msg_dwFlags = 0\<rparr>"

datatype received = Received (read_bytes: u32) (dest: "socket_addr option") (src: "socket_addr option")

definition receiver_round ::
    "winsock_consts \<Rightarrow> socket2_api \<Rightarrow> ('w, 'f) winsock_api \<Rightarrow> recv_buffers \<Rightarrow> socket \<Rightarrow> 'f \<Rightarrow> memory \<Rightarrow> 'w
     \<Rightarrow> (received list \<times> memory \<times> 'w) run" where
  "receiver_round K S W b sock f m w =
     (let ((res, msg, n, m1), w1) = call_recvmsg W f sock (recv_msg b) m w
      in if res = 0
         then (case parse_destination K S m1 msg of
                 Inl p \<Rightarrow> Inl p
               | Inr d \<Rightarrow>
                   Inr ([Received n d (as_std S (load_bytes size_of_SOCKADDR_INET m1 (source_at b)))], m1, w1))
         else Inr ([], m1, w1))"

text \<open>The endless loop of the thread, for a number of rounds, with what it reports.\<close>

fun receiver_loop ::
    "winsock_consts \<Rightarrow> socket2_api \<Rightarrow> ('w, 'f) winsock_api \<Rightarrow> recv_buffers \<Rightarrow> socket \<Rightarrow> 'f \<Rightarrow> nat
     \<Rightarrow> memory \<Rightarrow> 'w \<Rightarrow> (received list \<times> memory \<times> 'w) run" where
  "receiver_loop K S W b sock f 0 m w = Inr ([], m, w)"
| "receiver_loop K S W b sock f (Suc n) m w =
     (case receiver_round K S W b sock f m w of
        Inl p \<Rightarrow> Inl p
      | Inr (out, m1, w1) \<Rightarrow>
          (case receiver_loop K S W b sock f n m1 w1 of
             Inl p \<Rightarrow> Inl p
           | Inr (outs, m2, w2) \<Rightarrow> Inr (out @ outs, m2, w2)))"

definition receiver_setup ::
    "winsock_consts \<Rightarrow> ('w, 'f) winsock_api \<Rightarrow> 'w \<Rightarrow> (io_error + socket \<times> 'f) \<times> 'w" where
  "receiver_setup K W w =
     (case udp_bind W ''0.0.0.0:8080'' w of
        (Inl e, w1) \<Rightarrow> (Inl e, w1)
      | (Inr sock, w1) \<Rightarrow>
          (case setsockopt W sock (IPPROTO_IP K) (IP_PKTINFO K) [1] w1 of
             (res, w2) \<Rightarrow>
               if res \<noteq> 0 then (Inl (last_os_error W w2), w2)
               else (case locate_wsarecvmsg K W sock w2 of
                       (Inl e, w3) \<Rightarrow> (Inl e, w3)
                     | (Inr f, w3) \<Rightarrow> (Inr (sock, f), w3))))"

section \<open>The sender\<close>

text \<open>
  The octets of an address in the order of memory: \<open>Ipv4Addr::new(a, b, c, d)\<close> as the word of its
  bytes.
\<close>

definition ipv4 :: "u8 \<Rightarrow> u8 \<Rightarrow> u8 \<Rightarrow> u8 \<Rightarrow> u32" where
  "ipv4 a b c d = of_nat (le_value [a, b, c, d])"

definition source_address :: socket_addr where
  "source_address = V4 (ipv4 192 168 208 2) 0"

definition destination_address :: socket_addr where
  "destination_address = V4 (ipv4 192 168 213 165) 8080"

record send_buffers =
  payload_at :: usize
  ctrl_at :: usize
  target_at :: usize

text \<open>
  The control buffer of the sender: 128 zero bytes, then the header and the \<open>IN_PKTINFO\<close> copied
  into it; and the message structure that refers to it.
\<close>

definition sender_control :: "winsock_consts \<Rightarrow> socket2_api \<Rightarrow> send_buffers \<Rightarrow> memory \<Rightarrow> memory run" where
  "sender_control K S b m =
     (let source = read_sockaddr_in (sockaddr_from S source_address);
          info = \<lparr>ipi_addr = sin_addr source, ipi_ifindex = 0\<rparr>
      in case WSA_CMSG_LEN size_of_IN_PKTINFO of
           Inl p \<Rightarrow> Inl p
         | Inr n \<Rightarrow>
             (let cmsg = \<lparr>cmsg_len = n, cmsg_level = IPPROTO_IP K, cmsg_type = IP_PKTINFO K\<rparr>;
                  m0 = store_le 128 m (ctrl_at b) 0;
                  m1 = write_hdr m0 (ctrl_at b) cmsg
              in Inr (write_pktinfo m1 (WSA_CMSG_DATA (ctrl_at b)) info)))"

definition sender_msg :: "socket2_api \<Rightarrow> send_buffers \<Rightarrow> WSAMSG run" where
  "sender_msg S b =
     (case WSA_CMSG_LEN size_of_IN_PKTINFO of
        Inl p \<Rightarrow> Inl p
      | Inr n \<Rightarrow>
          Inr \<lparr>msg_name = target_at b, msg_namelen = length (sockaddr_from S destination_address),
            msg_lpBuffers = \<lparr>buf_len = of_nat (length ''hello''), buf_ptr = payload_at b\<rparr>,
            msg_dwBufferCount = 1, msg_Control = \<lparr>buf_len = ucast n, buf_ptr = ctrl_at b\<rparr>,
            msg_dwFlags = 0\<rparr>)"

datatype sent = Sent_Bytes u32 | Send_Failed io_error

fun sender_loop ::
    "('w, 'f) winsock_api \<Rightarrow> socket \<Rightarrow> 'f \<Rightarrow> WSAMSG \<Rightarrow> memory \<Rightarrow> nat \<Rightarrow> 'w \<Rightarrow> sent list \<times> 'w" where
  "sender_loop W sock f msg m 0 w = ([], w)"
| "sender_loop W sock f msg m (Suc n) w =
     (let ((res, sent_bytes), w1) = call_sendmsg W f sock msg m w;
          out = (if res \<noteq> 0 then Send_Failed (last_os_error W w1) else Sent_Bytes sent_bytes);
          (outs, w2) = sender_loop W sock f msg m n (sleep_secs W 1 w1)
      in (out # outs, w2))"

definition sender_setup ::
    "winsock_consts \<Rightarrow> ('w, 'f) winsock_api \<Rightarrow> 'w \<Rightarrow> (io_error + socket \<times> 'f) \<times> 'w" where
  "sender_setup K W w =
     (case udp_bind W ''0.0.0.0:0'' w of
        (Inl e, w1) \<Rightarrow> (Inl e, w1)
      | (Inr sock, w1) \<Rightarrow>
          (case locate_wsasendmsg K W sock w1 of
             (Inl e, w2) \<Rightarrow> (Inl e, w2)
           | (Inr f, w2) \<Rightarrow> (Inr (sock, f), w2)))"

section \<open>The callbacks\<close>

text \<open>
  The rows that the IP helper library passes, with the raw bytes of their addresses, and the lines
  that the callbacks print.  \<open>into_addr\<close> is \<open>OsSocketAddr::from_raw_parts(..).into_addr()\<close>,
  \<open>best_route2\<close> the call of \<open>GetBestRoute2\<close> for an address: its result, the next hop of the route
  and the source address.
\<close>

record MIB_IPFORWARD_ROW2 =
  DestinationPrefix :: "u8 list"
  PrefixLength :: u8

datatype ip_addr = IpV4 u32 | IpV6 "u8 list"

fun addr_ip :: "socket_addr \<Rightarrow> ip_addr" where
  "addr_ip (V4 a p) = IpV4 a"
| "addr_ip (V6 bs p) = IpV6 bs"

record 'w iphelper_api =
  into_addr :: "u8 list \<Rightarrow> socket_addr option"
  best_route2 :: "socket_addr \<Rightarrow> 'w \<Rightarrow> (i32 \<times> u8 list \<times> u8 list) \<times> 'w"
  notify_route_change :: "u16 \<Rightarrow> bool \<Rightarrow> 'w \<Rightarrow> 'w"
  notify_address_change :: "u16 \<Rightarrow> bool \<Rightarrow> 'w \<Rightarrow> 'w"

datatype notice =
    Change_Prefix ip_addr u8
  | Add_Prefix ip_addr u8
  | Delete_Prefix ip_addr u8
  | Best_Nexthop "u8 list"
  | Best_Src "u8 list"
  | Change_Address ip_addr
  | Add_Address ip_addr
  | Delete_Address ip_addr

definition route_change_callback ::
    "'w iphelper_api \<Rightarrow> MIB_IPFORWARD_ROW2 option \<Rightarrow> i32 \<Rightarrow> 'w \<Rightarrow> (notice list \<times> 'w) run" where
  "route_change_callback H row notificationtype w =
     (case row of
        None \<Rightarrow> Inr ([], w)
      | Some r \<Rightarrow>
          (case into_addr H (DestinationPrefix r) of
             None \<Rightarrow> Inl Unwrap_None
           | Some a \<Rightarrow>
               (let prefix = addr_ip a; prefix_len = PrefixLength r;
                    notes = (if notificationtype = 0 then [Change_Prefix prefix prefix_len]
                             else if notificationtype = 1 then [Add_Prefix prefix prefix_len]
                             else if notificationtype = 2 then [Delete_Prefix prefix prefix_len]
                             else []);
                    dest_addr = V4 (ipv4 172 29 206 88) 0;
                    ((res, nexthop, best_src_addr), w1) = best_route2 H dest_addr w
                in Inr (if res = 0 then notes @ [Best_Nexthop nexthop, Best_Src best_src_addr] else notes,
                        w1))))"

definition address_change_callback ::
    "'w iphelper_api \<Rightarrow> u8 list option \<Rightarrow> i32 \<Rightarrow> 'w \<Rightarrow> (notice list \<times> 'w) run" where
  "address_change_callback H row notificationtype w =
     (case row of
        None \<Rightarrow> Inr ([], w)
      | Some address_bytes \<Rightarrow>
          (case into_addr H address_bytes of
             None \<Rightarrow> Inl Unwrap_None
           | Some a \<Rightarrow>
               Inr (if notificationtype = 0 then [Change_Address (addr_ip a)]
                    else if notificationtype = 1 then [Add_Address (addr_ip a)]
                    else if notificationtype = 2 then [Delete_Address (addr_ip a)]
                    else [], w)))"

text \<open>The registration of both callbacks, at the start of \<open>main\<close>.\<close>

definition register_callbacks :: "winsock_consts \<Rightarrow> 'w iphelper_api \<Rightarrow> 'w \<Rightarrow> 'w" where
  "register_callbacks K H w = notify_address_change H (AF_UNSPEC K) False (notify_route_change H (AF_UNSPEC K) True w)"

end
