(* ===== verification/Migrate_Udp_Correct.thy ===== *)
theory Migrate_Udp_Correct
  imports Migrate_Udp
begin

text \<open>
  The control message that the sender of \<open>migrate-Udp\<close> lays out is the one its receiver parses,
  the receiver reads nothing outside the control data it was given, and its loop does not panic.
\<close>

section \<open>Addresses\<close>

lemma usize_offset:
  assumes "unat (p :: usize) + k \<le> 2 ^ 64" and "i < k"
  shows "unat (p + of_nat i) = unat p + i"
  using assms by (intro unat_add_small) simp

lemma usize_offset_8: "unat (p :: usize) + 8 < 2 ^ 64 \<Longrightarrow> unat (p + 8) = unat p + 8"
  using usize_offset [of p "unat p + 9" 8] by (simp add: unat_word_ariths)

lemma usize_offset_4: "unat (p :: usize) + 4 < 2 ^ 64 \<Longrightarrow> unat (p + 4) = unat p + 4"
  by (simp add: unat_word_ariths)

lemma usize_offset_12: "unat (p :: usize) + 12 < 2 ^ 64 \<Longrightarrow> unat (p + 12) = unat p + 12"
  by (simp add: unat_word_ariths)

lemmas usize_offsets = usize_offset_4 usize_offset_8 usize_offset_12 wsa.data_after

lemma len_pktinfo: "WSA_CMSG_LEN size_of_IN_PKTINFO = Inr 24"
  by (simp add: WSA_CMSG_LEN_def WSA_CMSGDATA_ALIGN_def layout_defs uadd_def usub_def size_of_IN_PKTINFO_def)

lemma word_of_stored_32: "(of_nat (unat (x :: u32) mod 256 ^ 4) :: u32) = x"
proof -
  have "unat x < 2 ^ 32" using unsigned_less [of x, where ?'a = nat] by simp
  then show ?thesis by simp
qed

lemma word_of_stored_64: "(of_nat (unat (x :: usize) mod 256 ^ 8) :: usize) = x"
proof -
  have "unat x < 2 ^ 64" using unsigned_less [of x, where ?'a = nat] by simp
  then show ?thesis by simp
qed

section \<open>Writing and reading the structures\<close>

lemma read_write_hdr:
  assumes "unat p + 16 \<le> 2 ^ 64"
  shows "read_hdr (write_hdr m p h) p = h"
proof -
  have o: "unat (p + 8) = unat p + 8" "unat (p + 12) = unat p + 12"
    using assms by (auto simp: usize_offsets)
  show ?thesis
    using assms
    by (simp add: read_hdr_def write_hdr_def load_le_store_other load_store_le o
        word_of_stored_32 [simplified] word_of_stored_64 [simplified])
qed

lemma read_hdr_store:
  assumes "unat p + 16 \<le> unat q" and "unat q + n \<le> 2 ^ 64"
  shows "read_hdr (store_le n m q v) p = read_hdr m p"
proof -
  have "unat (p + 8) = unat p + 8" "unat (p + 12) = unat p + 12"
    using assms by (auto simp: usize_offsets)
  then show ?thesis using assms by (simp add: read_hdr_def load_le_store_other)
qed

lemma read_hdr_write_pktinfo:
  assumes "unat p + 16 \<le> unat q" and "unat q + 8 \<le> 2 ^ 64"
  shows "read_hdr (write_pktinfo m q i) p = read_hdr m p"
  using assms by (simp add: write_pktinfo_def read_hdr_store usize_offsets)

lemma read_write_pktinfo:
  assumes "unat q + 8 \<le> 2 ^ 64"
  shows "read_pktinfo (write_pktinfo m q i) q = i"
  using assms
  by (simp add: read_pktinfo_def write_pktinfo_def load_le_store_other load_store_le usize_offsets
      word_of_stored_32 [simplified])

text \<open>Two memories with the same bytes at two addresses hold the same structures there.\<close>

lemma load_le_moved:
  assumes "\<forall>i < n. m (p + of_nat i) = m' (q + of_nat i)" and "d + k \<le> n"
  shows "load_le k m (p + of_nat d) = load_le k m' (q + of_nat d)"
  using assms(2)
proof (induction k arbitrary: d)
  case (Suc k)
  then have "load_le k m (p + of_nat (Suc d)) = load_le k m' (q + of_nat (Suc d))" by (intro Suc.IH) simp
  then show ?case using assms(1) Suc.prems by (simp add: algebra_simps)
qed simp

lemma read_hdr_moved:
  assumes "\<forall>i < n. m (p + of_nat i) = m' (q + of_nat i)" and "16 \<le> n"
  shows "read_hdr m p = read_hdr m' q"
  using load_le_moved [OF assms(1), of 0 8] load_le_moved [OF assms(1), of 8 4]
    load_le_moved [OF assms(1), of 12 4] assms(2)
  by (simp add: read_hdr_def)

lemma read_pktinfo_moved:
  assumes "\<forall>i < n. m (p + of_nat i) = m' (q + of_nat i)" and "24 \<le> n"
  shows "read_pktinfo m (WSA_CMSG_DATA p) = read_pktinfo m' (WSA_CMSG_DATA q)"
  using load_le_moved [OF assms(1), of 16 4] load_le_moved [OF assms(1), of 20 4] assms(2)
  by (simp add: read_pktinfo_def WSA_CMSG_DATA_def layout_defs algebra_simps)

section \<open>Properties\<close>

text \<open>
  C18: The receiver reads nothing but the control data it was given: when the length field of the
  first control message does not go beyond the control data, as the kernel guarantees, the parsed
  destination is the same for any two memories that agree on these bytes.  Control bytes left over
  from an earlier datagram in the rest of the buffer never show.
\<close>

theorem parse_reads_control_only:
  fixes msg :: WSAMSG
  defines "base \<equiv> buf_ptr (msg_Control msg)" and "n \<equiv> unat (buf_len (msg_Control msg))"
  assumes field: "unat (cmsg_len (read_hdr m base)) \<le> n"
    and agree: "\<And>i. i < n \<Longrightarrow> m (base + of_nat i) = m' (base + of_nat i)"
  shows "parse_destination K S m msg = parse_destination K S m' msg"
proof (cases "WSA_CMSG_FIRSTHDR msg = 0")
  case True
  then show ?thesis by (simp add: parse_destination_def)
next
  case False
  then have first: "WSA_CMSG_FIRSTHDR msg = base" "16 \<le> n"
    using wsa.first_room [of msg] by (auto simp: base_def n_def)
  have hdr: "read_hdr m base = read_hdr m' base"
    by (rule read_hdr_moved [where n = n]) (use agree first in auto)
  show ?thesis
  proof (cases "24 \<le> cmsg_len (read_hdr m base)")
    case True
    then have "24 \<le> n" using field by (simp add: word_le_nat_alt)
    then have "read_pktinfo m (WSA_CMSG_DATA base) = read_pktinfo m' (WSA_CMSG_DATA base)"
      using agree by (intro read_pktinfo_moved [where n = n]) auto
    with True show ?thesis
      unfolding parse_destination_def Let_def first len_pktinfo hdr by simp
  next
    case False
    then show ?thesis unfolding parse_destination_def Let_def first len_pktinfo hdr by simp
  qed
qed

text \<open>What the conversions of \<open>socket2\<close> do with IPv4 addresses.\<close>

definition socket2_laws :: "winsock_consts \<Rightarrow> socket2_api \<Rightarrow> bool" where
  "socket2_laws K S \<longleftrightarrow>
     (\<forall>a p. sockaddr_from S (V4 a p) = sockaddr_in_bytes
        \<lparr>sin_family = AF_INET K, sin_port = to_be16 p, sin_addr = a, sin_zero = replicate 8 0\<rparr>)
     \<and> (\<forall>a. as_std S (sockaddr_from S a) = Some a)"

text \<open>A socket address is read back from its bytes.\<close>

lemma read_sockaddr_in_bytes:
  assumes "length (sin_zero s) = 8"
  shows "read_sockaddr_in (sockaddr_in_bytes s) = s"
proof -
  have 2: "(of_nat (unat x mod 65536) :: u16) = x" for x :: u16
    using unsigned_less [of x, where ?'a = nat] by simp
  show ?thesis
    using assms by (simp add: read_sockaddr_in_def sockaddr_in_bytes_def 2 word_of_stored_32 [simplified])
qed

lemma sender_control_layout:
  assumes "sender_control K S b m = Inr m1" and "unat (ctrl_at b) + 128 \<le> 2 ^ 64"
  shows "read_hdr m1 (ctrl_at b) = \<lparr>cmsg_len = 24, cmsg_level = IPPROTO_IP K, cmsg_type = IP_PKTINFO K\<rparr>"
    and "read_pktinfo m1 (WSA_CMSG_DATA (ctrl_at b))
      = \<lparr>ipi_addr = sin_addr (read_sockaddr_in (sockaddr_from S source_address)), ipi_ifindex = 0\<rparr>"
proof -
  let ?p = "ctrl_at b"
  let ?i = "\<lparr>ipi_addr = sin_addr (read_sockaddr_in (sockaddr_from S source_address)), ipi_ifindex = 0\<rparr>"
  let ?h = "\<lparr>cmsg_len = 24, cmsg_level = IPPROTO_IP K, cmsg_type = IP_PKTINFO K\<rparr>"
  have m1: "m1 = write_pktinfo (write_hdr (store_le 128 m ?p 0) ?p ?h) (WSA_CMSG_DATA ?p) ?i"
    using assms(1) by (simp add: sender_control_def len_pktinfo Let_def)
  have d: "unat (WSA_CMSG_DATA ?p) = unat ?p + 16" using assms(2) by (simp add: wsa.data_after)
  then show "read_hdr m1 ?p = ?h"
    using assms(2) by (simp add: m1 read_hdr_write_pktinfo read_write_hdr)
  show "read_pktinfo m1 (WSA_CMSG_DATA ?p) = ?i"
    using assms(2) d by (simp add: m1 read_write_pktinfo)
qed

text \<open>
  C15: Round trip of the control message: when the control data that the sender lays out (its first
  24 bytes, the length that its message structure names) arrive as the control data of a received
  message, at any address, the receiver parses the source address that the sender chose,
  192.168.208.2, with its own port 8080.
\<close>

theorem pktinfo_round_trip:
  assumes laws: "socket2_laws K S"
    and sent: "sender_control K S b m = Inr m1" "sender_msg S b = Inr smsg" "unat (ctrl_at b) + 128 \<le> 2 ^ 64"
    and received: "buf_len (msg_Control rmsg) = buf_len (msg_Control smsg)" "buf_ptr (msg_Control rmsg) \<noteq> 0"
      "unat (buf_ptr (msg_Control rmsg)) + 24 < 2 ^ 64"
    and copied: "\<forall>i < 24. m2 (buf_ptr (msg_Control rmsg) + of_nat i) = m1 (ctrl_at b + of_nat i)"
  shows "parse_destination K S m2 rmsg = Inr (Some (V4 (ipv4 192 168 208 2) 8080))"
proof -
  let ?q = "buf_ptr (msg_Control rmsg)" and ?p = "ctrl_at b"
  have "buf_len (msg_Control smsg) = 24" using sent(2) by (auto simp: sender_msg_def len_pktinfo)
  with received have first: "WSA_CMSG_FIRSTHDR rmsg = ?q"
    by (simp add: WSA_CMSG_FIRSTHDR_def layout_defs)
  have hdr: "read_hdr m2 ?q = \<lparr>cmsg_len = 24, cmsg_level = IPPROTO_IP K, cmsg_type = IP_PKTINFO K\<rparr>"
    using read_hdr_moved [OF copied] sender_control_layout(1) [OF sent(1,3)] by simp
  have info: "ipi_addr (read_pktinfo m2 (WSA_CMSG_DATA ?q)) = ipv4 192 168 208 2"
    using read_pktinfo_moved [OF copied] sender_control_layout(2) [OF sent(1,3)] laws
    by (simp add: source_address_def socket2_laws_def read_sockaddr_in_bytes)
  have "as_std S (sockaddr_in_bytes \<lparr>sin_family = AF_INET K, sin_port = to_be16 8080,
      sin_addr = ipv4 192 168 208 2, sin_zero = replicate 8 0\<rparr>) = Some (V4 (ipv4 192 168 208 2) 8080)"
    using laws by (simp add: socket2_laws_def) (metis (no_types, lifting))
  then show ?thesis
    unfolding parse_destination_def Let_def first len_pktinfo by (simp add: hdr info received(2))
qed

text \<open>Parsing and a round of the loop always give a result.\<close>

lemma parse_total: "\<exists>d. parse_destination K S m msg = Inr d"
  by (simp add: parse_destination_def Let_def len_pktinfo)

lemma receiver_round_total: "\<exists>out m' w'. receiver_round K S W b sock f m w = Inr (out, m', w') \<and> length out \<le> 1"
proof -
  obtain res msg n m1 w1 where c: "call_recvmsg W f sock (recv_msg b) m w = ((res, msg, n, m1), w1)"
    by (metis prod.exhaust)
  obtain d where "parse_destination K S m1 msg = Inr d" using parse_total by blast
  with c show ?thesis by (simp add: receiver_round_def)
qed

text \<open>
  The receiving thread does not panic, whatever Winsock answers and the control buffer holds:
  any number of rounds of its loop is completed, each with at most one report.
\<close>

theorem receiver_never_panics:
  "\<exists>out m' w'. receiver_loop K S W b sock f n m w = Inr (out, m', w') \<and> length out \<le> n"
proof (induction n arbitrary: m w)
  case (Suc n)
  obtain out m1 w1 where r: "receiver_round K S W b sock f m w = Inr (out, m1, w1)" "length out \<le> 1"
    using receiver_round_total [of K S W b sock f m w] by auto
  obtain outs m2 w2 where "receiver_loop K S W b sock f n m1 w1 = Inr (outs, m2, w2)" "length outs \<le> n"
    using Suc.IH [of m1 w1] by auto
  with r show ?case by simp
qed simp

text \<open>The payload the receiver reads lies in the control data.\<close>

lemma pktinfo_inside:
  assumes "WSA_CMSG_FIRSTHDR msg \<noteq> 0" and "24 \<le> unat (buf_len (msg_Control msg))"
    and "unat (buf_ptr (msg_Control msg)) + unat (buf_len (msg_Control msg)) < 2 ^ 64"
  shows "unat (WSA_CMSG_DATA (WSA_CMSG_FIRSTHDR msg)) + 8
    \<le> unat (buf_ptr (msg_Control msg)) + unat (buf_len (msg_Control msg))"
  using wsa.data_inside(2) [OF assms(1) len_pktinfo _ assms(3)] assms(2)
  by (simp add: size_of_IN_PKTINFO_def)

text \<open>The callbacks panic only on an address that does not convert.\<close>

lemma route_change_panics_iff:
  "panics (route_change_callback H row t w) \<longleftrightarrow> (\<exists>r. row = Some r \<and> into_addr H (DestinationPrefix r) = None)"
  by (auto simp: route_change_callback_def panics_def Let_def split: option.splits prod.splits)

lemma address_change_panics_iff:
  "panics (address_change_callback H row t w) \<longleftrightarrow> (\<exists>a. row = Some a \<and> into_addr H a = None)"
  by (auto simp: address_change_callback_def panics_def split: option.splits)

section \<open>Witnesses\<close>

definition sample_winsock :: winsock_consts where
  "sample_winsock = \<lparr>IPPROTO_IP = 0, IP_PKTINFO = 19, AF_INET = 2, AF_UNSPEC = 0,
     SIO_GET_EXTENSION_FUNCTION_POINTER = 0xC8000006\<rparr>"

fun sample_sockaddr_from :: "socket_addr \<Rightarrow> u8 list" where
  "sample_sockaddr_from (V4 a p) = sockaddr_in_bytes
     \<lparr>sin_family = 2, sin_port = to_be16 p, sin_addr = a, sin_zero = replicate 8 0\<rparr>"
| "sample_sockaddr_from (V6 bs p) = le_bytes 2 23 @ le_bytes 2 (unat p) @ bs"

definition sample_as_std :: "u8 list \<Rightarrow> socket_addr option" where
  "sample_as_std bs =
     (if take 2 bs = le_bytes 2 2
      then Some (V4 (sin_addr (read_sockaddr_in bs)) (to_be16 (sin_port (read_sockaddr_in bs))))
      else Some (V6 (drop 4 bs) (of_nat (le_value (take 2 (drop 2 bs))))))"

definition sample_socket2 :: socket2_api where
  "sample_socket2 = \<lparr>as_std = sample_as_std, sockaddr_from = sample_sockaddr_from\<rparr>"

lemma to_be16_twice [simp]: "to_be16 (to_be16 x) = x"
  unfolding to_be16_def by (rule bit_word_eqI) (auto simp: bit_simps)

lemma sample_socket2_laws: "socket2_laws sample_winsock sample_socket2"
proof -
  have "sample_as_std (sample_sockaddr_from a) = Some a" for a
  proof (cases a)
    case (V4 x p)
    then show ?thesis
      by (simp add: sample_as_std_def read_sockaddr_in_bytes) (simp add: sockaddr_in_bytes_def)
  next
    case (V6 bs p)
    have "(of_nat (unat p mod 65536) :: u16) = p"
      using unsigned_less [of p, where ?'a = nat] by simp
    moreover have "le_bytes 2 23 \<noteq> le_bytes 2 2" by (rule notI) (drule arg_cong [where f = le_value], simp)
    ultimately show ?thesis using V6 by (simp add: sample_as_std_def)
  qed
  then show ?thesis by (simp add: socket2_laws_def sample_socket2_def sample_winsock_def)
qed

definition sample_send_buffers :: send_buffers where
  "sample_send_buffers = \<lparr>payload_at = 16, ctrl_at = 4096, target_at = 64\<rparr>"

theorem pktinfo_round_trip_witness:
  "\<exists>m1 msg. sender_control sample_winsock sample_socket2 sample_send_buffers (\<lambda>_. 0) = Inr m1
    \<and> sender_msg sample_socket2 sample_send_buffers = Inr msg
    \<and> parse_destination sample_winsock sample_socket2 m1 msg = Inr (Some (V4 (ipv4 192 168 208 2) 8080))"
proof -
  obtain m1 where m1: "sender_control sample_winsock sample_socket2 sample_send_buffers (\<lambda>_. 0) = Inr m1"
    by (simp add: sender_control_def len_pktinfo Let_def)
  obtain msg where msg: "sender_msg sample_socket2 sample_send_buffers = Inr msg"
    "buf_ptr (msg_Control msg) = 4096"
    by (simp add: sender_msg_def len_pktinfo sample_send_buffers_def)
  have "parse_destination sample_winsock sample_socket2 m1 msg = Inr (Some (V4 (ipv4 192 168 208 2) 8080))"
    by (rule pktinfo_round_trip [OF sample_socket2_laws m1 msg(1)])
      (simp_all add: msg(2) sample_send_buffers_def)
  with m1 msg show ?thesis by blast
qed

definition sample_received :: WSAMSG where
  "sample_received = \<lparr>msg_name = 64, msg_namelen = 28, msg_lpBuffers = \<lparr>buf_len = 1024, buf_ptr = 128\<rparr>,
     msg_dwBufferCount = 1, msg_Control = \<lparr>buf_len = 24, buf_ptr = 4096\<rparr>, msg_dwFlags = 0\<rparr>"

theorem parse_reads_control_only_witness:
  "parse_destination sample_winsock sample_socket2 sample_memory sample_received
    = parse_destination sample_winsock sample_socket2 (sample_memory(4120 := 255)) sample_received"
proof (rule parse_reads_control_only)
  show "unat (cmsg_len (read_hdr sample_memory (buf_ptr (msg_Control sample_received))))
      \<le> unat (buf_len (msg_Control sample_received))"
    by (simp add: sample_received_def sample_memory_def read_hdr_def load_store_le)
next
  fix i assume "i < unat (buf_len (msg_Control sample_received))"
  then have "unat ((4096 :: usize) + of_nat i) = 4096 + i" "i < 24"
    using unat_add_small [of 4096 i] by (auto simp: sample_received_def)
  then have "(4096 :: usize) + of_nat i \<noteq> 4120" by (auto simp: word_unat_eq_iff)
  then show "sample_memory (buf_ptr (msg_Control sample_received) + of_nat i)
      = (sample_memory(4120 := 255)) (buf_ptr (msg_Control sample_received) + of_nat i)"
    by (simp add: sample_received_def)
qed

end
