(* ===== verification/Mio_Loop.thy ===== *)
theory Mio_Loop
  imports Machine_Words
begin

text \<open>
  What the \<open>mio\<close> programs have in common: a thread registers a socket with a poll, waits for
  events, and on each event runs a socket call until it would block.  \<open>mio\<close> and the operating
  system are parameters; an inner loop that does not end is the value \<open>None\<close>.
\<close>

section \<open>Interfaces\<close>

datatype token = Token (token_value: usize)

datatype interest = READABLE | WRITABLE

record event =
  ev_token :: token
  ev_readable :: bool
  ev_writable :: bool

text \<open>
  A socket call returns an \<open>isize\<close>, -1 for an error.  \<open>try_io\<close> runs a closure and re-arms the socket
  when it would block; \<open>poll_wait\<close> is \<open>Poll::poll\<close> without a timeout, with the events it fills in.
\<close>

record ('w, 'fd) mio_api =
  poll_new :: "'w \<Rightarrow> (io_error + handle) \<times> 'w"
  register :: "handle \<Rightarrow> 'fd \<Rightarrow> token \<Rightarrow> interest \<Rightarrow> 'w \<Rightarrow> (io_error + unit) \<times> 'w"
  deregister :: "handle \<Rightarrow> 'fd \<Rightarrow> 'w \<Rightarrow> (io_error + unit) \<times> 'w"
  poll_wait :: "handle \<Rightarrow> 'w \<Rightarrow> (io_error + event list) \<times> 'w"
  try_io :: "'fd \<Rightarrow> ('w \<Rightarrow> (io_error + nat) \<times> 'w) \<Rightarrow> 'w \<Rightarrow> (io_error + nat) \<times> 'w"
  sys_recv :: "'fd \<Rightarrow> nat \<Rightarrow> 'w \<Rightarrow> int \<times> 'w"
  sys_send :: "'fd \<Rightarrow> u8 list \<Rightarrow> 'w \<Rightarrow> int \<times> 'w"
  os_error :: "'w \<Rightarrow> io_error"
  nap :: "nat \<Rightarrow> 'w \<Rightarrow> 'w"

text \<open>\<open>if res != -1 \{ Ok(res as usize) \} else \{ Err(last_os_error()) \}\<close>\<close>

definition io_result :: "('w, 'fd, 'z) mio_api_scheme \<Rightarrow> int \<times> 'w \<Rightarrow> (io_error + nat) \<times> 'w" where
  "io_result A r = (if fst r \<noteq> -1 then (Inr (nat (fst r mod 2 ^ 64)), snd r) else (Inl (os_error A (snd r)), snd r))"

definition try_recv_buf :: "('w, 'fd, 'z) mio_api_scheme \<Rightarrow> 'fd \<Rightarrow> 'w \<Rightarrow> (io_error + nat) \<times> 'w" where
  "try_recv_buf A fd = try_io A fd (\<lambda>w. io_result A (sys_recv A fd 512 w))"

text \<open>
  The senders pass \<open>&buf\<close> of \<open>let buf = b"hello"\<close>, the address of the reference itself: the call
  reads \<open>buf.len()\<close> = 5 bytes of the eight that hold the address of the literal.
\<close>

definition hello :: "u8 list" where
  "hello = [104, 101, 108, 108, 111]"

definition bytes_behind_ref :: "usize \<Rightarrow> u8 list" where
  "bytes_behind_ref literal_at = take (length hello) (le_bytes 8 (unat literal_at))"

definition try_send_buf :: "('w, 'fd, 'z) mio_api_scheme \<Rightarrow> usize \<Rightarrow> 'fd \<Rightarrow> 'w \<Rightarrow> (io_error + nat) \<times> 'w" where
  "try_send_buf A literal_at fd = try_io A fd (\<lambda>w. io_result A (sys_send A fd (bytes_behind_ref literal_at) w))"

section \<open>The inner loops\<close>

datatype report = Did_Read nat | Did_Write nat | Did_Fail io_error

text \<open>
  The loop of a receiver: it ends only when the call would block; a result of 0 bytes and any other
  error are printed, and the loop goes on.
\<close>

partial_function (option) recv_until_block ::
    "('w \<Rightarrow> (io_error + nat) \<times> 'w) \<Rightarrow> report list \<Rightarrow> 'w \<Rightarrow> (report list \<times> 'w) option" where
  "recv_until_block io out w =
     (case io w of
        (Inr n, w1) \<Rightarrow> recv_until_block io (out @ [Did_Read n]) w1
      | (Inl e, w1) \<Rightarrow>
          if kind e = WouldBlock then Some (out, w1)
          else recv_until_block io (out @ [Did_Fail e]) w1)"

text \<open>The loop of a sender, with a second of sleep after every call that did not block.\<close>

partial_function (option) send_until_block ::
    "('w \<Rightarrow> (io_error + nat) \<times> 'w) \<Rightarrow> ('w \<Rightarrow> 'w) \<Rightarrow> report list \<Rightarrow> 'w \<Rightarrow> (report list \<times> 'w) option" where
  "send_until_block io sleep out w =
     (case io w of
        (Inr n, w1) \<Rightarrow> send_until_block io sleep (out @ [Did_Write n]) (sleep w1)
      | (Inl e, w1) \<Rightarrow>
          if kind e = WouldBlock then Some (out, w1)
          else send_until_block io sleep (out @ [Did_Fail e]) (sleep w1))"

section \<open>The event loop\<close>

text \<open>
  A thread stops by returning an error or by a panic; otherwise it goes on with a state.  \<open>None\<close>
  is a thread that stays in an inner loop for ever.
\<close>

datatype stop = Returned io_error | Panicked panic

type_synonym 's outcome = "(stop + 's) option"

fun for_events :: "(event \<Rightarrow> 's \<Rightarrow> 's outcome) \<Rightarrow> event list \<Rightarrow> 's \<Rightarrow> 's outcome" where
  "for_events handle [] s = Some (Inr s)"
| "for_events handle (ev # evs) s =
     (case handle ev s of
        None \<Rightarrow> None
      | Some (Inl stop) \<Rightarrow> Some (Inl stop)
      | Some (Inr s1) \<Rightarrow> for_events handle evs s1)"

text \<open>\<open>loop \{ poll.poll(..)?; for event in events.iter() \{ .. \} \}\<close> for a number of rounds.\<close>

fun event_loop ::
    "('s \<Rightarrow> (io_error + event list) \<times> 's) \<Rightarrow> (event \<Rightarrow> 's \<Rightarrow> 's outcome) \<Rightarrow> nat \<Rightarrow> 's \<Rightarrow> 's outcome" where
  "event_loop wait handle 0 s = Some (Inr s)"
| "event_loop wait handle (Suc n) s =
     (case wait s of
        (Inl e, s1) \<Rightarrow> Some (Inl (Returned e))
      | (Inr evs, s1) \<Rightarrow>
          (case for_events handle evs s1 of
             None \<Rightarrow> None
           | Some (Inl stop) \<Rightarrow> Some (Inl stop)
           | Some (Inr s2) \<Rightarrow> event_loop wait handle n s2))"

definition wait_events ::
    "('w, 'fd, 'z) mio_api_scheme \<Rightarrow> handle \<Rightarrow> report list \<times> 'w \<Rightarrow> (io_error + event list) \<times> report list \<times> 'w" where
  "wait_events A p s = (case poll_wait A p (snd s) of (r, w1) \<Rightarrow> (r, fst s, w1))"

definition on_readable :: "('w \<Rightarrow> (io_error + nat) \<times> 'w) \<Rightarrow> event \<Rightarrow> report list \<times> 'w \<Rightarrow> (report list \<times> 'w) outcome" where
  "on_readable io ev s =
     (if ev_readable ev
      then (case recv_until_block io (fst s) (snd s) of None \<Rightarrow> None | Some s1 \<Rightarrow> Some (Inr s1))
      else Some (Inr s))"

definition on_writable ::
    "('w \<Rightarrow> (io_error + nat) \<times> 'w) \<Rightarrow> ('w \<Rightarrow> 'w) \<Rightarrow> event \<Rightarrow> report list \<times> 'w \<Rightarrow> (report list \<times> 'w) outcome" where
  "on_writable io sleep ev s =
     (if ev_writable ev
      then (case send_until_block io sleep (fst s) (snd s) of None \<Rightarrow> None | Some s1 \<Rightarrow> Some (Inr s1))
      else Some (Inr s))"

text \<open>The threads, once their socket is there: a poll, the registration and the event loop.\<close>

definition receiver_thread ::
    "('w, 'fd, 'z) mio_api_scheme \<Rightarrow> 'fd \<Rightarrow> ('w \<Rightarrow> (io_error + nat) \<times> 'w) \<Rightarrow> nat \<Rightarrow> 'w \<Rightarrow> (report list \<times> 'w) outcome" where
  "receiver_thread A fd io n w =
     (case poll_new A w of
        (Inl e, w1) \<Rightarrow> Some (Inl (Returned e))
      | (Inr p, w1) \<Rightarrow>
          (case register A p fd (Token 0) READABLE w1 of
             (Inl e, w2) \<Rightarrow> Some (Inl (Returned e))
           | (Inr _, w2) \<Rightarrow> event_loop (wait_events A p) (on_readable io) n ([], w2)))"

definition sender_thread ::
    "('w, 'fd, 'z) mio_api_scheme \<Rightarrow> 'fd \<Rightarrow> ('w \<Rightarrow> (io_error + nat) \<times> 'w) \<Rightarrow> nat \<Rightarrow> 'w \<Rightarrow> (report list \<times> 'w) outcome" where
  "sender_thread A fd io n w =
     (case poll_new A w of
        (Inl e, w1) \<Rightarrow> Some (Inl (Returned e))
      | (Inr p, w1) \<Rightarrow>
          (case register A p fd (Token 0) WRITABLE w1 of
             (Inl e, w2) \<Rightarrow> Some (Inl (Returned e))
           | (Inr _, w2) \<Rightarrow> event_loop (wait_events A p) (on_writable io (nap A 1)) n ([], w2)))"

section \<open>Joining the threads\<close>

text \<open>
  \<open>ended\<close> is how a thread ended within the rounds it was given; \<open>None\<close> is a thread that still runs,
  in its event loop or in an inner loop.  No thread returns \<open>Ok\<close>, their loops are endless.
\<close>

definition ended :: "'s outcome \<Rightarrow> stop option" where
  "ended r = (case r of Some (Inl stop) \<Rightarrow> Some stop | _ \<Rightarrow> None)"

text \<open>
  \<open>main\<close> joins the receiver and prints how it ended, then the sender; the flag says that \<open>main\<close>
  returned (\<open>Ok(())\<close>, even when a thread failed or panicked).
\<close>

definition join_both :: "stop option \<Rightarrow> stop option \<Rightarrow> stop list \<times> bool" where
  "join_both receiver sender =
     (case receiver of
        None \<Rightarrow> ([], False)
      | Some res1 \<Rightarrow>
          (case sender of
             None \<Rightarrow> ([res1], False)
           | Some res2 \<Rightarrow> ([res1, res2], True)))"

text \<open>With \<open>expect\<close> a thread that panicked makes \<open>main\<close> panic; \<open>None\<close>: \<open>main\<close> still waits.\<close>

definition join_expect :: "stop option \<Rightarrow> stop option \<Rightarrow> unit run option" where
  "join_expect receiver sender =
     (case receiver of
        None \<Rightarrow> None
      | Some (Panicked p) \<Rightarrow> Some (Inl Unwrap_Err)
      | Some (Returned e) \<Rightarrow>
          (case sender of
             None \<Rightarrow> None
           | Some (Panicked p) \<Rightarrow> Some (Inl Unwrap_Err)
           | Some (Returned e) \<Rightarrow> Some (Inr ())))"

lemma join_both_returns: "snd (join_both r s) \<longleftrightarrow> r \<noteq> None \<and> s \<noteq> None"
  by (auto simp: join_both_def split: option.split)

lemma join_both_waits_for_receiver: "join_both None s = ([], False)"
  by (simp add: join_both_def)

section \<open>Running the event loop\<close>

text \<open>
  \<open>try_io\<close> gives the result of its closure, and re-arming a socket does not change what \<open>q\<close> says of
  the world.
\<close>

definition try_io_laws :: "('w, 'fd, 'z) mio_api_scheme \<Rightarrow> ('w \<Rightarrow> 'q) \<Rightarrow> bool" where
  "try_io_laws A q \<longleftrightarrow>
     (\<forall>fd f w. fst (try_io A fd f w) = fst (f w) \<and> q (snd (try_io A fd f w)) = q (snd (f w)))"

text \<open>
  What every handler keeps, the event loop keeps; what every way a handler stops satisfies, every way
  the thread stops satisfies.
\<close>

fun outcome_ok :: "(stop \<Rightarrow> bool) \<Rightarrow> ('s \<Rightarrow> bool) \<Rightarrow> stop + 's \<Rightarrow> bool" where
  "outcome_ok G I (Inl stop) \<longleftrightarrow> G stop"
| "outcome_ok G I (Inr s) \<longleftrightarrow> I s"

lemma for_events_ok:
  assumes "\<And>ev s r. I s \<Longrightarrow> h ev s = Some r \<Longrightarrow> outcome_ok G I r"
  shows "I s \<Longrightarrow> for_events h evs s = Some r \<Longrightarrow> outcome_ok G I r"
proof (induction evs arbitrary: s)
  case (Cons ev evs)
  then obtain r1 where r1: "h ev s = Some r1" by (auto split: option.splits)
  with assms Cons.prems(1) have ok: "outcome_ok G I r1" by blast
  show ?case
  proof (cases r1)
    case (Inl stop)
    with r1 ok Cons.prems show ?thesis by auto
  next
    case (Inr s1)
    with r1 ok Cons show ?thesis by auto
  qed
qed auto

lemma event_loop_ok:
  assumes "\<And>s. I s \<Longrightarrow> I (snd (wait s))" and "\<And>e. G (Returned e)"
    and handle: "\<And>ev s r. I s \<Longrightarrow> h ev s = Some r \<Longrightarrow> outcome_ok G I r"
  shows "I s \<Longrightarrow> event_loop wait h n s = Some r \<Longrightarrow> outcome_ok G I r"
proof (induction n arbitrary: s)
  case (Suc n)
  obtain res s1 where w: "wait s = (res, s1)" by (cases "wait s")
  with assms(1) Suc.prems(1) have s1: "I s1" by (metis snd_conv)
  show ?case
  proof (cases res)
    case (Inl e)
    with w Suc.prems assms(2) show ?thesis by auto
  next
    case (Inr evs)
    then obtain r1 where r1: "for_events h evs s1 = Some r1"
      using w Suc.prems by (auto split: option.splits)
    have ok: "outcome_ok G I r1" by (rule for_events_ok [where h = h, OF handle s1 r1])
    show ?thesis using ok r1 w Inr Suc by (cases r1) auto
  qed
qed auto

end
