(* ===== verification/Migrate_Main.thy ===== *)
theory Migrate_Main
  imports Migrate_Udp_Correct Mio_Loop
begin

text \<open>
  \<open>main\<close> of \<open>migrate-Udp\<close>: it registers the callbacks, spawns the two threads and joins them.  Each
  thread runs here for a number of rounds, from its own view of the world.
\<close>

section \<open>The threads as a whole\<close>

definition migrate_receiver ::
    "winsock_consts \<Rightarrow> socket2_api \<Rightarrow> ('w, 'f) winsock_api \<Rightarrow> recv_buffers \<Rightarrow> nat \<Rightarrow> memory \<Rightarrow> 'w
     \<Rightarrow> (received list \<times> memory \<times> 'w) outcome" where
  "migrate_receiver K S W b n m w =
     (case receiver_setup K W w of
        (Inl e, w1) \<Rightarrow> Some (Inl (Returned e))
      | (Inr (sock, wsarecvmsg), w1) \<Rightarrow>
          (case receiver_loop K S W b sock wsarecvmsg n m w1 of
             Inl p \<Rightarrow> Some (Inl (Panicked p))
           | Inr s \<Rightarrow> Some (Inr s)))"

definition migrate_sender ::
    "winsock_consts \<Rightarrow> socket2_api \<Rightarrow> ('w, 'f) winsock_api \<Rightarrow> send_buffers \<Rightarrow> nat \<Rightarrow> memory \<Rightarrow> 'w
     \<Rightarrow> (sent list \<times> 'w) outcome" where
  "migrate_sender K S W b n m w =
     (case sender_setup K W w of
        (Inl e, w1) \<Rightarrow> Some (Inl (Returned e))
      | (Inr (sock, wsasendmsg), w1) \<Rightarrow>
          (case sender_control K S b m of
             Inl p \<Rightarrow> Some (Inl (Panicked p))
           | Inr m1 \<Rightarrow>
               (case sender_msg S b of
                  Inl p \<Rightarrow> Some (Inl (Panicked p))
                | Inr wsa_msg \<Rightarrow> Some (Inr (sender_loop W sock wsasendmsg wsa_msg m1 n w1)))))"

definition migrate_main ::
    "winsock_consts \<Rightarrow> socket2_api \<Rightarrow> ('w, 'f) winsock_api \<Rightarrow> 'w iphelper_api \<Rightarrow> recv_buffers
     \<Rightarrow> send_buffers \<Rightarrow> nat \<Rightarrow> memory \<Rightarrow> 'w \<Rightarrow> unit run option" where
  "migrate_main K S W H rb sb n m w =
     (let w1 = register_callbacks K H w
      in join_expect (ended (migrate_receiver K S W rb n m w1)) (ended (migrate_sender K S W sb n m w1)))"

section \<open>How the setup fails\<close>

text \<open>What a successful look-up of an extension function requires of \<open>WSAIoctl\<close>.\<close>

definition locates :: "i32 \<times> 'f option \<times> u32 \<Rightarrow> bool" where
  "locates r \<longleftrightarrow> fst r = 0 \<and> snd (snd r) = 8 \<and> fst (snd r) \<noteq> None"

lemma lpfn_size: "(ucast (n :: u32) :: usize) = size_of_LPFN \<longleftrightarrow> n = 8"
proof
  assume "(ucast n :: usize) = size_of_LPFN"
  then have "uint (ucast n :: usize) = 8" by (simp add: size_of_LPFN_def)
  moreover have "uint n < 2 ^ 64" using uint_lt2p [of n] by simp
  ultimately have "uint n = 8" by (simp add: unsigned_ucast_eq take_bit_int_eq_self)
  then show "n = 8" by (simp add: word_uint_eq_iff)
qed (simp add: size_of_LPFN_def)

lemma locate_wsarecvmsg_ok:
  "(\<exists>f. fst (locate_wsarecvmsg K W sock w) = Inr f) \<longleftrightarrow>
     locates (fst (wsa_ioctl W sock (SIO_GET_EXTENSION_FUNCTION_POINTER K) WSAID_WSARECVMSG (None, 0) w))"
  by (auto simp: locate_wsarecvmsg_def locates_def Let_def lpfn_size split: prod.splits option.splits)

lemma locate_wsasendmsg_ok:
  "(\<exists>f. fst (locate_wsasendmsg K W sock w) = Inr f) \<longleftrightarrow>
     locates (fst (wsa_ioctl W sock (SIO_GET_EXTENSION_FUNCTION_POINTER K) WSAID_WSASENDMSG (None, 0) w))"
  by (auto simp: locate_wsasendmsg_def locates_def Let_def lpfn_size split: prod.splits option.splits)

lemma receiver_runs:
  "ended (migrate_receiver K S W b n m w) =
     (case fst (receiver_setup K W w) of Inl e \<Rightarrow> Some (Returned e) | Inr _ \<Rightarrow> None)"
proof -
  have "\<exists>s. receiver_loop K S W b sock f n m w1 = Inr s" for sock f w1
    using receiver_never_panics [of K S W b sock f n m w1] by blast
  then show ?thesis
    by (auto simp: migrate_receiver_def ended_def split: prod.splits sum.splits) (metis sum.distinct(1))
qed

lemma sender_runs:
  "ended (migrate_sender K S W b n m w) =
     (case fst (sender_setup K W w) of Inl e \<Rightarrow> Some (Returned e) | Inr _ \<Rightarrow> None)"
  by (auto simp: migrate_sender_def ended_def sender_control_def sender_msg_def len_pktinfo Let_def
      split: prod.splits sum.splits)

text \<open>When the two setups succeed, in terms of the system calls.\<close>

definition receiver_starts :: "winsock_consts \<Rightarrow> ('w, 'f) winsock_api \<Rightarrow> 'w \<Rightarrow> bool" where
  "receiver_starts K W w \<longleftrightarrow> (\<exists>sock w1 w2. udp_bind W ''0.0.0.0:8080'' w = (Inr sock, w1) \<and>
     setsockopt W sock (IPPROTO_IP K) (IP_PKTINFO K) [1] w1 = (0, w2) \<and>
     locates (fst (wsa_ioctl W sock (SIO_GET_EXTENSION_FUNCTION_POINTER K) WSAID_WSARECVMSG (None, 0) w2)))"

definition sender_starts :: "winsock_consts \<Rightarrow> ('w, 'f) winsock_api \<Rightarrow> 'w \<Rightarrow> bool" where
  "sender_starts K W w \<longleftrightarrow> (\<exists>sock w1. udp_bind W ''0.0.0.0:0'' w = (Inr sock, w1) \<and>
     locates (fst (wsa_ioctl W sock (SIO_GET_EXTENSION_FUNCTION_POINTER K) WSAID_WSASENDMSG (None, 0) w1)))"

lemma receiver_setup_ok: "(\<exists>x. fst (receiver_setup K W w) = Inr x) \<longleftrightarrow> receiver_starts K W w"
proof (cases "udp_bind W ''0.0.0.0:8080'' w")
  case (Pair r w1)
  show ?thesis
  proof (cases r)
    case (Inr sock)
    obtain res w2 where opt: "setsockopt W sock (IPPROTO_IP K) (IP_PKTINFO K) [1] w1 = (res, w2)" by fastforce
    obtain g w3 where loc: "locate_wsarecvmsg K W sock w2 = (g, w3)" by fastforce
    show ?thesis using Pair Inr opt loc locate_wsarecvmsg_ok [of K W sock w2]
      by (cases g) (auto simp: receiver_setup_def receiver_starts_def)
  qed (simp add: Pair receiver_setup_def receiver_starts_def)
qed

lemma sender_setup_ok: "(\<exists>x. fst (sender_setup K W w) = Inr x) \<longleftrightarrow> sender_starts K W w"
proof (cases "udp_bind W ''0.0.0.0:0'' w")
  case (Pair r w1)
  show ?thesis
  proof (cases r)
    case (Inr sock)
    obtain g w3 where loc: "locate_wsasendmsg K W sock w1 = (g, w3)" by fastforce
    show ?thesis using Pair Inr loc locate_wsasendmsg_ok [of K W sock w1]
      by (cases g) (auto simp: sender_setup_def sender_starts_def)
  qed (simp add: Pair sender_setup_def sender_starts_def)
qed

section \<open>When main ends\<close>

text \<open>
  C40: Once set up, the threads of \<open>migrate-Udp\<close> neither return nor panic, however often their calls
  fail and whatever control data arrives.  So \<open>main\<close> ends exactly when both threads fail to start:
  the bind, the socket option or the look-up of the extension function (a result that is not 0, not
  the size of a function pointer, or null).  Then it returns \<open>Ok\<close>, and the \<open>expect\<close>s of the joins
  never fail.
\<close>

theorem migrate_main_ends:
  "migrate_main K S W H rb sb n m w =
     (if receiver_starts K W (register_callbacks K H w) \<or> sender_starts K W (register_callbacks K H w)
      then None else Some (Inr ()))"
proof -
  let ?w = "register_callbacks K H w"
  show ?thesis
    using receiver_setup_ok [of K W ?w] sender_setup_ok [of K W ?w]
    by (auto simp: migrate_main_def Let_def join_expect_def receiver_runs sender_runs
        split: sum.splits)
qed

end
