(* ===== verification/Mio_Drain.thy ===== *)
theory Mio_Drain
  imports Mio_Loop
begin

text \<open>
  The two inner loops of the \<open>mio\<close> programs meet one contract, from which follows what they do on a
  socket with queued input, and that they never end on a socket that no longer blocks.
\<close>

section \<open>The contract of an inner loop\<close>

text \<open>
  The loop calls \<open>io\<close>, then \<open>after\<close>, until a call would block: the worlds in which the calls are
  made, and what is printed of a call that did not block.
\<close>

definition at_block :: "('w \<Rightarrow> (io_error + nat) \<times> 'w) \<Rightarrow> 'w \<Rightarrow> bool" where
  "at_block io w \<longleftrightarrow> (\<exists>e. fst (io w) = Inl e \<and> kind e = WouldBlock)"

fun before_call :: "('w \<Rightarrow> (io_error + nat) \<times> 'w) \<Rightarrow> ('w \<Rightarrow> 'w) \<Rightarrow> nat \<Rightarrow> 'w \<Rightarrow> 'w" where
  "before_call io after 0 w = w"
| "before_call io after (Suc k) w = after (snd (io (before_call io after k w)))"

lemma before_call_Suc: "before_call io after (Suc k) w = before_call io after k (after (snd (io w)))"
  by (induction k) simp_all

fun report_of :: "(nat \<Rightarrow> report) \<Rightarrow> io_error + nat \<Rightarrow> report" where
  "report_of rep (Inr n) = rep n"
| "report_of rep (Inl e) = Did_Fail e"

locale drain_loop =
  fixes drain :: "('w \<Rightarrow> (io_error + nat) \<times> 'w) \<Rightarrow> report list \<Rightarrow> 'w \<Rightarrow> (report list \<times> 'w) option"
    and after :: "'w \<Rightarrow> 'w" and rep :: "nat \<Rightarrow> report"
  assumes on_ok: "io w = (Inr n, w1) \<Longrightarrow> drain io out w = drain io (out @ [rep n]) (after w1)"
    and on_block: "io w = (Inl e, w1) \<Longrightarrow> kind e = WouldBlock \<Longrightarrow> drain io out w = Some (out, w1)"
    and on_fail: "io w = (Inl e, w1) \<Longrightarrow> kind e \<noteq> WouldBlock \<Longrightarrow>
      drain io out w = drain io (out @ [Did_Fail e]) (after w1)"
    and ends_by_blocking: "drain io out w = Some r \<Longrightarrow> P w \<Longrightarrow>
      (\<And>v. P v \<Longrightarrow> (\<forall>e. fst (io v) = Inl e \<longrightarrow> kind e \<noteq> WouldBlock) \<and> P (after (snd (io v)))) \<Longrightarrow> False"
begin

text \<open>
  On a socket that answers a queue of results and then would block, the loop takes them all, in
  order, and returns.
\<close>

lemma takes_queue:
  assumes step: "\<And>w n ns. q w = n # ns \<Longrightarrow> \<exists>w1. io w = (Inr n, w1) \<and> q (after w1) = ns"
    and block: "\<And>w. q w = [] \<Longrightarrow> \<exists>e w1. io w = (Inl e, w1) \<and> kind e = WouldBlock \<and> q w1 = []"
  shows "\<exists>w'. drain io out w = Some (out @ map rep (q w), w') \<and> q w' = []"
proof (induction "q w" arbitrary: out w)
  case Nil
  with block [of w] show ?case by (auto simp: on_block)
next
  case (Cons n ns)
  then obtain w1 where w1: "io w = (Inr n, w1)" "q (after w1) = ns" using step [of w n ns] by auto
  then have "drain io out w = drain io (out @ [rep n]) (after w1)" by (simp add: on_ok)
  moreover obtain w' where "drain io (out @ [rep n]) (after w1)
      = Some ((out @ [rep n]) @ map rep (q (after w1)), w')" "q w' = []"
    using Cons.hyps(1) [of "after w1" "out @ [rep n]"] w1(2) by auto
  ultimately show ?case using w1(2) Cons.hyps(2) [symmetric] by simp
qed

text \<open>
  The loop runs to the first call that would block, whatever the calls before it answer, and
  returns with what that call leaves.
\<close>

lemma runs_to_block:
  assumes "at_block io (before_call io after k w)" and "\<And>j. j < k \<Longrightarrow> \<not> at_block io (before_call io after j w)"
  shows "drain io out w = Some (out @ map (\<lambda>j. report_of rep (fst (io (before_call io after j w)))) [0..<k],
    snd (io (before_call io after k w)))"
  using assms
proof (induction k arbitrary: out w)
  case 0
  then obtain e where "io w = (Inl e, snd (io w))" "kind e = WouldBlock"
    by (auto simp: at_block_def prod_eq_iff)
  then show ?case by (simp add: on_block)
next
  case (Suc k)
  define w1 where "w1 = after (snd (io w))"
  have later: "before_call io after (Suc j) w = before_call io after j w1" for j
    by (simp only: w1_def before_call_Suc)
  have go: "drain io out w = drain io (out @ [report_of rep (fst (io w))]) w1"
  proof (cases "fst (io w)")
    case (Inl e)
    with Suc.prems(2) [of 0] have "kind e \<noteq> WouldBlock" by (auto simp: at_block_def)
    with on_fail [of io w e "snd (io w)" out] Inl show ?thesis by (simp add: w1_def prod_eq_iff)
  next
    case (Inr n)
    with on_ok [of io w n "snd (io w)" out] show ?thesis by (simp add: w1_def prod_eq_iff)
  qed
  have "\<not> at_block io (before_call io after j w1)" if "j < k" for j
    using Suc.prems(2) [of "Suc j"] that by (simp add: later del: before_call.simps)
  with Suc.IH [of w1 "out @ [report_of rep (fst (io w))]"] Suc.prems(1) go
  show ?case by (simp add: later upt_conv_Cons map_Suc_upt [symmetric] comp_def
      del: upt_Suc before_call.simps(2))
qed

text \<open>On a socket that has stopped blocking, the loop does not return.\<close>

lemma never_returns:
  assumes "P w" and "\<And>v. P v \<Longrightarrow> (\<forall>e. fst (io v) = Inl e \<longrightarrow> kind e \<noteq> WouldBlock) \<and> P (after (snd (io v)))"
  shows "drain io out w = None"
proof (cases "drain io out w")
  case (Some r)
  with ends_by_blocking assms show ?thesis by blast
qed

end

section \<open>The loops of the program\<close>

text \<open>A run that returns has blocked: by computation induction over the loops.\<close>

abbreviation unblocking :: "('w \<Rightarrow> (io_error + nat) \<times> 'w) \<Rightarrow> ('w \<Rightarrow> 'w) \<Rightarrow> ('w \<Rightarrow> bool) \<Rightarrow> bool" where
  "unblocking io after P \<equiv>
     (\<forall>v. P v \<longrightarrow> (\<forall>e. fst (io v) = Inl e \<longrightarrow> kind e \<noteq> WouldBlock) \<and> P (after (snd (io v))))"

lemma recv_ends_by_blocking:
  "recv_until_block io out w = Some r \<Longrightarrow> P w \<longrightarrow> unblocking io (\<lambda>w. w) P \<longrightarrow> False"
proof (erule recv_until_block.raw_induct [rotated 1,
      where P = "\<lambda>io out w r. P w \<longrightarrow> unblocking io (\<lambda>w. w) P \<longrightarrow> False"])
  fix loop io out w r
  assume step: "\<And>io out w r. loop io out w = Some r \<Longrightarrow> P w \<longrightarrow> unblocking io (\<lambda>w. w) P \<longrightarrow> False"
    and body: "(case io w of
        (Inr n, w1) \<Rightarrow> loop io (out @ [Did_Read n]) w1
      | (Inl e, w1) \<Rightarrow> if kind e = WouldBlock then Some (out, w1) else loop io (out @ [Did_Fail e]) w1) = Some r"
  obtain res w1 where io: "io w = (res, w1)" by (cases "io w")
  have "False" if P: "P w" and unb: "unblocking io (\<lambda>w. w) P"
  proof (cases res)
    case (Inl e)
    with io P unb have "kind e \<noteq> WouldBlock" "P w1" by (metis fst_conv snd_conv)+
    moreover from this have "loop io (out @ [Did_Fail e]) w1 = Some r" using body io Inl by simp
    ultimately show False using step unb by blast
  next
    case (Inr n)
    with io P unb have "P w1" by (metis fst_conv snd_conv)
    moreover have "\<exists>out'. loop io out' w1 = Some r" using body io Inr by auto
    ultimately show False using step unb by blast
  qed
  then show "P w \<longrightarrow> unblocking io (\<lambda>w. w) P \<longrightarrow> False" by blast
qed

lemma send_ends_by_blocking:
  "send_until_block io sleep out w = Some r \<Longrightarrow> P w \<longrightarrow> unblocking io sleep P \<longrightarrow> False"
proof (erule send_until_block.raw_induct [rotated 1,
      where P = "\<lambda>io sleep out w r. P w \<longrightarrow> unblocking io sleep P \<longrightarrow> False"])
  fix loop io sleep out w r
  assume step: "\<And>io sleep out w r. loop io sleep out w = Some r \<Longrightarrow> P w \<longrightarrow> unblocking io sleep P \<longrightarrow> False"
    and body: "(case io w of
        (Inr n, w1) \<Rightarrow> loop io sleep (out @ [Did_Write n]) (sleep w1)
      | (Inl e, w1) \<Rightarrow> if kind e = WouldBlock then Some (out, w1)
          else loop io sleep (out @ [Did_Fail e]) (sleep w1)) = Some r"
  obtain res w1 where io: "io w = (res, w1)" by (cases "io w")
  have "False" if P: "P w" and unb: "unblocking io sleep P"
  proof (cases res)
    case (Inl e)
    with io P unb have "kind e \<noteq> WouldBlock" "P (sleep w1)" by (metis fst_conv snd_conv)+
    moreover from this have "loop io sleep (out @ [Did_Fail e]) (sleep w1) = Some r" using body io Inl by simp
    ultimately show False using step unb by blast
  next
    case (Inr n)
    with io P unb have "P (sleep w1)" by (metis fst_conv snd_conv)
    moreover have "\<exists>out'. loop io sleep out' (sleep w1) = Some r" using body io Inr by auto
    ultimately show False using step unb by blast
  qed
  then show "P w \<longrightarrow> unblocking io sleep P \<longrightarrow> False" by blast
qed

interpretation recv: drain_loop recv_until_block "\<lambda>w. w" Did_Read
proof
  fix io out w r and P
  assume "recv_until_block io out w = Some r" "P w"
    and "\<And>v. P v \<Longrightarrow> (\<forall>e. fst (io v) = Inl e \<longrightarrow> kind e \<noteq> WouldBlock) \<and> P (snd (io v))"
  then show False using recv_ends_by_blocking [of io out w r P] by blast
qed (simp_all add: recv_until_block.simps)

interpretation send: drain_loop "\<lambda>io. send_until_block io sleep" sleep Did_Write for sleep
proof
  fix io out w r and P
  assume "send_until_block io sleep out w = Some r" "P w"
    and "\<And>v. P v \<Longrightarrow> (\<forall>e. fst (io v) = Inl e \<longrightarrow> kind e \<noteq> WouldBlock) \<and> P (sleep (snd (io v)))"
  then show False using send_ends_by_blocking [of io sleep out w r P] by blast
qed (simp_all add: send_until_block.simps)

end
