(* ===== verification/Mio_Programs.thy ===== *)
theory Mio_Programs
  imports Mio_Drain
begin

text \<open>
  The threads of \<open>mio-UdpDgram\<close>, \<open>mio-UnixStream\<close>, \<open>mio-UnixDgram\<close> and \<open>mio-UnixPipe\<close>: each makes its
  socket and runs the receiving or sending loop of \<open>Mio_Loop\<close> on it.
\<close>

section \<open>Sockets\<close>

text \<open>\<open>mio_bind\<close> and \<open>mio_connect\<close> take the address, \<open>pair\<close> and \<open>new_pipe\<close> give two ends.\<close>

record ('w, 'fd) socket_api = "('w, 'fd) mio_api" +
  mio_bind :: "string \<Rightarrow> 'w \<Rightarrow> (io_error + 'fd) \<times> 'w"
  mio_connect :: "'fd \<Rightarrow> string \<Rightarrow> 'w \<Rightarrow> (io_error + unit) \<times> 'w"
  stream_pair :: "'w \<Rightarrow> (io_error + 'fd \<times> 'fd) \<times> 'w"
  dgram_pair :: "'w \<Rightarrow> (io_error + 'fd \<times> 'fd) \<times> 'w"
  new_pipe :: "'w \<Rightarrow> (io_error + 'fd \<times> 'fd) \<times> 'w"
  sys_read :: "'fd \<Rightarrow> nat \<Rightarrow> 'w \<Rightarrow> int \<times> 'w"
  sys_write :: "'fd \<Rightarrow> u8 list \<Rightarrow> 'w \<Rightarrow> int \<times> 'w"

definition recv_buf :: "('w, 'fd) socket_api \<Rightarrow> 'fd \<Rightarrow> 'w \<Rightarrow> (io_error + nat) \<times> 'w" where
  "recv_buf A fd = try_recv_buf A fd"

definition send_buf :: "('w, 'fd) socket_api \<Rightarrow> usize \<Rightarrow> 'fd \<Rightarrow> 'w \<Rightarrow> (io_error + nat) \<times> 'w" where
  "send_buf A literal_at fd = try_send_buf A literal_at fd"

definition read_buf :: "('w, 'fd) socket_api \<Rightarrow> 'fd \<Rightarrow> 'w \<Rightarrow> (io_error + nat) \<times> 'w" where
  "read_buf A fd = try_io A fd (\<lambda>w. io_result A (sys_read A fd 512 w))"

definition write_buf :: "('w, 'fd) socket_api \<Rightarrow> usize \<Rightarrow> 'fd \<Rightarrow> 'w \<Rightarrow> (io_error + nat) \<times> 'w" where
  "write_buf A literal_at fd =
     try_io A fd (\<lambda>w. io_result A (sys_write A fd (bytes_behind_ref literal_at) w))"

section \<open>mio-UdpDgram\<close>

definition udp_receiver :: "('w, 'fd) socket_api \<Rightarrow> nat \<Rightarrow> 'w \<Rightarrow> (report list \<times> 'w) outcome" where
  "udp_receiver A n w =
     (case mio_bind A ''127.0.0.1:34567'' w of
        (Inl e, w1) \<Rightarrow> Some (Inl (Returned e))
      | (Inr dgram, w1) \<Rightarrow> receiver_thread A dgram (recv_buf A dgram) n w1)"

definition udp_sender :: "('w, 'fd) socket_api \<Rightarrow> usize \<Rightarrow> nat \<Rightarrow> 'w \<Rightarrow> (report list \<times> 'w) outcome" where
  "udp_sender A literal_at n w =
     (case mio_bind A ''127.0.0.1:0'' w of
        (Inl e, w1) \<Rightarrow> Some (Inl (Returned e))
      | (Inr dgram, w1) \<Rightarrow>
          (case mio_connect A dgram ''127.0.0.1:34567'' w1 of
             (Inl e, w2) \<Rightarrow> Some (Inl (Panicked Unwrap_Err))
           | (Inr _, w2) \<Rightarrow> sender_thread A dgram (send_buf A literal_at dgram) n w2))"

text \<open>
  \<open>main\<close> spawns the two threads (each here for a number of rounds, from its own view of the world)
  and joins them.
\<close>

definition udp_main :: "('w, 'fd) socket_api \<Rightarrow> usize \<Rightarrow> nat \<Rightarrow> 'w \<Rightarrow> stop list \<times> bool" where
  "udp_main A literal_at n w = join_both (ended (udp_receiver A n w)) (ended (udp_sender A literal_at n w))"

section \<open>mio-UnixStream, mio-UnixDgram and mio-UnixPipe\<close>

text \<open>The first end of a pair receives, the second sends; of a pipe, the first end sends.\<close>

definition unix_stream_receiver :: "('w, 'fd) socket_api \<Rightarrow> 'fd \<Rightarrow> nat \<Rightarrow> 'w \<Rightarrow> (report list \<times> 'w) outcome" where
  "unix_stream_receiver A stream1 n w = receiver_thread A stream1 (recv_buf A stream1) n w"

definition unix_stream_sender :: "('w, 'fd) socket_api \<Rightarrow> usize \<Rightarrow> 'fd \<Rightarrow> nat \<Rightarrow> 'w \<Rightarrow> (report list \<times> 'w) outcome" where
  "unix_stream_sender A literal_at stream2 n w =
     sender_thread A stream2 (send_buf A literal_at stream2) n w"

definition unix_dgram_receiver :: "('w, 'fd) socket_api \<Rightarrow> 'fd \<Rightarrow> nat \<Rightarrow> 'w \<Rightarrow> (report list \<times> 'w) outcome" where
  "unix_dgram_receiver A dgram1 n w = receiver_thread A dgram1 (recv_buf A dgram1) n w"

definition unix_dgram_sender :: "('w, 'fd) socket_api \<Rightarrow> usize \<Rightarrow> 'fd \<Rightarrow> nat \<Rightarrow> 'w \<Rightarrow> (report list \<times> 'w) outcome" where
  "unix_dgram_sender A literal_at dgram2 n w =
     sender_thread A dgram2 (send_buf A literal_at dgram2) n w"

definition pipe_receiver :: "('w, 'fd) socket_api \<Rightarrow> 'fd \<Rightarrow> nat \<Rightarrow> 'w \<Rightarrow> (report list \<times> 'w) outcome" where
  "pipe_receiver A receiver n w = receiver_thread A receiver (read_buf A receiver) n w"

definition pipe_sender :: "('w, 'fd) socket_api \<Rightarrow> usize \<Rightarrow> 'fd \<Rightarrow> nat \<Rightarrow> 'w \<Rightarrow> (report list \<times> 'w) outcome" where
  "pipe_sender A literal_at sender n w =
     sender_thread A sender (write_buf A literal_at sender) n w"

text \<open>
  \<open>main\<close> makes the two ends, spawns the two threads and joins them; a failing \<open>pair\<close> ends the
  program with its error.
\<close>

definition unix_stream_main :: "('w, 'fd) socket_api \<Rightarrow> usize \<Rightarrow> nat \<Rightarrow> 'w \<Rightarrow> io_error + stop list \<times> bool" where
  "unix_stream_main A literal_at n w =
     (case stream_pair A w of
        (Inl e, w1) \<Rightarrow> Inl e
      | (Inr (stream1, stream2), w1) \<Rightarrow>
          Inr (join_both (ended (unix_stream_receiver A stream1 n w1))
            (ended (unix_stream_sender A literal_at stream2 n w1))))"

definition unix_dgram_main :: "('w, 'fd) socket_api \<Rightarrow> usize \<Rightarrow> nat \<Rightarrow> 'w \<Rightarrow> io_error + stop list \<times> bool" where
  "unix_dgram_main A literal_at n w =
     (case dgram_pair A w of
        (Inl e, w1) \<Rightarrow> Inl e
      | (Inr (dgram1, dgram2), w1) \<Rightarrow>
          Inr (join_both (ended (unix_dgram_receiver A dgram1 n w1))
            (ended (unix_dgram_sender A literal_at dgram2 n w1))))"

definition pipe_main :: "('w, 'fd) socket_api \<Rightarrow> usize \<Rightarrow> nat \<Rightarrow> 'w \<Rightarrow> io_error + stop list \<times> bool" where
  "pipe_main A literal_at n w =
     (case new_pipe A w of
        (Inl e, w1) \<Rightarrow> Inl e
      | (Inr (sender, receiver), w1) \<Rightarrow>
          Inr (join_both (ended (pipe_receiver A receiver n w1))
            (ended (pipe_sender A literal_at sender n w1))))"

section \<open>What the operating system does\<close>

text \<open>
  A datagram socket: the sizes of the datagrams queued.  A call takes one datagram, cut off at
  512 bytes; on an empty queue it would block.
\<close>

definition dgram_socket_laws :: "('w, 'fd, 'z) mio_api_scheme \<Rightarrow> 'fd \<Rightarrow> ('w \<Rightarrow> nat list) \<Rightarrow> bool" where
  "dgram_socket_laws A fd q \<longleftrightarrow> try_io_laws A q \<and>
     (\<forall>w. case q w of
        [] \<Rightarrow> fst (sys_recv A fd 512 w) = -1 \<and> kind (os_error A (snd (sys_recv A fd 512 w))) = WouldBlock
              \<and> q (snd (sys_recv A fd 512 w)) = []
      | n # ns \<Rightarrow> fst (sys_recv A fd 512 w) = int (min 512 n) \<and> q (snd (sys_recv A fd 512 w)) = ns)"

text \<open>
  A byte stream whose other end may be closed: the number of bytes that can be read and whether
  the end of the stream follows them.  Reading at the end gives 0, again and again.
\<close>

definition stream_laws :: "('fd \<Rightarrow> nat \<Rightarrow> 'w \<Rightarrow> int \<times> 'w) \<Rightarrow> ('w \<Rightarrow> io_error) \<Rightarrow> 'fd \<Rightarrow> ('w \<Rightarrow> nat \<times> bool) \<Rightarrow> bool" where
  "stream_laws call err fd q \<longleftrightarrow>
     (\<forall>w. let n = fst (q w); closed = snd (q w); r = call fd 512 w in
        if 0 < n then fst r = int (min 512 n) \<and> q (snd r) = (n - min 512 n, closed)
        else if closed then fst r = 0 \<and> q (snd r) = (0, True)
        else fst r = -1 \<and> kind (err (snd r)) = WouldBlock \<and> q (snd r) = (0, False))"

lemma io_result_step:
  "io_result A r = (res, w1) \<longleftrightarrow> w1 = snd r \<and>
     res = (if fst r \<noteq> -1 then Inr (nat (fst r mod 2 ^ 64)) else Inl (os_error A (snd r)))"
  by (auto simp: io_result_def)

lemma recv_buf_parts:
  assumes "try_io_laws A q"
  shows "fst (recv_buf A fd w) = (if fst (sys_recv A fd 512 w) \<noteq> -1
      then Inr (nat (fst (sys_recv A fd 512 w) mod 2 ^ 64))
      else Inl (os_error A (snd (sys_recv A fd 512 w))))"
    and "q (snd (recv_buf A fd w)) = q (snd (sys_recv A fd 512 w))"
  using assms by (simp_all add: recv_buf_def try_recv_buf_def try_io_laws_def io_result_def)

lemma read_buf_parts:
  assumes "try_io_laws A q"
  shows "fst (read_buf A fd w) = (if fst (sys_read A fd 512 w) \<noteq> -1
      then Inr (nat (fst (sys_read A fd 512 w) mod 2 ^ 64))
      else Inl (os_error A (snd (sys_read A fd 512 w))))"
    and "q (snd (read_buf A fd w)) = q (snd (sys_read A fd 512 w))"
  using assms by (simp_all add: read_buf_def try_io_laws_def io_result_def)

section \<open>Datagram receivers\<close>

text \<open>
  C21: On a readable event the receiver of \<open>mio-UdpDgram\<close> (and of \<open>mio-UnixDgram\<close>, whose loop is the
  same) takes every queued datagram, in order, printing its size cut off at the 512 bytes of the
  buffer, and goes back to the poll with the queue empty.
\<close>

theorem dgram_receiver_reads_all:
  assumes "dgram_socket_laws A fd q" and "ev_readable ev"
  shows "\<exists>w'. on_readable (recv_buf A fd) ev (out, w)
      = Some (Inr (out @ map (\<lambda>n. Did_Read (min 512 n)) (q w), w')) \<and> q w' = []"
proof -
  have tl: "try_io_laws A q" using assms(1) by (simp add: dgram_socket_laws_def)
  have "\<exists>w'. recv_until_block (recv_buf A fd) out w
      = Some (out @ map Did_Read (map (min 512) (q w)), w') \<and> map (min 512) (q w') = []"
  proof (rule recv.takes_queue [where q = "\<lambda>w. map (min 512) (q w)"])
    fix w n ns assume "map (min 512) (q w) = n # ns"
    then obtain k ks where k: "q w = k # ks" "n = min 512 k" "ns = map (min 512) ks" by auto
    then have "fst (sys_recv A fd 512 w) = int n" "q (snd (sys_recv A fd 512 w)) = ks"
      using assms(1) by (auto simp: dgram_socket_laws_def dest!: spec [of _ w])
    moreover have "n < 2 ^ 64" using k by simp
    ultimately have "fst (recv_buf A fd w) = Inr n" "q (snd (recv_buf A fd w)) = ks"
      by (simp_all add: recv_buf_parts [OF tl])
    with k show "\<exists>w1. recv_buf A fd w = (Inr n, w1) \<and> map (min 512) (q w1) = ns"
      by (metis prod.collapse)
  next
    fix w assume "map (min 512) (q w) = []"
    then have "fst (sys_recv A fd 512 w) = -1" "kind (os_error A (snd (sys_recv A fd 512 w))) = WouldBlock"
      "q (snd (sys_recv A fd 512 w)) = []"
      using assms(1) by (auto simp: dgram_socket_laws_def dest!: spec [of _ w])
    then have "fst (recv_buf A fd w) = Inl (os_error A (snd (sys_recv A fd 512 w)))" "q (snd (recv_buf A fd w)) = []"
      "kind (os_error A (snd (sys_recv A fd 512 w))) = WouldBlock"
      by (simp_all add: recv_buf_parts [OF tl])
    then show "\<exists>e w1. recv_buf A fd w = (Inl e, w1) \<and> kind e = WouldBlock \<and> map (min 512) (q w1) = []"
      by (metis list.simps(8) prod.collapse)
  qed
  with assms(2) show ?thesis by (auto simp: on_readable_def)
qed

section \<open>Stream receivers\<close>

text \<open>Reading at the end of a stream never blocks, so the loop does not return.\<close>

lemma closed_stream_spins:
  assumes "try_io_laws A q" and "stream_laws (sys_recv A) (os_error A) fd q" and "snd (q w)"
  shows "recv_until_block (recv_buf A fd) out w = None"
proof (rule recv.never_returns [where P = "\<lambda>w. snd (q w)"])
  fix v assume "snd (q v)"
  with assms(2) [unfolded stream_laws_def, rule_format, of v]
  show "(\<forall>e. fst (recv_buf A fd v) = Inl e \<longrightarrow> kind e \<noteq> WouldBlock) \<and> snd (q (snd (recv_buf A fd v)))"
    by (auto simp: recv_buf_parts [OF assms(1)] Let_def split: if_splits)
qed (rule assms(3))

lemma closed_pipe_spins:
  assumes "try_io_laws A q" and "stream_laws (sys_read A) (os_error A) fd q" and "snd (q w)"
  shows "recv_until_block (read_buf A fd) out w = None"
proof (rule recv.never_returns [where P = "\<lambda>w. snd (q w)"])
  fix v assume "snd (q v)"
  with assms(2) [unfolded stream_laws_def, rule_format, of v]
  show "(\<forall>e. fst (read_buf A fd v) = Inl e \<longrightarrow> kind e \<noteq> WouldBlock) \<and> snd (q (snd (read_buf A fd v)))"
    by (auto simp: read_buf_parts [OF assms(1)] Let_def split: if_splits)
qed (rule assms(3))

text \<open>An event handler that does not return keeps the whole thread.\<close>

lemma for_events_stuck:
  assumes "ev \<in> set evs" and "\<And>s. Q s \<Longrightarrow> h ev s = None"
    and "\<And>e s. Q s \<Longrightarrow> h e s = None \<or> (\<exists>s'. h e s = Some (Inr s') \<and> Q s')" and "Q s"
  shows "for_events h evs s = None"
  using assms(1,4)
proof (induction evs arbitrary: s)
  case (Cons e es)
  show ?case
  proof (cases "h e s")
    case (Some r)
    then obtain s' where "r = Inr s'" "Q s'" using assms(3) [OF Cons.prems(2), of e] by auto
    moreover from this Some Cons.prems assms(2) have "ev \<in> set es" by auto
    ultimately show ?thesis using Cons.IH Some by simp
  qed simp
qed simp

lemma receiver_stuck:
  assumes spins: "\<And>out w. Q w \<Longrightarrow> recv_until_block io out w = None"
    and start: "poll_new A w = (Inr p, w1)" "register A p fd (Token 0) READABLE w1 = (Inr (), w2)"
    and wait: "poll_wait A p w2 = (Inr evs, w3)" "ev \<in> set evs" "ev_readable ev" "Q w3"
  shows "receiver_thread A fd io (Suc n) w = None"
proof -
  have "for_events (on_readable io) evs ([], w3) = None"
    by (rule for_events_stuck [OF wait(2), where Q = "\<lambda>s. Q (snd s)"])
      (use wait spins in \<open>auto simp: on_readable_def\<close>)
  with start wait(1) show ?thesis by (simp add: receiver_thread_def wait_events_def)
qed

text \<open>
  C22: When the other end of the stream is closed, the receivers of \<open>mio-UnixStream\<close> and
  \<open>mio-UnixPipe\<close> spin: they treat the 0 of the end of the stream as data and read again, and since a
  read at the end never blocks, the first readable event after the close keeps the thread in its
  inner loop for ever.
\<close>

theorem stream_receivers_spin_at_end:
  assumes laws: "try_io_laws A q"
    and start: "poll_new A w = (Inr p, w1)" "register A p fd (Token 0) READABLE w1 = (Inr (), w2)"
    and wait: "poll_wait A p w2 = (Inr evs, w3)" "ev \<in> set evs" "ev_readable ev" "snd (q w3)"
  shows "(stream_laws (sys_recv A) (os_error A) fd q \<longrightarrow> unix_stream_receiver A fd (Suc n) w = None)
    \<and> (stream_laws (sys_read A) (os_error A) fd q \<longrightarrow> pipe_receiver A fd (Suc n) w = None)"
proof (intro conjI impI)
  assume "stream_laws (sys_recv A) (os_error A) fd q"
  then show "unix_stream_receiver A fd (Suc n) w = None" unfolding unix_stream_receiver_def
    by (intro receiver_stuck [where Q = "\<lambda>w. snd (q w)", OF _ start wait] closed_stream_spins [OF laws])
next
  assume "stream_laws (sys_read A) (os_error A) fd q"
  then show "pipe_receiver A fd (Suc n) w = None" unfolding pipe_receiver_def
    by (intro receiver_stuck [where Q = "\<lambda>w. snd (q w)", OF _ start wait] closed_pipe_spins [OF laws])
qed

section \<open>Senders\<close>

text \<open>
  The senders do not send \<open>hello\<close>: they hand the system call the address of the reference, so
  the five bytes sent are the low bytes of the address of the literal; they spell \<open>hello\<close> only if
  that address happens to end in these bytes.
\<close>

theorem senders_send_the_address:
  "bytes_behind_ref literal_at = le_bytes 5 (unat literal_at)
    \<and> (bytes_behind_ref literal_at = hello \<longleftrightarrow> unat literal_at mod 256 ^ 5 = 478560413032)"
proof -
  have "length hello = 5" by (simp add: hello_def)
  then have b: "bytes_behind_ref literal_at = le_bytes 5 (unat literal_at)"
    by (simp add: bytes_behind_ref_def le_bytes_take del: le_bytes.simps)
  have h: "hello = le_bytes 5 478560413032"
  proof -
    have "(5 :: nat) = Suc (Suc (Suc (Suc (Suc 0))))" by simp
    then show ?thesis by (simp only: hello_def le_bytes.simps) simp
  qed
  show ?thesis unfolding b unfolding h le_bytes_inject by simp
qed

text \<open>
  What a sending call promises: it takes a prefix of the bytes, of the length it returns, or fails
  and takes nothing.  \<open>sent\<close> is the log of what the calls have taken; the other end may read from the
  socket at any time, which no law restricts.
\<close>

definition sender_laws :: "('fd \<Rightarrow> u8 list \<Rightarrow> 'w \<Rightarrow> int \<times> 'w) \<Rightarrow> 'fd \<Rightarrow> ('w \<Rightarrow> u8 list list) \<Rightarrow> bool" where
  "sender_laws call fd sent \<longleftrightarrow>
     (\<forall>bs w. let r = call fd bs w in
        if fst r = -1 then sent (snd r) = sent w
        else 0 \<le> fst r \<and> fst r \<le> int (length bs) \<and> sent (snd r) = sent w @ [take (nat (fst r)) bs])"

text \<open>What a list of reports says has been taken of each message.\<close>

fun written :: "u8 list \<Rightarrow> report list \<Rightarrow> u8 list list" where
  "written bs [] = []"
| "written bs (Did_Write n # rs) = take n bs # written bs rs"
| "written bs (_ # rs) = written bs rs"

lemma written_append [simp]: "written bs (rs @ rs') = written bs rs @ written bs rs'"
  by (induction bs rs rule: written.induct) simp_all

text \<open>One call: the log grows by what the report says.\<close>

lemma call_logged:
  assumes laws: "sender_laws call fd sent" and try_io: "try_io_laws A sent" and short: "length bs < 2 ^ 63"
    and io: "io = try_io A fd (\<lambda>w. io_result A (call fd bs w))"
  shows "sent (snd (io v)) = sent v @ written bs [report_of Did_Write (fst (io v))]"
    and "report_of Did_Write (fst (io v)) = Did_Write n \<Longrightarrow> n \<le> length bs"
proof -
  let ?r = "call fd bs v"
  have parts: "fst (io v) = fst (io_result A ?r)" "sent (snd (io v)) = sent (snd ?r)"
    using try_io by (simp_all add: io try_io_laws_def io_result_def)
  note law = laws [unfolded sender_laws_def Let_def, rule_format, of bs v]
  have "sent (snd (io v)) = sent v @ written bs [report_of Did_Write (fst (io v))]
    \<and> (report_of Did_Write (fst (io v)) = Did_Write n \<longrightarrow> n \<le> length bs)"
  proof (cases "fst ?r = -1")
    case True
    then have "fst (io v) = Inl (os_error A (snd ?r))" by (simp only: parts io_result_def) simp
    with True law parts(2) show ?thesis by simp
  next
    case False
    with law have bounds: "0 \<le> fst ?r" "fst ?r \<le> int (length bs)" by simp_all
    with short have "nat (fst ?r mod 2 ^ 64) = nat (fst ?r)" by (simp add: mod_pos_pos_trivial)
    with False have "fst (io v) = Inr (nat (fst ?r))" by (simp only: parts io_result_def) simp
    with False law parts(2) bounds show ?thesis by auto
  qed
  then show "sent (snd (io v)) = sent v @ written bs [report_of Did_Write (fst (io v))]"
    and "report_of Did_Write (fst (io v)) = Did_Write n \<Longrightarrow> n \<le> length bs" by blast+
qed

lemma calls_logged:
  assumes call: "\<And>v. sent (snd (io v)) = sent v @ written bs [report_of Did_Write (fst (io v))]"
    and after: "\<And>v. sent (after v) = sent v"
  shows "sent (before_call io after k w)
    = sent w @ written bs (map (\<lambda>j. report_of Did_Write (fst (io (before_call io after j w)))) [0..<k])"
  by (induction k) (simp_all add: call after)

lemma call_at_block: "at_block io v \<Longrightarrow> written bs [report_of Did_Write (fst (io v))] = []"
  by (auto simp: at_block_def)

lemma send_never_returns:
  assumes "\<And>k. \<not> at_block io (before_call io sleep k w)"
  shows "send_until_block io sleep out w = None"
proof (rule send.never_returns [where P = "\<lambda>v. \<exists>k. v = before_call io sleep k w"])
  show "\<exists>k. w = before_call io sleep k w" by (rule exI [of _ 0]) simp
next
  fix v assume "\<exists>k. v = before_call io sleep k w"
  then obtain k where k: "v = before_call io sleep k w" ..
  then have "sleep (snd (io v)) = before_call io sleep (Suc k) w" by simp
  with assms [of k] k show "(\<forall>e. fst (io v) = Inl e \<longrightarrow> kind e \<noteq> WouldBlock)
      \<and> (\<exists>k. sleep (snd (io v)) = before_call io sleep k w)"
    unfolding at_block_def by blast
qed

text \<open>
  C38: On a writable event the senders of \<open>mio-UdpDgram\<close>, \<open>mio-UnixStream\<close> and \<open>mio-UnixDgram\<close> (with
  \<open>send\<close>) and of \<open>mio-UnixPipe\<close> (with \<open>write\<close>) call and sleep until a call would block, whoever else
  uses the socket meanwhile.  Let \<open>k\<close> be the number of calls before the first that would block: the
  sender prints the result of each of these calls, in order, and goes back to the poll, and what it
  has handed over is, call by call, as many bytes as it printed, at most five, of the address of the
  literal, instead of the literal \<open>hello\<close>.  What a call leaves unsent is not sent again: the next call
  starts anew.  If no call ever blocks, the sender never goes back to the poll.
\<close>

theorem senders_send_until_block:
  assumes try_io: "try_io_laws A sent" and nap: "\<forall>w. sent (nap A 1 w) = sent w" and ev: "ev_writable ev"
    and io: "sender_laws (sys_send A) fd sent \<and> io = send_buf A literal_at fd
      \<or> sender_laws (sys_write A) fd sent \<and> io = write_buf A literal_at fd"
    and reports: "\<forall>k. reports k
      = map (\<lambda>j. report_of Did_Write (fst (io (before_call io (nap A 1) j w)))) [0..<k]"
  shows "(\<forall>k. at_block io (before_call io (nap A 1) k w)
          \<and> (\<forall>j<k. \<not> at_block io (before_call io (nap A 1) j w))
        \<longrightarrow> (\<exists>w'. on_writable io (nap A 1) ev (out, w) = Some (Inr (out @ reports k, w'))
          \<and> sent w' = sent w @ written (le_bytes 5 (unat literal_at)) (reports k)
          \<and> (\<forall>n. Did_Write n \<in> set (reports k) \<longrightarrow> n \<le> 5)))
      \<and> ((\<forall>k. \<not> at_block io (before_call io (nap A 1) k w)) \<longrightarrow> on_writable io (nap A 1) ev (out, w) = None)"
proof -
  let ?bs = "le_bytes 5 (unat literal_at)"
  have bytes: "bytes_behind_ref literal_at = ?bs" using senders_send_the_address by blast
  have five: "length ?bs = 5" by simp
  from io obtain call where laws: "sender_laws call fd sent"
    and io_call: "io = try_io A fd (\<lambda>w. io_result A (call fd ?bs w))"
    by (auto simp: send_buf_def try_send_buf_def write_buf_def bytes)
  note logged = call_logged [OF laws try_io _ io_call, unfolded five, simplified]
  show ?thesis
  proof (intro conjI allI impI, elim conjE)
    fix k assume k: "at_block io (before_call io (nap A 1) k w)"
      and before: "\<forall>j<k. \<not> at_block io (before_call io (nap A 1) j w)"
    let ?w' = "snd (io (before_call io (nap A 1) k w))"
    have "on_writable io (nap A 1) ev (out, w) = Some (Inr (out @ reports k, ?w'))"
      using send.runs_to_block [OF k] before ev reports by (simp add: on_writable_def)
    moreover have "sent ?w' = sent w @ written ?bs (reports k)"
      using calls_logged [where sent = sent and io = io and after = "nap A 1", OF logged(1)] nap reports
        logged(1) [of "before_call io (nap A 1) k w"] call_at_block [OF k] by simp
    moreover have "\<forall>n. Did_Write n \<in> set (reports k) \<longrightarrow> n \<le> 5"
    proof (intro allI impI)
      fix n assume "Did_Write n \<in> set (reports k)"
      then obtain j where "report_of Did_Write (fst (io (before_call io (nap A 1) j w))) = Did_Write n"
        using reports by (metis (no_types, lifting) image_iff list.set_map)
      then show "n \<le> 5" by (rule logged(2))
    qed
    ultimately show "\<exists>w'. on_writable io (nap A 1) ev (out, w) = Some (Inr (out @ reports k, w'))
        \<and> sent w' = sent w @ written ?bs (reports k)
        \<and> (\<forall>n. Did_Write n \<in> set (reports k) \<longrightarrow> n \<le> 5)" by blast
  next
    assume "\<forall>k. \<not> at_block io (before_call io (nap A 1) k w)"
    then show "on_writable io (nap A 1) ev (out, w) = None"
      using send_never_returns [of io "nap A 1" w out] ev by (simp add: on_writable_def)
  qed
qed

section \<open>Witnesses\<close>

definition would_block :: io_error where
  "would_block = Io_Error WouldBlock ''Resource temporarily unavailable''"

definition sample_mio :: "('w \<Rightarrow> int \<times> 'w) \<Rightarrow> ('w, nat) socket_api" where
  "sample_mio call = \<lparr>poll_new = (\<lambda>w. (Inr 1, w)), register = (\<lambda>p fd t i w. (Inr (), w)),
     deregister = (\<lambda>p fd w. (Inr (), w)), poll_wait = (\<lambda>p w. (Inr [\<lparr>ev_token = Token 0, ev_readable = True,
       ev_writable = False\<rparr>], w)), try_io = (\<lambda>fd f w. f w), sys_recv = (\<lambda>fd n w. call w),
     sys_send = (\<lambda>fd bs w. (int (length bs), w)), os_error = (\<lambda>w. would_block), nap = (\<lambda>n w. w),
     mio_bind = (\<lambda>a w. (Inr 3, w)), mio_connect = (\<lambda>fd a w. (Inr (), w)),
     stream_pair = (\<lambda>w. (Inr (3, 4), w)), dgram_pair = (\<lambda>w. (Inr (3, 4), w)),
     new_pipe = (\<lambda>w. (Inr (3, 4), w)), sys_read = (\<lambda>fd n w. call w),
     sys_write = (\<lambda>fd bs w. (int (length bs), w))\<rparr>"

fun take_dgram :: "nat list \<Rightarrow> int \<times> nat list" where
  "take_dgram [] = (-1, [])"
| "take_dgram (n # ns) = (int (min 512 n), ns)"

definition take_bytes :: "nat \<times> bool \<Rightarrow> int \<times> nat \<times> bool" where
  "take_bytes w = (if 0 < fst w then (int (min 512 (fst w)), fst w - min 512 (fst w), snd w)
     else if snd w then (0, w) else (-1, w))"

lemma sample_socket_laws: "dgram_socket_laws (sample_mio take_dgram) 3 (\<lambda>w. w)"
  by (auto simp: dgram_socket_laws_def try_io_laws_def sample_mio_def would_block_def split: list.split)

lemma sample_stream_laws:
  "stream_laws (sys_recv (sample_mio take_bytes)) (os_error (sample_mio take_bytes)) 3 (\<lambda>w. w)"
  by (auto simp: stream_laws_def sample_mio_def take_bytes_def would_block_def Let_def)

theorem dgram_receiver_reads_all_witness:
  "\<exists>w'. on_readable (recv_buf (sample_mio take_dgram) 3)
      \<lparr>ev_token = Token 0, ev_readable = True, ev_writable = False\<rparr> ([], [5, 700])
    = Some (Inr ([Did_Read 5, Did_Read 512], w'))"
  using dgram_receiver_reads_all [OF sample_socket_laws, of
      "\<lparr>ev_token = Token 0, ev_readable = True, ev_writable = False\<rparr>" "[]" "[5, 700]"]
  by auto

theorem stream_receivers_spin_at_end_witness:
  "unix_stream_receiver (sample_mio take_bytes) 3 (Suc 0) (5, True) = None"
proof -
  have "try_io_laws (sample_mio take_bytes) (\<lambda>w. w)" by (simp add: try_io_laws_def sample_mio_def)
  from stream_receivers_spin_at_end [OF this, of "(5, True)" 1 "(5, True)" 3 "(5, True)"
      "[\<lparr>ev_token = Token 0, ev_readable = True, ev_writable = False\<rparr>]" "(5, True)" _ 0]
  show ?thesis using sample_stream_laws by (auto simp: sample_mio_def)
qed

text \<open>
  A socket with room for some bytes, whose other end reads some of them in each sleep of the sender;
  a call takes what fits.
\<close>

record sink =
  snk_log :: "u8 list list"
  snk_room :: nat
  snk_reads :: "nat list"

definition take_room :: "u8 list \<Rightarrow> sink \<Rightarrow> int \<times> sink" where
  "take_room bs w = (let n = min (snk_room w) (length bs) in
     if snk_room w = 0 then (-1, w) else (int n, w\<lparr>snk_log := snk_log w @ [take n bs], snk_room := snk_room w - n\<rparr>))"

definition read_some :: "sink \<Rightarrow> sink" where
  "read_some w = (case snk_reads w of [] \<Rightarrow> w | n # ns \<Rightarrow> w\<lparr>snk_room := snk_room w + n, snk_reads := ns\<rparr>)"

definition sample_sink :: "(sink, nat) socket_api" where
  "sample_sink = sample_mio (\<lambda>w. (-1, w)) \<lparr>sys_send := \<lambda>fd bs w. take_room bs w, nap := \<lambda>n. read_some\<rparr>"

lemma sample_sender_laws: "sender_laws (sys_send sample_sink) 3 snk_log"
  by (auto simp: sender_laws_def sample_sink_def sample_mio_def take_room_def Let_def)

text \<open>Seven bytes fit, and the other end reads two in the first sleep: the second call takes four.\<close>

theorem senders_send_until_block_witness:
  "\<exists>w'. on_writable (send_buf sample_sink 0x5040302010 3) (nap sample_sink 1)
      \<lparr>ev_token = Token 0, ev_readable = False, ev_writable = True\<rparr>
      ([], \<lparr>snk_log = [], snk_room = 7, snk_reads = [2]\<rparr>)
    = Some (Inr ([Did_Write 5, Did_Write 4], w'))
    \<and> snk_log w' = [[0x10, 0x20, 0x30, 0x40, 0x50], [0x10, 0x20, 0x30, 0x40]]"
proof -
  let ?io = "send_buf sample_sink 0x5040302010 3" and ?ev = "\<lparr>ev_token = Token 0, ev_readable = False, ev_writable = True\<rparr>"
  let ?w = "\<lparr>snk_log = [], snk_room = 7, snk_reads = [2]\<rparr>" and ?two = "Suc (Suc 0)"
  let ?reports = "\<lambda>k. map (\<lambda>j. report_of Did_Write (fst (?io (before_call ?io (nap sample_sink 1) j ?w)))) [0..<k]"
  have nap: "\<forall>w. snk_log (nap sample_sink 1 w) = snk_log w" and try_io: "try_io_laws sample_sink snk_log"
    by (simp_all add: sample_sink_def sample_mio_def try_io_laws_def read_some_def split: list.split)
  have b: "le_bytes 5 (unat (0x5040302010 :: usize)) = [0x10, 0x20, 0x30, 0x40, 0x50]"
  proof -
    have "(5 :: nat) = Suc (Suc (Suc (Suc (Suc 0))))" by simp
    then show ?thesis by (simp only: le_bytes.simps) simp
  qed
  have bytes: "bytes_behind_ref 0x5040302010 = [0x10, 0x20, 0x30, 0x40, 0x50]"
    using senders_send_the_address [of "0x5040302010"] b by simp
  have io: "?io w = io_result sample_sink (take_room [0x10, 0x20, 0x30, 0x40, 0x50] w)" for w
    by (simp add: send_buf_def try_send_buf_def sample_sink_def sample_mio_def bytes)
  have numeral_5: "Suc (Suc (Suc (Suc (Suc 0)))) = 5" by simp
  note world = sample_sink_def sample_mio_def io_result_def take_room_def read_some_def would_block_def Let_def
  have calls: "?io \<lparr>snk_log = l, snk_room = r, snk_reads = ns\<rparr> = (if r = 0
      then (Inl would_block, \<lparr>snk_log = l, snk_room = r, snk_reads = ns\<rparr>)
      else (Inr (min r 5), \<lparr>snk_log = l @ [take (min r 5) [0x10, 0x20, 0x30, 0x40, 0x50]], snk_room = r - min r 5, snk_reads = ns\<rparr>))"
    for l r ns unfolding io by (simp add: world numeral_5)
  have naps: "nap sample_sink 1 \<lparr>snk_log = l, snk_room = r, snk_reads = [2]\<rparr> = \<lparr>snk_log = l, snk_room = r + 2, snk_reads = []\<rparr>"
    "nap sample_sink 1 \<lparr>snk_log = l, snk_room = r, snk_reads = []\<rparr> = \<lparr>snk_log = l, snk_room = r, snk_reads = []\<rparr>"
    for l r by (simp_all add: world)
  have "?reports ?two = [Did_Write 5, Did_Write 4]" "at_block ?io (before_call ?io (nap sample_sink 1) ?two ?w)"
    "\<forall>j<?two. \<not> at_block ?io (before_call ?io (nap sample_sink 1) j ?w)"
    by (simp_all only: before_call.simps calls naps snd_conv) (simp_all add: calls naps [unfolded One_nat_def] at_block_def would_block_def less_Suc_eq)
  moreover have "written [0x10, 0x20, 0x30, 0x40, 0x50] [Did_Write 5, Did_Write 4]
      = [[0x10, 0x20, 0x30, 0x40, 0x50], [0x10, 0x20, 0x30, 0x40]]" by simp
  moreover note senders_send_until_block [OF try_io nap, of ?ev 3 ?io "0x5040302010" ?reports ?w "[]", THEN conjunct1,
      THEN spec, of ?two]
  ultimately show ?thesis using sample_sender_laws
    by (simp add: b [simplified] del: written.simps map_append upt_Suc before_call.simps)
qed

end
