(* ===== verification/Tcp_Server.thy ===== *)
theory Tcp_Server
  imports Mio_Loop
begin

text \<open>
  \<open>mio-TcpStream\<close>: a server that accepts connections, gives each a token of its own, keeps them in a
  table and reads from them until they are closed; and the client that writes to it.
\<close>

section \<open>Tokens\<close>

text \<open>Tokens are ordered by their value, as \<open>mio::Token\<close> derives it.\<close>

instantiation token :: linorder
begin

definition less_eq_token :: "token \<Rightarrow> token \<Rightarrow> bool" where
  "less_eq_token a b \<longleftrightarrow> token_value a \<le> token_value b"

definition less_token :: "token \<Rightarrow> token \<Rightarrow> bool" where
  "less_token a b \<longleftrightarrow> token_value a < token_value b"

instance
  by standard (auto simp: less_eq_token_def less_token_def intro: token.expand)

end

definition SERVER :: token where
  "SERVER = Token 0"

text \<open>\<open>next\<close>: the current token, and the counter incremented with the overflow check.\<close>

definition next_token :: "token \<Rightarrow> (token \<times> token) run" where
  "next_token current =
     (case uadd (token_value current) 1 of
        Inl p \<Rightarrow> Inl p
      | Inr v \<Rightarrow> Inr (Token (token_value current), Token v))"

section \<open>The server\<close>

record ('w, 'fd) tcp_api = "('w, 'fd) mio_api" +
  tcp_bind :: "string \<Rightarrow> 'w \<Rightarrow> (io_error + 'fd) \<times> 'w"
  tcp_accept :: "'fd \<Rightarrow> 'w \<Rightarrow> (io_error + 'fd) \<times> 'w"
  tcp_connect :: "string \<Rightarrow> 'w \<Rightarrow> (io_error + 'fd) \<times> 'w"

text \<open>The state of the thread: the table, the next token, what was printed, and the world.\<close>

record ('w, 'fd) server =
  connections :: "token \<rightharpoonup> 'fd"
  unique_token :: token
  printed :: "report list"
  world :: 'w

text \<open>The accept loop (lines 26 to 40).\<close>

partial_function (option) accept_loop ::
    "('w, 'fd) tcp_api \<Rightarrow> handle \<Rightarrow> 'fd \<Rightarrow> ('w, 'fd) server \<Rightarrow> ('w, 'fd) server outcome" where
  "accept_loop A p listener s =
     (case tcp_accept A listener (world s) of
        (Inl e, w1) \<Rightarrow>
          if kind e = WouldBlock then Some (Inr (s\<lparr>world := w1\<rparr>)) else Some (Inl (Returned e))
      | (Inr conn, w1) \<Rightarrow>
          (case next_token (unique_token s) of
             Inl pn \<Rightarrow> Some (Inl (Panicked pn))
           | Inr (token, unique) \<Rightarrow>
               (case register A p conn token READABLE w1 of
                  (Inl e, w2) \<Rightarrow> Some (Inl (Returned e))
                | (Inr _, w2) \<Rightarrow>
                    accept_loop A p listener
                      (s\<lparr>connections := (connections s)(token \<mapsto> conn), unique_token := unique, world := w2\<rparr>))))"

text \<open>The read loop of a connection (lines 44 to 83), with the flag \<open>done\<close>.\<close>

partial_function (option) conn_loop ::
    "('w \<Rightarrow> (io_error + nat) \<times> 'w) \<Rightarrow> report list \<Rightarrow> 'w \<Rightarrow> (bool \<times> report list \<times> 'w) outcome" where
  "conn_loop io out w =
     (case io w of
        (Inr n, w1) \<Rightarrow>
          if n = 0 then Some (Inr (True, out, w1)) else conn_loop io (out @ [Did_Read n]) w1
      | (Inl e, w1) \<Rightarrow>
          if kind e = WouldBlock then Some (Inr (False, out, w1)) else Some (Inl (Returned e)))"

text \<open>Removing a finished connection (lines 85 to 89).\<close>

definition remove_done ::
    "('w, 'fd) tcp_api \<Rightarrow> handle \<Rightarrow> token \<Rightarrow> bool \<Rightarrow> ('w, 'fd) server \<Rightarrow> ('w, 'fd) server outcome" where
  "remove_done A p token done s =
     (if done then
        (case connections s token of
           None \<Rightarrow> Some (Inr s)
         | Some conn \<Rightarrow>
             (case deregister A p conn (world s) of
                (Inl e, w1) \<Rightarrow> Some (Inl (Panicked Unwrap_Err))
              | (Inr _, w1) \<Rightarrow>
                  Some (Inr (s\<lparr>connections := (connections s)(token := None), world := w1\<rparr>))))
      else Some (Inr s))"

definition on_conn ::
    "('w, 'fd) tcp_api \<Rightarrow> handle \<Rightarrow> token \<Rightarrow> ('w, 'fd) server \<Rightarrow> ('w, 'fd) server outcome" where
  "on_conn A p token s =
     (case connections s token of
        None \<Rightarrow> remove_done A p token False s
      | Some conn \<Rightarrow>
          (case conn_loop (try_recv_buf A conn) (printed s) (world s) of
             None \<Rightarrow> None
           | Some (Inl stop) \<Rightarrow> Some (Inl stop)
           | Some (Inr (done, out, w1)) \<Rightarrow>
               remove_done A p token done (s\<lparr>printed := out, world := w1\<rparr>)))"

definition on_event ::
    "('w, 'fd) tcp_api \<Rightarrow> handle \<Rightarrow> 'fd \<Rightarrow> event \<Rightarrow> ('w, 'fd) server \<Rightarrow> ('w, 'fd) server outcome" where
  "on_event A p listener ev s =
     (if ev_token ev = SERVER then accept_loop A p listener s else on_conn A p (ev_token ev) s)"

definition server_wait :: "('w, 'fd) tcp_api \<Rightarrow> handle \<Rightarrow> ('w, 'fd) server \<Rightarrow> (io_error + event list) \<times> ('w, 'fd) server" where
  "server_wait A p s = (case poll_wait A p (world s) of (r, w1) \<Rightarrow> (r, s\<lparr>world := w1\<rparr>))"

definition server_init :: "'w \<Rightarrow> ('w, 'fd) server outcome" where
  "server_init w =
     (case uadd (token_value SERVER) 1 of
        Inl pn \<Rightarrow> Some (Inl (Panicked pn))
      | Inr v \<Rightarrow> Some (Inr \<lparr>connections = Map.empty, unique_token = Token v, printed = [], world = w\<rparr>))"

definition tcp_receiver :: "('w, 'fd) tcp_api \<Rightarrow> nat \<Rightarrow> 'w \<Rightarrow> ('w, 'fd) server outcome" where
  "tcp_receiver A n w =
     (case tcp_bind A ''127.0.0.1:34255'' w of
        (Inl e, w1) \<Rightarrow> Some (Inl (Returned e))
      | (Inr listener, w1) \<Rightarrow>
          (case poll_new A w1 of
             (Inl e, w2) \<Rightarrow> Some (Inl (Returned e))
           | (Inr p, w2) \<Rightarrow>
               (case register A p listener (Token 0) READABLE w2 of
                  (Inl e, w3) \<Rightarrow> Some (Inl (Returned e))
                | (Inr _, w3) \<Rightarrow>
                    (case server_init w3 of
                       Some (Inr s) \<Rightarrow> event_loop (server_wait A p) (on_event A p listener) n s
                     | stopped \<Rightarrow> stopped))))"

definition tcp_sender :: "('w, 'fd) tcp_api \<Rightarrow> usize \<Rightarrow> nat \<Rightarrow> 'w \<Rightarrow> (report list \<times> 'w) outcome" where
  "tcp_sender A literal_at n w =
     (case tcp_connect A ''127.0.0.1:34255'' w of
        (Inl e, w1) \<Rightarrow> Some (Inl (Returned e))
      | (Inr stream, w1) \<Rightarrow> sender_thread A stream (try_send_buf A literal_at stream) n w1)"

text \<open>\<open>main\<close> spawns both threads (each here from its own view of the world) and joins them.\<close>

definition tcp_main :: "('w, 'fd) tcp_api \<Rightarrow> usize \<Rightarrow> nat \<Rightarrow> 'w \<Rightarrow> stop list \<times> bool" where
  "tcp_main A literal_at n w = join_both (ended (tcp_receiver A n w)) (ended (tcp_sender A literal_at n w))"

end
