(* ===== verification/Tcp_Correct.thy ===== *)
theory Tcp_Correct
  imports Tcp_Server Mio_Programs
begin

text \<open>
  The connection table of the \<open>mio-TcpStream\<close> server: tokens are never reused, the table and the
  registry of the poll name the same sockets, and a connection that ends is removed.
\<close>

section \<open>Fresh tokens\<close>

text \<open>A source of tokens gives out tokens that were not issued before.\<close>

locale token_source =
  fixes nxt :: "'c \<Rightarrow> ('t \<times> 'c) run" and issued :: "'c \<Rightarrow> 't set"
  assumes fresh: "nxt c = Inr (t, c') \<Longrightarrow> t \<notin> issued c \<and> issued c' = insert t (issued c)"
begin

lemma reserved_kept: "t0 \<in> issued c \<Longrightarrow> nxt c = Inr (t, c') \<Longrightarrow> t \<noteq> t0 \<and> t0 \<in> issued c'"
  using fresh by blast

lemma table_grows:
  assumes "dom m \<subseteq> issued c" and "nxt c = Inr (t, c')"
  shows "m t = None" and "dom (m(t \<mapsto> x)) \<subseteq> issued c'" and "m \<subseteq>\<^sub>m m(t \<mapsto> x)"
proof -
  show "m t = None" using assms fresh [OF assms(2)] by auto
  then show "m \<subseteq>\<^sub>m m(t \<mapsto> x)" by (auto simp: map_le_def)
  show "dom (m(t \<mapsto> x)) \<subseteq> issued c'" using assms(1) fresh [OF assms(2)] by auto
qed

end

lemma next_token_Inr:
  "next_token c = Inr (t, c') \<Longrightarrow> t = c \<and> unat (token_value c') = unat (token_value c) + 1"
  by (auto simp: next_token_def dest: unat_uadd split: sum.splits)

interpretation tokens: token_source next_token "\<lambda>c. {t. t < c}"
proof
  fix c t c' assume "next_token c = Inr (t, c')"
  from next_token_Inr [OF this]
  have t: "t = c" and v: "unat (token_value c') = unat (token_value c) + 1" by auto
  have "u < c' \<longleftrightarrow> u < c \<or> u = c" for u
  proof -
    have "u < c' \<longleftrightarrow> unat (token_value u) < unat (token_value c) + 1"
      by (simp add: less_token_def word_less_nat_alt v)
    also have "\<dots> \<longleftrightarrow> u < c \<or> unat (token_value u) = unat (token_value c)"
      by (auto simp: less_token_def word_less_nat_alt)
    also have "unat (token_value u) = unat (token_value c) \<longleftrightarrow> u = c"
      by (auto simp: word_unat_eq_iff [symmetric] intro: token.expand)
    finally show ?thesis .
  qed
  with t show "t \<notin> {t. t < c} \<and> {t. t < c'} = insert t {t. t < c}" by auto
qed

section \<open>The libraries\<close>

text \<open>
  \<open>reg\<close>: the pairs of token and socket registered with the poll.  An accepted socket is a new one;
  a registered socket can be deregistered; nothing else changes the registrations.
\<close>

definition tcp_laws ::
    "('w, 'fd) tcp_api \<Rightarrow> handle \<Rightarrow> 'fd \<Rightarrow> ('w \<Rightarrow> (token \<times> 'fd) set) \<Rightarrow> bool" where
  "tcp_laws A p listener reg \<longleftrightarrow>
     try_io_laws A reg
     \<and> (\<forall>w. reg (snd (tcp_accept A listener w)) = reg w)
     \<and> (\<forall>w c. fst (tcp_accept A listener w) = Inr c \<longrightarrow> c \<notin> snd ` reg w)
     \<and> (\<forall>c t i w. fst (register A p c t i w) = Inr () \<longrightarrow> reg (snd (register A p c t i w)) = insert (t, c) (reg w))
     \<and> (\<forall>c w. c \<in> snd ` reg w \<longrightarrow> fst (deregister A p c w) = Inr ()
          \<and> reg (snd (deregister A p c w)) = {x \<in> reg w. snd x \<noteq> c})
     \<and> (\<forall>c n w. reg (snd (sys_recv A c n w)) = reg w)
     \<and> (\<forall>w. reg (snd (poll_wait A p w)) = reg w)"

definition table_rel :: "(token \<rightharpoonup> 'fd) \<Rightarrow> (token \<times> 'fd) set" where
  "table_rel m = {(t, c). m t = Some c}"

text \<open>
  The invariant of the server: its own token and the tokens in the table have been issued, and the
  registrations are the listener under \<open>SERVER\<close> and the connections under their tokens, each socket
  once.
\<close>

definition server_inv :: "('w \<Rightarrow> (token \<times> 'fd) set) \<Rightarrow> 'fd \<Rightarrow> ('w, 'fd) server \<Rightarrow> bool" where
  "server_inv reg listener s \<longleftrightarrow>
     SERVER < unique_token s
     \<and> dom (connections s) \<subseteq> {t. t < unique_token s}
     \<and> SERVER \<notin> dom (connections s)
     \<and> reg (world s) = insert (SERVER, listener) (table_rel (connections s))
     \<and> inj_on snd (reg (world s))"

declare inj_on_insert [iff del]

lemma server_inv_world:
  "server_inv reg listener s \<Longrightarrow> reg w = reg (world s) \<Longrightarrow> server_inv reg listener (s\<lparr>printed := out, world := w\<rparr>)"
  unfolding server_inv_def by (auto)

lemma server_inv_world': "server_inv reg listener s \<Longrightarrow> reg w = reg (world s) \<Longrightarrow> server_inv reg listener (s\<lparr>world := w\<rparr>)"
  unfolding server_inv_def by (auto)

text \<open>The two changes of the table.\<close>

lemma server_inv_add:
  assumes "server_inv reg listener s" and "next_token (unique_token s) = Inr (t, u)"
    and "c \<notin> snd ` reg (world s)" and "reg w = insert (t, c) (reg (world s))"
  shows "server_inv reg listener (s\<lparr>connections := (connections s)(t \<mapsto> c), unique_token := u, world := w\<rparr>)"
proof -
  have i: "SERVER \<in> {t. t < unique_token s}" "dom (connections s) \<subseteq> {t. t < unique_token s}"
    using assms(1) by (auto simp: server_inv_def)
  note g = tokens.table_grows [OF i(2) assms(2)] tokens.reserved_kept [OF i(1) assms(2)]
  have "table_rel ((connections s)(t \<mapsto> c)) = insert (t, c) (table_rel (connections s))"
    using g(1) by (auto simp: table_rel_def split: if_splits)
  moreover have "inj_on snd (reg w)"
    using assms by (auto simp: server_inv_def inj_on_def image_iff)
  ultimately show ?thesis using assms(1,4) g(2) [of c] g(4) by (auto simp: server_inv_def)
qed

lemma server_inv_remove:
  assumes "server_inv reg listener s" and "connections s t = Some c"
    and "reg w = {x \<in> reg (world s). snd x \<noteq> c}"
  shows "server_inv reg listener (s\<lparr>connections := (connections s)(t := None), world := w\<rparr>)"
proof -
  have inj: "inj_on snd (reg (world s))"
    and r: "reg (world s) = insert (SERVER, listener) (table_rel (connections s))"
    and srv: "SERVER \<noteq> t"
    using assms(1,2) by (auto simp: server_inv_def)
  have mem: "(t, c) \<in> reg (world s)" using r assms(2) by (auto simp: table_rel_def)
  have only: "snd x \<noteq> c \<longleftrightarrow> x \<noteq> (t, c)" if "x \<in> reg (world s)" for x
    using inj_onD [OF inj _ that mem] by auto
  have "reg w = reg (world s) - {(t, c)}" using assms(3) only by auto
  also have "\<dots> = insert (SERVER, listener) (table_rel ((connections s)(t := None)))"
    using r srv assms(2) by (auto simp: table_rel_def split: if_splits)
  finally have "reg w = insert (SERVER, listener) (table_rel ((connections s)(t := None)))" .
  moreover have "inj_on snd (reg w)" using assms(3) inj by (auto simp: inj_on_def)
  ultimately show ?thesis using assms(1) by (auto simp: server_inv_def)
qed


section \<open>The handlers keep the invariant\<close>

definition overflow_only :: "stop \<Rightarrow> bool" where
  "overflow_only stop \<longleftrightarrow> (\<forall>p. stop = Panicked p \<longrightarrow> p = Arith_Overflow)"

lemma overflow_only_Returned [simp]: "overflow_only (Returned e)"
  by (simp add: overflow_only_def)

lemma next_token_Inl: "next_token c = Inl p \<Longrightarrow> p = Arith_Overflow"
  by (auto simp: next_token_def uadd_def split: if_splits)

lemma tcp_lawsD:
  assumes "tcp_laws A p listener reg"
  shows "try_io_laws A reg"
    and "tcp_accept A listener w = (r, w1) \<Longrightarrow> reg w1 = reg w"
    and "tcp_accept A listener w = (Inr c, w1) \<Longrightarrow> c \<notin> snd ` reg w"
    and "register A p c t i w = (Inr (), w1) \<Longrightarrow> reg w1 = insert (t, c) (reg w)"
    and "c \<in> snd ` reg w \<Longrightarrow> \<exists>w1. deregister A p c w = (Inr (), w1) \<and> reg w1 = {x \<in> reg w. snd x \<noteq> c}"
    and "sys_recv A c n w = (k, w1) \<Longrightarrow> reg w1 = reg w"
    and "poll_wait A p w = (v, w1) \<Longrightarrow> reg w1 = reg w"
proof -
  note l = assms [unfolded tcp_laws_def]
  show "try_io_laws A reg" using l by blast
  show "tcp_accept A listener w = (r, w1) \<Longrightarrow> reg w1 = reg w"
    using l [THEN conjunct2, THEN conjunct1, rule_format, of w] by simp
  show "tcp_accept A listener w = (Inr c, w1) \<Longrightarrow> c \<notin> snd ` reg w"
    using l [THEN conjunct2, THEN conjunct2, THEN conjunct1, rule_format, of w c] by simp
  show "register A p c t i w = (Inr (), w1) \<Longrightarrow> reg w1 = insert (t, c) (reg w)"
    using l [THEN conjunct2, THEN conjunct2, THEN conjunct2, THEN conjunct1, rule_format, of c t i w] by simp
  show "c \<in> snd ` reg w \<Longrightarrow> \<exists>w1. deregister A p c w = (Inr (), w1) \<and> reg w1 = {x \<in> reg w. snd x \<noteq> c}"
    using l [THEN conjunct2, THEN conjunct2, THEN conjunct2, THEN conjunct2, THEN conjunct1, rule_format, of c w]
    by (metis prod.collapse)
  show "sys_recv A c n w = (k, w1) \<Longrightarrow> reg w1 = reg w"
    using l [THEN conjunct2, THEN conjunct2, THEN conjunct2, THEN conjunct2, THEN conjunct2, THEN conjunct1,
        rule_format, of c n w] by simp
  show "poll_wait A p w = (v, w1) \<Longrightarrow> reg w1 = reg w"
    using l [THEN conjunct2, THEN conjunct2, THEN conjunct2, THEN conjunct2, THEN conjunct2, THEN conjunct2,
        rule_format, of w] by simp
qed

definition accept_post ::
    "('w \<Rightarrow> (token \<times> 'fd) set) \<Rightarrow> 'fd \<Rightarrow> ('w, 'fd) server \<Rightarrow> ('w, 'fd) server \<Rightarrow> bool" where
  "accept_post reg listener s s' \<longleftrightarrow>
     server_inv reg listener s' \<and> connections s \<subseteq>\<^sub>m connections s' \<and> printed s' = printed s"

lemma accept_loop_ok:
  assumes laws: "tcp_laws A p listener reg"
    and ret: "accept_loop A p listener s = Some r" and inv: "server_inv reg listener s"
  shows "outcome_ok overflow_only (accept_post reg listener s) r"
proof -
  let ?P = "\<lambda>A' p' l' s r. A' = A \<longrightarrow> p' = p \<longrightarrow> l' = listener \<longrightarrow> server_inv reg listener s
    \<longrightarrow> outcome_ok overflow_only (accept_post reg listener s) r"
  have "?P A p listener s r"
  proof (rule accept_loop.raw_induct [where P = ?P, OF _ ret], intro impI)
    fix loop A' p' l' s r
    assume step: "\<And>A' p' l' s r. loop A' p' l' s = Some r \<Longrightarrow> ?P A' p' l' s r"
      and body: "(case tcp_accept A' l' (world s) of
        (Inl e, w1) \<Rightarrow> if kind e = WouldBlock then Some (Inr (s\<lparr>world := w1\<rparr>)) else Some (Inl (Returned e))
      | (Inr conn, w1) \<Rightarrow>
          (case next_token (unique_token s) of
             Inl pn \<Rightarrow> Some (Inl (Panicked pn))
           | Inr (token, unique) \<Rightarrow>
               (case register A' p' conn token READABLE w1 of
                  (Inl e, w2) \<Rightarrow> Some (Inl (Returned e))
                | (Inr _, w2) \<Rightarrow>
                    loop A' p' l' (s\<lparr>connections := (connections s)(token \<mapsto> conn), unique_token := unique,
                      world := w2\<rparr>)))) = Some r"
      and eqs: "A' = A" "p' = p" "l' = listener" and inv: "server_inv reg listener s"
    obtain res w1 where acc: "tcp_accept A listener (world s) = (res, w1)"
      by (cases "tcp_accept A listener (world s)")
    note w1 = tcp_lawsD(2) [OF laws acc]
    show "outcome_ok overflow_only (accept_post reg listener s) r"
    proof (cases res)
      case (Inl e)
      with body acc eqs w1 inv show ?thesis
        by (auto simp: accept_post_def server_inv_world' split: if_splits)
    next
      case conn: (Inr conn)
      show ?thesis
      proof (cases "next_token (unique_token s)")
        case (Inl pn)
        with body acc eqs conn show ?thesis by (auto simp: overflow_only_def dest: next_token_Inl)
      next
        case (Inr tu)
        then obtain t u where tu: "next_token (unique_token s) = Inr (t, u)" by (cases tu) auto
        obtain res2 w2 where regd: "register A p conn t READABLE w1 = (res2, w2)"
          by (cases "register A p conn t READABLE w1")
        show ?thesis
        proof (cases res2)
          case (Inl e)
          with body acc eqs conn tu regd show ?thesis by auto
        next
          case (Inr unt)
          let ?s = "s\<lparr>connections := (connections s)(t \<mapsto> conn), unique_token := u, world := w2\<rparr>"
          have "reg w2 = insert (t, conn) (reg (world s))"
            using tcp_lawsD(4) [OF laws] regd Inr w1 by auto
          moreover have "conn \<notin> snd ` reg (world s)" using tcp_lawsD(3) [OF laws] acc conn by blast
          ultimately have s: "server_inv reg listener ?s" using inv tu by (intro server_inv_add)
          have "loop A p listener ?s = Some r" using body acc eqs conn tu regd Inr by simp
          with step s have "outcome_ok overflow_only (accept_post reg listener ?s) r" by blast
          moreover have "connections s \<subseteq>\<^sub>m connections ?s"
            using tokens.table_grows(3) [OF _ tu, of "connections s" conn] inv by (simp add: server_inv_def)
          ultimately show ?thesis
            by (cases r) (auto simp: accept_post_def intro: map_le_trans)
        qed
      qed
    qed
  qed
  with inv show ?thesis by simp
qed

lemma recv_io_reg:
  assumes "tcp_laws A p listener reg"
  shows "reg (snd (try_recv_buf A c w)) = reg w"
proof -
  have "reg (snd (try_recv_buf A c w)) = reg (snd (io_result A (sys_recv A c 512 w)))"
    using tcp_lawsD(1) [OF assms] by (simp add: try_recv_buf_def try_io_laws_def)
  also have "\<dots> = reg (snd (sys_recv A c 512 w))" by (simp add: io_result_def)
  also have "\<dots> = reg w" using tcp_lawsD(6) [OF assms, of c 512 w] by (metis prod.collapse)
  finally show ?thesis .
qed

lemma conn_loop_ok:
  assumes keep: "\<And>v. reg (snd (io v)) = reg v" and ret: "conn_loop io out w = Some r"
  shows "outcome_ok overflow_only (\<lambda>(d, out', w'). reg w' = reg w) r"
proof -
  let ?P = "\<lambda>io' out w r. io' = io \<longrightarrow> outcome_ok overflow_only (\<lambda>(d, out', w'). reg w' = reg w) r"
  have "?P io out w r"
  proof (rule conn_loop.raw_induct [where P = ?P, OF _ ret], intro impI)
    fix loop io' out w r
    assume step: "\<And>io' out w r. loop io' out w = Some r \<Longrightarrow> ?P io' out w r"
      and body: "(case io' w of
        (Inr n, w1) \<Rightarrow> if n = 0 then Some (Inr (True, out, w1)) else loop io' (out @ [Did_Read n]) w1
      | (Inl e, w1) \<Rightarrow> if kind e = WouldBlock then Some (Inr (False, out, w1)) else Some (Inl (Returned e))) = Some r"
      and eq: "io' = io"
    obtain res w1 where io: "io w = (res, w1)" by (cases "io w")
    with keep [of w] have w1: "reg w1 = reg w" by simp
    show "outcome_ok overflow_only (\<lambda>(d, out', w'). reg w' = reg w) r"
    proof (cases "\<exists>n. res = Inr n \<and> n \<noteq> 0")
      case True
      then have "loop io (out @ [Did_Read (projr res)]) w1 = Some r" using body io eq by auto
      with step have "outcome_ok overflow_only (\<lambda>(d, out', w'). reg w' = reg w1) r" by blast
      with w1 show ?thesis by simp
    next
      case False
      with body io eq w1 show ?thesis by (cases res) (auto split: if_splits)
    qed
  qed
  then show ?thesis by simp
qed

lemma remove_done_ok:
  assumes laws: "tcp_laws A p listener reg" and inv: "server_inv reg listener s"
  shows "\<exists>s'. remove_done A p t d s = Some (Inr s') \<and> server_inv reg listener s'
    \<and> connections s' = (if d then (connections s)(t := None) else connections s) \<and> printed s' = printed s"
proof (cases "d \<and> connections s t \<noteq> None")
  case True
  then obtain c where c: "connections s t = Some c" by blast
  then have "(t, c) \<in> reg (world s)" using inv by (simp add: server_inv_def table_rel_def)
  then have "c \<in> snd ` reg (world s)" by force
  then obtain w1 where "deregister A p c (world s) = (Inr (), w1)" "reg w1 = {x \<in> reg (world s). snd x \<noteq> c}"
    using tcp_lawsD(5) [OF laws] by blast
  with c True inv show ?thesis by (simp add: remove_done_def server_inv_remove)
next
  case False
  with inv show ?thesis by (auto simp: remove_done_def fun_upd_idem split: option.splits)
qed

lemma on_conn_ok:
  assumes laws: "tcp_laws A p listener reg" and inv: "server_inv reg listener s"
    and ret: "on_conn A p t s = Some r"
  shows "outcome_ok overflow_only (server_inv reg listener) r"
proof (cases "connections s t")
  case None
  with ret remove_done_ok [OF laws inv, of t False] show ?thesis by (auto simp: on_conn_def)
next
  case (Some c)
  then obtain r1 where r1: "conn_loop (try_recv_buf A c) (printed s) (world s) = Some r1"
    using ret by (auto simp: on_conn_def split: option.splits)
  have ok: "outcome_ok overflow_only (\<lambda>(d, out', w'). reg w' = reg (world s)) r1"
    by (rule conn_loop_ok [OF _ r1]) (rule recv_io_reg [OF laws])
  show ?thesis
  proof (cases r1)
    case (Inl stop)
    with ok r1 ret Some show ?thesis by (auto simp: on_conn_def)
  next
    case (Inr x)
    obtain d out w1 where x: "x = (d, out, w1)" by (cases x)
    with ok Inr inv have "server_inv reg listener (s\<lparr>printed := out, world := w1\<rparr>)"
      by (intro server_inv_world) auto
    from remove_done_ok [OF laws this, of t d] ret r1 Some Inr x show ?thesis by (auto simp: on_conn_def)
  qed
qed

lemma on_event_ok:
  assumes "tcp_laws A p listener reg" and "server_inv reg listener s" and "on_event A p listener ev s = Some r"
  shows "outcome_ok overflow_only (server_inv reg listener) r"
proof (cases "ev_token ev = SERVER")
  case True
  then have "accept_loop A p listener s = Some r" using assms(3) by (simp add: on_event_def)
  from accept_loop_ok [OF assms(1) this assms(2)] show ?thesis by (cases r) (auto simp: accept_post_def)
next
  case False
  with assms show ?thesis by (intro on_conn_ok) (auto simp: on_event_def)
qed

section \<open>Properties\<close>

text \<open>
  C13: Whatever happens on its sockets, after any number of rounds the poll of the server has exactly
  the listener, under \<open>SERVER\<close>, and the connections of the table, each under its own token, all
  below the next one; and the only panic the thread can die of is the overflow of the token counter:
  the \<open>unwrap\<close> on \<open>deregister\<close> never fails.
\<close>

theorem server_table_matches_registry:
  assumes laws: "tcp_laws A p listener reg"
    and start: "tcp_bind A ''127.0.0.1:34255'' w = (Inr listener, w1)" "poll_new A w1 = (Inr p, w2)" "reg w2 = {}"
    and run: "tcp_receiver A n w = Some r"
  shows "outcome_ok overflow_only (server_inv reg listener) r"
proof -
  obtain res w3 where regd: "register A p listener (Token 0) READABLE w2 = (res, w3)"
    by (cases "register A p listener (Token 0) READABLE w2")
  show ?thesis
  proof (cases res)
    case (Inl e)
    with run start regd show ?thesis by (auto simp: tcp_receiver_def)
  next
    case (Inr u)
    let ?s = "\<lparr>connections = Map.empty, unique_token = Token 1, printed = [], world = w3\<rparr>"
    have "reg w3 = {(SERVER, listener)}"
      using tcp_lawsD(4) [OF laws] regd Inr start(3) by (auto simp: SERVER_def)
    then have s: "server_inv reg listener ?s"
      by (simp add: server_inv_def SERVER_def less_token_def table_rel_def inj_on_def)
    have i: "server_init w3 = Some (Inr ?s)" by (simp add: server_init_def SERVER_def uadd_def)
    have loop: "event_loop (server_wait A p) (on_event A p listener) n ?s = Some r"
      using run start(1,2) regd Inr by (simp add: tcp_receiver_def i)
    show ?thesis
    proof (rule event_loop_ok [where I = "server_inv reg listener", OF _ _ _ s loop])
      fix s assume "server_inv reg listener s"
      then show "server_inv reg listener (snd (server_wait A p s))"
        using tcp_lawsD(7) [OF laws] by (auto simp: server_wait_def intro: server_inv_world' split: prod.split)
    next
      fix ev s r assume "server_inv reg listener s" "on_event A p listener ev s = Some r"
      then show "outcome_ok overflow_only (server_inv reg listener) r" by (rule on_event_ok [OF laws])
    qed simp
  qed
qed

text \<open>The read loop on a byte stream, by induction on the bytes that are left.\<close>

lemma conn_loop_stream:
  assumes "try_io_laws A q" and laws: "stream_laws (sys_recv A) (os_error A) c q"
  shows "\<exists>ns w'. conn_loop (try_recv_buf A c) out w = Some (Inr (snd (q w), out @ map Did_Read ns, w'))
    \<and> sum_list ns = fst (q w) \<and> q w' = (0, snd (q w))"
proof (induction "fst (q w)" arbitrary: out w rule: less_induct)
  case less
  let ?r = "sys_recv A c 512 w"
  obtain res w1 where io: "try_recv_buf A c w = (res, w1)" by (cases "try_recv_buf A c w")
  have "fst (try_recv_buf A c w) = fst (io_result A ?r)" "q (snd (try_recv_buf A c w)) = q (snd (io_result A ?r))"
    using assms(1) by (simp_all add: try_recv_buf_def try_io_laws_def)
  then have parts: "res = (if fst ?r \<noteq> -1 then Inr (nat (fst ?r mod 2 ^ 64)) else Inl (os_error A (snd ?r)))"
    "q w1 = q (snd ?r)"
    by (simp_all add: io io_result_def)
  show ?case
  proof (cases "0 < fst (q w)")
    case True
    let ?n = "min 512 (fst (q w))"
    have "fst ?r = int ?n" "q (snd ?r) = (fst (q w) - ?n, snd (q w))"
      using laws [unfolded stream_laws_def, rule_format, of w] True by (auto simp: Let_def)
    moreover have "nat (int ?n mod 2 ^ 64) = ?n" by (simp add: nat_mod_distrib)
    ultimately have res: "res = Inr ?n" and q1: "q w1 = (fst (q w) - ?n, snd (q w))"
      using parts by auto
    have "?n \<noteq> 0" using True by simp
    then have "conn_loop (try_recv_buf A c) out w = conn_loop (try_recv_buf A c) (out @ [Did_Read ?n]) w1"
      by (subst conn_loop.simps) (simp add: io res min_def)
    moreover obtain ns w' where "conn_loop (try_recv_buf A c) (out @ [Did_Read ?n]) w1
        = Some (Inr (snd (q w1), (out @ [Did_Read ?n]) @ map Did_Read ns, w'))"
      "sum_list ns = fst (q w1)" "q w' = (0, snd (q w1))"
      using less.hyps [of w1 "out @ [Did_Read ?n]"] q1 True by auto
    ultimately have "conn_loop (try_recv_buf A c) out w
        = Some (Inr (snd (q w), out @ map Did_Read (?n # ns), w')) \<and> sum_list (?n # ns) = fst (q w)
          \<and> q w' = (0, snd (q w))"
      using q1 by simp
    then show ?thesis by blast
  next
    case False
    then have "if snd (q w) then fst ?r = 0 \<and> q (snd ?r) = (0, True)
      else fst ?r = -1 \<and> kind (os_error A (snd ?r)) = WouldBlock \<and> q (snd ?r) = (0, False)"
      using laws [unfolded stream_laws_def, rule_format, of w] by (auto simp: Let_def)
    then have "conn_loop (try_recv_buf A c) out w = Some (Inr (snd (q w), out @ map Did_Read [], w1))
        \<and> sum_list [] = fst (q w) \<and> q w1 = (0, snd (q w))"
      using False by (subst conn_loop.simps) (auto simp: io parts split: if_splits)
    then show ?thesis by blast
  qed
qed

text \<open>
  C17: On an event of a connection the server reads all the bytes that have arrived and returns to its
  other events: if the peer has closed the connection, exactly this connection is taken out of the
  table and deregistered, otherwise the table stays as it is.
\<close>

theorem connection_read_and_removed:
  assumes laws: "tcp_laws A p listener reg" "stream_laws (sys_recv A) (os_error A) c q" "try_io_laws A q"
    and inv: "server_inv reg listener s" and c: "connections s (ev_token ev) = Some c"
  shows "\<exists>s' ns. on_event A p listener ev s = Some (Inr s') \<and> server_inv reg listener s'
    \<and> printed s' = printed s @ map Did_Read ns \<and> sum_list ns = fst (q (world s))
    \<and> connections s' = (if snd (q (world s)) then (connections s)(ev_token ev := None) else connections s)"
proof -
  have "ev_token ev \<noteq> SERVER" using inv c by (auto simp: server_inv_def)
  obtain ns w' where loop: "conn_loop (try_recv_buf A c) (printed s) (world s)
      = Some (Inr (snd (q (world s)), printed s @ map Did_Read ns, w'))" "sum_list ns = fst (q (world s))"
    using conn_loop_stream [OF laws(3,2)] by blast
  have "reg w' = reg (world s)"
    using conn_loop_ok [OF _ loop(1), of reg] recv_io_reg [OF laws(1)] by simp
  then have "server_inv reg listener (s\<lparr>printed := printed s @ map Did_Read ns, world := w'\<rparr>)"
    by (intro server_inv_world inv)
  from remove_done_ok [OF laws(1) this, of "ev_token ev" "snd (q (world s))"]
  show ?thesis using loop \<open>ev_token ev \<noteq> SERVER\<close> c by (auto simp: on_event_def on_conn_def)
qed

text \<open>
  One failing connection ends the server: an error other than \<open>WouldBlock\<close> while reading from a
  connection (a reset by the peer, say) is returned from the thread, whatever other events and
  connections there are.
\<close>

theorem connection_error_ends_server:
  assumes "server_inv reg listener s" and "connections s (ev_token ev) = Some c"
    and "try_recv_buf A c (world s) = (Inl e, w1)" and "kind e \<noteq> WouldBlock"
  shows "for_events (on_event A p listener) (ev # evs) s = Some (Inl (Returned e))"
proof -
  have "ev_token ev \<noteq> SERVER" using assms(1,2) by (auto simp: server_inv_def)
  moreover have "conn_loop (try_recv_buf A c) (printed s) (world s) = Some (Inl (Returned e))"
    by (subst conn_loop.simps) (simp add: assms(3,4))
  ultimately show ?thesis using assms(2) by (simp add: on_event_def on_conn_def)
qed

section \<open>Witnesses\<close>

text \<open>
  A world in which one client connects, sends and closes: the sockets given out so far, the
  registrations, and the bytes left on the connection with the flag of its end.
\<close>

record tcp_world =
  next_fd :: nat
  regs :: "(token \<times> nat) set"
  conn_bytes :: "nat \<times> bool"

definition sample_event :: "token \<Rightarrow> event" where
  "sample_event t = \<lparr>ev_token = t, ev_readable = True, ev_writable = False\<rparr>"

definition sample_tcp :: "(tcp_world, nat) tcp_api" where
  "sample_tcp = \<lparr>poll_new = (\<lambda>w. (Inr 1, w)),
     register = (\<lambda>p c t i w. (Inr (), w\<lparr>regs := insert (t, c) (regs w)\<rparr>)),
     deregister = (\<lambda>p c w. (Inr (), w\<lparr>regs := {x \<in> regs w. snd x \<noteq> c}\<rparr>)),
     poll_wait = (\<lambda>p w. (Inr [sample_event SERVER], w)), try_io = (\<lambda>fd f w. f w),
     sys_recv = (\<lambda>fd n w. case take_bytes (conn_bytes w) of (k, b) \<Rightarrow> (k, w\<lparr>conn_bytes := b\<rparr>)),
     sys_send = (\<lambda>fd bs w. (int (length bs), w)), os_error = (\<lambda>w. would_block), nap = (\<lambda>n w. w),
     tcp_bind = (\<lambda>a w. (Inr 3, w)),
     tcp_accept = (\<lambda>l w. if next_fd w < 5 \<and> next_fd w \<notin> snd ` regs w
       then (Inr (next_fd w), w\<lparr>next_fd := next_fd w + 1\<rparr>) else (Inl would_block, w)),
     tcp_connect = (\<lambda>a w. (Inr 7, w))\<rparr>"

lemma sample_tcp_laws: "tcp_laws sample_tcp 1 3 regs"
  by (auto simp: tcp_laws_def try_io_laws_def sample_tcp_def split: prod.splits)

lemma sample_tcp_stream: "stream_laws (sys_recv sample_tcp) (os_error sample_tcp) 4 conn_bytes"
  by (auto simp: stream_laws_def sample_tcp_def take_bytes_def would_block_def Let_def prod_eq_iff)

theorem server_table_matches_registry_witness:
  "\<exists>r. tcp_receiver sample_tcp 1 \<lparr>next_fd = 4, regs = {}, conn_bytes = (0, False)\<rparr> = Some r
    \<and> outcome_ok overflow_only (server_inv regs 3) r"
proof -
  let ?w = "\<lparr>next_fd = 4, regs = {}, conn_bytes = (0, False)\<rparr>"
  have "(1 :: usize) \<noteq> 0" by simp
  then have "\<exists>r. tcp_receiver sample_tcp 1 ?w = Some r"
    by (simp add: tcp_receiver_def sample_tcp_def server_init_def SERVER_def uadd_def server_wait_def
        sample_event_def on_event_def accept_loop.simps next_token_def would_block_def)
  then obtain r where r: "tcp_receiver sample_tcp 1 ?w = Some r" by blast
  have "outcome_ok overflow_only (server_inv regs 3) r"
    by (rule server_table_matches_registry [where ?w1.0 = ?w and ?w2.0 = ?w, OF sample_tcp_laws _ _ _ r])
      (simp_all add: sample_tcp_def)
  with r show ?thesis by blast
qed

definition sample_server :: "nat \<times> bool \<Rightarrow> (tcp_world, nat) server" where
  "sample_server b = \<lparr>connections = [Token 1 \<mapsto> 4], unique_token = Token 2, printed = [],
     world = \<lparr>next_fd = 5, regs = {(SERVER, 3), (Token 1, 4)}, conn_bytes = b\<rparr>\<rparr>"

lemma sample_server_inv: "server_inv regs 3 (sample_server b)"
  by (auto simp: server_inv_def sample_server_def SERVER_def less_token_def table_rel_def inj_on_def
      split: if_splits)

theorem connection_read_and_removed_witness:
  "\<exists>s' ns. on_event sample_tcp 1 3 (sample_event (Token 1)) (sample_server (700, True)) = Some (Inr s')
    \<and> printed s' = map Did_Read ns \<and> sum_list ns = 700 \<and> connections s' = Map.empty"
proof -
  have "try_io_laws sample_tcp conn_bytes" by (simp add: try_io_laws_def sample_tcp_def)
  from connection_read_and_removed [OF sample_tcp_laws sample_tcp_stream this sample_server_inv [of "(700, True)"],
      where ev = "sample_event (Token 1)"]
  show ?thesis by (auto simp: sample_server_def sample_event_def)
qed

definition reset_tcp :: "(tcp_world, nat) tcp_api" where
  "reset_tcp = sample_tcp\<lparr>sys_recv := (\<lambda>fd n w. (-1, w)), os_error := (\<lambda>w. Io_Error Other ''reset'')\<rparr>"

theorem connection_error_ends_server_witness:
  "for_events (on_event reset_tcp 1 3) [sample_event (Token 1), sample_event SERVER] (sample_server (5, False))
    = Some (Inl (Returned (Io_Error Other ''reset'')))"
  by (rule connection_error_ends_server [OF sample_server_inv])
    (simp_all add: sample_server_def sample_event_def reset_tcp_def sample_tcp_def try_recv_buf_def
      io_result_def)

end
