(* ===== verification/Recvmsg_Quic.thy ===== *)
theory Recvmsg_Quic
  imports Mio_Drain
begin

text \<open>
  \<open>mio-and-recvmsg\<close>: the C function \<open>recvmsg_for_quic\<close> (its Windows branch, the one that is always
  compiled, since the file defines \<open>__Windows__\<close> itself), and the Rust program that calls it.
\<close>

section \<open>The C function\<close>

text \<open>
  The constants of Winsock, a control message with its data, and the calls.  \<open>q_recvmsg\<close> is
  \<open>WSARecvMsg\<close> with a control buffer: its result, the bytes of the source address, the number of
  bytes received and the control messages that \<open>WSA_CMSG_FIRSTHDR\<close> and \<open>WSA_CMSG_NXTHDR\<close> of the
  SDK then enumerate.
\<close>

record cmsg_consts =
  ipproto_ip :: u32
  ip_pktinfo :: u32
  ipproto_ipv6 :: u32
  ipv6_pktinfo :: u32
  ipproto_udp :: u32
  udp_coalesced_info :: u32
  af_inet :: u16
  af_inet6 :: u16

record control_msg =
  cm_level :: u32
  cm_type :: u32
  cm_data :: "u8 list"

record ('w, 'fd) quic_api = "('w, 'fd) mio_api" +
  q_bind :: "string \<Rightarrow> 'w \<Rightarrow> (io_error + 'fd) \<times> 'w"
  q_set_nonblocking :: "'fd \<Rightarrow> 'w \<Rightarrow> (io_error + unit) \<times> 'w"
  q_ioctl :: "'fd \<Rightarrow> 'w \<Rightarrow> int \<times> 'w"
  q_recvmsg :: "'fd \<Rightarrow> nat \<Rightarrow> nat \<Rightarrow> 'w \<Rightarrow> (int \<times> u8 list \<times> nat \<times> control_msg list) \<times> 'w"
  q_do_io :: "'fd \<Rightarrow> ('w \<Rightarrow> (io_error + nat \<times> u8 list \<times> u8 list) \<times> 'w)
    \<Rightarrow> 'w \<Rightarrow> (io_error + nat \<times> u8 list \<times> u8 list) \<times> 'w"
  q_send_to :: "'fd \<Rightarrow> u8 list \<Rightarrow> string \<Rightarrow> 'w \<Rightarrow> (io_error + nat) \<times> 'w"

text \<open>Storing bytes in a structure.\<close>

definition store_at :: "nat \<Rightarrow> u8 list \<Rightarrow> u8 list \<Rightarrow> u8 list" where
  "store_at off vs bs = take off bs @ vs @ drop (off + length vs) bs"

text \<open>
  One round of the loop over the control messages: the destination address (its buffer of
  \<open>dst_len\<close> bytes), and what is printed.  \<open>sockaddr_in\<close> has its address at offset 4, \<open>sockaddr_in6\<close>
  at offset 8 and its scope at offset 24; the flow information at offset 4 is not stored.
\<close>

definition apply_control ::
    "cmsg_consts \<Rightarrow> nat \<Rightarrow> control_msg \<Rightarrow> u8 list \<times> nat list \<Rightarrow> u8 list \<times> nat list" where
  "apply_control C dst_len m st =
     (let (dst, out) = st in
      if cm_level m = ipproto_ip C \<and> cm_type m = ip_pktinfo C \<and> dst_len \<ge> 16
      then (store_at 4 (take 4 (cm_data m)) (store_at 2 [0, 0] (store_at 0 (le_bytes 2 (unat (af_inet C))) dst)), out)
      else if cm_level m = ipproto_ipv6 C \<and> cm_type m = ipv6_pktinfo C \<and> dst_len \<ge> 28
      then (store_at 24 (take 4 (drop 16 (cm_data m)))
              (store_at 8 (take 16 (cm_data m))
                (store_at 2 [0, 0] (store_at 0 (le_bytes 2 (unat (af_inet6 C))) dst))), out)
      else if cm_level m = ipproto_udp C \<and> cm_type m = udp_coalesced_info C
      then (dst, out @ [le_value (take 2 (cm_data m))])
      else (dst, out))"

fun parse_controls ::
    "cmsg_consts \<Rightarrow> nat \<Rightarrow> control_msg list \<Rightarrow> u8 list \<times> nat list \<Rightarrow> u8 list \<times> nat list" where
  "parse_controls C dst_len [] st = st"
| "parse_controls C dst_len (m # ms) st = parse_controls C dst_len ms (apply_control C dst_len m st)"

text \<open>The function: its result, the source and destination addresses, and what it prints.\<close>

definition recvmsg_for_quic ::
    "cmsg_consts \<Rightarrow> ('w, 'fd) quic_api \<Rightarrow> 'fd \<Rightarrow> nat \<Rightarrow> nat \<Rightarrow> nat \<Rightarrow> 'w
     \<Rightarrow> (int \<times> u8 list \<times> u8 list \<times> nat list) \<times> 'w" where
  "recvmsg_for_quic C A sock buf_len src_len dst_len w =
     (let src = replicate src_len 0; dst = replicate dst_len 0;
          (nResult, w1) = q_ioctl A sock w
      in if nResult \<noteq> 0 then ((nResult, src, dst, []), w1)
      else (let ((nResult2, src1, ncounter, msgs), w2) = q_recvmsg A sock buf_len src_len w1
            in if nResult2 = 0
               then (let (dst1, out) = parse_controls C dst_len msgs (dst, [])
                     in ((int ncounter, src1, dst1, out), w2))
               else ((-1, src1, dst, []), w2)))"

section \<open>The Rust program\<close>

text \<open>
  \<open>OsSocketAddr::capacity()\<close> is \<open>size_of::<sockaddr_in6>()\<close>, 28 bytes.  The receiver prints the
  length and both addresses; \<open>to_addr\<close> is \<open>OsSocketAddr::into\<close>.
\<close>

datatype 'a quic_report = Quic_Read nat "'a option" "'a option" | Quic_Fail io_error

definition quic_recv ::
    "cmsg_consts \<Rightarrow> ('w, 'fd) quic_api \<Rightarrow> 'fd \<Rightarrow> 'w \<Rightarrow> (io_error + nat \<times> u8 list \<times> u8 list) \<times> 'w" where
  "quic_recv C A udp = q_do_io A udp
     (\<lambda>w. let ((res, from_addr, to_addr, out), w1) = recvmsg_for_quic C A udp 4096 28 28 w
          in if res < 0 then (Inl (os_error A w1), w1) else (Inr (nat res, from_addr, to_addr), w1))"

partial_function (option) quic_loop ::
    "('w \<Rightarrow> (io_error + nat \<times> u8 list \<times> u8 list) \<times> 'w) \<Rightarrow> (u8 list \<Rightarrow> 'a option) \<Rightarrow> 'a quic_report list \<Rightarrow> 'w
     \<Rightarrow> ('a quic_report list \<times> 'w) option" where
  "quic_loop io into out w =
     (case io w of
        (Inr (n, from_addr, to_addr), w1) \<Rightarrow> quic_loop io into (out @ [Quic_Read n (into from_addr) (into to_addr)]) w1
      | (Inl e, w1) \<Rightarrow>
          if kind e = WouldBlock then Some (out, w1) else quic_loop io into (out @ [Quic_Fail e]) w1)"

definition quic_on_event ::
    "('w \<Rightarrow> (io_error + nat \<times> u8 list \<times> u8 list) \<times> 'w) \<Rightarrow> (u8 list \<Rightarrow> 'a option) \<Rightarrow> event
     \<Rightarrow> 'a quic_report list \<times> 'w \<Rightarrow> ('a quic_report list \<times> 'w) outcome" where
  "quic_on_event io into ev s =
     (if ev_readable ev
      then (case quic_loop io into (fst s) (snd s) of None \<Rightarrow> None | Some s1 \<Rightarrow> Some (Inr s1))
      else Some (Inr s))"

definition quic_receiver ::
    "cmsg_consts \<Rightarrow> ('w, 'fd) quic_api \<Rightarrow> (u8 list \<Rightarrow> 'a option) \<Rightarrow> nat \<Rightarrow> 'w
     \<Rightarrow> ('a quic_report list \<times> 'w) outcome" where
  "quic_receiver C A into n w =
     (case poll_new A w of
        (Inl e, w1) \<Rightarrow> Some (Inl (Returned e))
      | (Inr p, w1) \<Rightarrow>
          (case q_bind A ''127.0.0.1:3456'' w1 of
             (Inl e, w2) \<Rightarrow> Some (Inl (Returned e))
           | (Inr udp, w2) \<Rightarrow>
               (case q_set_nonblocking A udp w2 of
                  (Inl e, w3) \<Rightarrow> Some (Inl (Returned e))
                | (Inr _, w3) \<Rightarrow>
                    (case register A p udp (Token 0) READABLE w3 of
                       (Inl e, w4) \<Rightarrow> Some (Inl (Returned e))
                     | (Inr _, w4) \<Rightarrow>
                         event_loop (\<lambda>s. case poll_wait A p (snd s) of (r, w5) \<Rightarrow> (r, fst s, w5))
                           (quic_on_event (quic_recv C A udp) into) n ([], w4)))))"

text \<open>The sender: ten zero bytes a second until a send fails.\<close>

fun quic_send_loop :: "('w, 'fd) quic_api \<Rightarrow> 'fd \<Rightarrow> nat \<Rightarrow> 'w \<Rightarrow> (stop + unit) \<times> 'w" where
  "quic_send_loop A udp 0 w = (Inr (), w)"
| "quic_send_loop A udp (Suc n) w =
     (case q_send_to A udp (replicate 10 0) ''127.0.0.1:3456'' w of
        (Inl e, w1) \<Rightarrow> (Inl (Returned e), w1)
      | (Inr _, w1) \<Rightarrow> quic_send_loop A udp n (nap A 1 w1))"

definition quic_sender :: "('w, 'fd) quic_api \<Rightarrow> nat \<Rightarrow> 'w \<Rightarrow> (stop + unit) \<times> 'w" where
  "quic_sender A n w =
     (case q_bind A ''127.0.0.1:0'' w of
        (Inl e, w1) \<Rightarrow> (Inl (Panicked Unwrap_Err), w1)
      | (Inr udp, w1) \<Rightarrow> quic_send_loop A udp n w1)"

text \<open>\<open>main\<close> spawns the two threads and joins them in turn with \<open>expect\<close>.\<close>

definition quic_main ::
    "cmsg_consts \<Rightarrow> ('w, 'fd) quic_api \<Rightarrow> (u8 list \<Rightarrow> 'a option) \<Rightarrow> nat \<Rightarrow> 'w \<Rightarrow> unit run option" where
  "quic_main C A into n w =
     join_expect (ended (quic_receiver C A into n w)) (ended (Some (fst (quic_sender A n w))))"

section \<open>The destination address\<close>

definition is_v4 :: "cmsg_consts \<Rightarrow> control_msg \<Rightarrow> bool" where
  "is_v4 C m \<longleftrightarrow> cm_level m = ipproto_ip C \<and> cm_type m = ip_pktinfo C"

definition is_v6 :: "cmsg_consts \<Rightarrow> control_msg \<Rightarrow> bool" where
  "is_v6 C m \<longleftrightarrow> \<not> is_v4 C m \<and> cm_level m = ipproto_ipv6 C \<and> cm_type m = ipv6_pktinfo C"

lemma fst_apply_control:
  "fst (apply_control C n m (dst, out)) =
     (if is_v4 C m \<and> n \<ge> 16
      then store_at 4 (take 4 (cm_data m)) (store_at 2 [0, 0] (store_at 0 (le_bytes 2 (unat (af_inet C))) dst))
      else if cm_level m = ipproto_ipv6 C \<and> cm_type m = ipv6_pktinfo C \<and> n \<ge> 28
      then store_at 24 (take 4 (drop 16 (cm_data m))) (store_at 8 (take 16 (cm_data m))
        (store_at 2 [0, 0] (store_at 0 (le_bytes 2 (unat (af_inet6 C))) dst)))
      else dst)"
  unfolding apply_control_def is_v4_def Let_def prod.case
  by (simp only: if_distrib [of fst] fst_conv if_cancel conj_assoc)

lemma apply_other: "\<not> is_v4 C m \<Longrightarrow> \<not> is_v6 C m \<Longrightarrow> fst (apply_control C n m st) = fst st"
  by (auto simp: apply_control_def is_v4_def is_v6_def Let_def split: prod.splits)

text \<open>Only the messages with an address matter for the destination.\<close>

lemma apply_control_fst: "fst (apply_control C n m (dst, out)) = fst (apply_control C n m (dst, out'))"
  by (simp add: fst_apply_control)

lemma parse_filter:
  "fst (parse_controls C n ms (dst, out))
    = fst (parse_controls C n (filter (\<lambda>m. is_v4 C m \<or> is_v6 C m) ms) (dst, out'))"
proof (induction ms arbitrary: dst out out')
  case (Cons m ms)
  obtain d1 o1 where 1: "apply_control C n m (dst, out) = (d1, o1)" by (cases "apply_control C n m (dst, out)")
  obtain d2 o2 where 2: "apply_control C n m (dst, out') = (d2, o2)" by (cases "apply_control C n m (dst, out')")
  have "d1 = d2" using apply_control_fst [of C n m dst out out'] 1 2 by simp
  moreover have "d1 = dst" if "\<not> is_v4 C m" "\<not> is_v6 C m" using apply_other [OF that, of n "(dst, out)"] 1 by simp
  ultimately show ?case using 1 2 Cons.IH by auto
qed simp

text \<open>The bytes of a destination, for a buffer of 28 bytes.\<close>

definition v4_dest :: "cmsg_consts \<Rightarrow> control_msg \<Rightarrow> u8 list \<Rightarrow> u8 list" where
  "v4_dest C m dst = le_bytes 2 (unat (af_inet C)) @ [0, 0] @ take 4 (cm_data m) @ drop 8 dst"

definition v6_dest :: "cmsg_consts \<Rightarrow> control_msg \<Rightarrow> u8 list \<Rightarrow> u8 list" where
  "v6_dest C m dst = le_bytes 2 (unat (af_inet6 C)) @ [0, 0] @ take 4 (drop 4 dst) @ take 20 (cm_data m)"

lemma apply_v4:
  assumes "is_v4 C m" and "length dst = 28" and "4 \<le> length (cm_data m)"
  shows "fst (apply_control C 28 m (dst, out)) = v4_dest C m dst"
proof -
  have len: "length (take 4 (cm_data m)) = 4" using assms(3) by simp
  show ?thesis
    using assms by (simp add: fst_apply_control v4_dest_def store_at_def len min_def)
qed

lemma apply_v6:
  assumes "is_v6 C m" and "length dst = 28" and "20 \<le> length (cm_data m)"
  shows "fst (apply_control C 28 m (dst, out)) = v6_dest C m dst"
proof -
  have "take 20 (cm_data m) = take 16 (cm_data m) @ take 4 (drop 16 (cm_data m))"
    using take_add [of 16 4 "cm_data m"] by simp
  moreover have "drop 4 (take 8 dst) = take 4 (drop 4 dst)" by (simp add: drop_take)
  moreover have "length (take 16 (cm_data m)) = 16" "length (take 4 (drop 16 (cm_data m))) = 4"
    using assms(3) by simp_all
  ultimately show ?thesis
    using assms by (simp add: fst_apply_control is_v6_def v6_dest_def store_at_def min_def)
qed

text \<open>
  The specification: the family of the last address message, a zero port, the four bytes of the last
  IPv4 message and the twenty bytes of the last IPv6 message, zeros where there is none.
\<close>

definition last_family :: "cmsg_consts \<Rightarrow> control_msg list \<Rightarrow> u8 list" where
  "last_family C ms = (if ms = [] then [0, 0]
     else le_bytes 2 (unat (if is_v4 C (last ms) then af_inet C else af_inet6 C)))"

definition last_data :: "nat \<Rightarrow> control_msg list \<Rightarrow> u8 list" where
  "last_data n ms = (if ms = [] then replicate n 0 else take n (cm_data (last ms)))"

definition destination :: "cmsg_consts \<Rightarrow> control_msg list \<Rightarrow> u8 list" where
  "destination C ms = last_family C ms @ [0, 0] @ last_data 4 (filter (is_v4 C) ms) @ last_data 20 (filter (is_v6 C) ms)"

text \<open>A message with an address that is long enough for what is read of it.\<close>

definition sized_address :: "cmsg_consts \<Rightarrow> control_msg \<Rightarrow> bool" where
  "sized_address C m \<longleftrightarrow> is_v4 C m \<and> 4 \<le> length (cm_data m) \<or> is_v6 C m \<and> 20 \<le> length (cm_data m)"

lemma length_last_data: "\<forall>m \<in> set ms. n \<le> length (cm_data m) \<Longrightarrow> length (last_data n ms) = n"
  by (simp add: last_data_def)

lemma destination_parts:
  assumes "\<forall>m \<in> set ms. sized_address C m"
  shows "length (last_family C ms) = 2" and "length (last_data 4 (filter (is_v4 C) ms)) = 4"
    and "length (last_data 20 (filter (is_v6 C) ms)) = 20"
proof -
  show "length (last_family C ms) = 2" by (simp add: last_family_def)
  show "length (last_data 4 (filter (is_v4 C) ms)) = 4"
    using assms by (intro length_last_data) (auto simp: sized_address_def is_v6_def)
  show "length (last_data 20 (filter (is_v6 C) ms)) = 20"
    using assms by (intro length_last_data) (auto simp: sized_address_def is_v6_def)
qed

lemma parse_controls_append:
  "parse_controls C n (ms @ ms') st = parse_controls C n ms' (parse_controls C n ms st)"
  by (induction ms arbitrary: st) simp_all

lemma parse_addresses:
  "\<forall>m \<in> set ms. sized_address C m \<Longrightarrow> fst (parse_controls C 28 ms (replicate 28 0, [])) = destination C ms"
proof (induction ms rule: rev_induct)
  case Nil
  then show ?case by (simp add: destination_def last_family_def last_data_def numeral_eq_Suc)
next
  case (snoc m ms)
  then have sizes: "\<forall>m \<in> set ms. sized_address C m" and m: "sized_address C m" by simp_all
  note parts = destination_parts [OF sizes]
  obtain dst out where before: "parse_controls C 28 ms (replicate 28 0, []) = (dst, out)" by (metis surj_pair)
  with snoc.IH [OF sizes] have dst: "dst = destination C ms" by simp
  then have len: "length dst = 28" using parts by (simp add: destination_def)
  from m show ?case unfolding sized_address_def
  proof (elim disjE conjE)
    assume "is_v4 C m" and "4 \<le> length (cm_data m)"
    moreover have "\<not> is_v6 C m" using \<open>is_v4 C m\<close> by (simp add: is_v6_def)
    moreover have "drop 8 dst = last_data 20 (filter (is_v6 C) ms)" using dst parts by (simp add: destination_def)
    ultimately show ?thesis
      using before apply_v4 [OF _ len, of C m out]
      by (simp add: parse_controls_append v4_dest_def destination_def last_family_def last_data_def [of 4])
  next
    assume "is_v6 C m" and "20 \<le> length (cm_data m)"
    moreover have "\<not> is_v4 C m" using \<open>is_v6 C m\<close> by (simp add: is_v6_def)
    moreover have "take 4 (drop 4 dst) = last_data 4 (filter (is_v4 C) ms)" using dst parts by (simp add: destination_def)
    ultimately show ?thesis
      using before apply_v6 [OF _ len, of C m out]
      by (simp add: parse_controls_append v6_dest_def destination_def last_family_def last_data_def [of 20])
  qed
qed

section \<open>Properties\<close>

text \<open>
  C25: What \<open>recvmsg_for_quic\<close> returns as the destination, for any control messages in any number and
  order: the family is that of the last message with an address, the port is zero, bytes 4 to 8 are
  those of the last IPv4 message and bytes 8 to 28 those of the last IPv6 message, each zero if there
  is none; all zero, which the Rust side turns into \<open>None\<close>, if no message has an address.  So with both
  kinds the IPv4 address lies where an IPv6 address has its flow information, and with an IPv4 message
  last it is the IPv6 address that stays behind in the tail.
\<close>

theorem recvmsg_destination:
  assumes calls: "q_ioctl A sock w = (0, w1)" "q_recvmsg A sock buf_len src_len w1 = ((0, src1, n, msgs), w2)"
    and addrs: "ms = filter (\<lambda>m. is_v4 C m \<or> is_v6 C m) msgs"
    and sizes: "\<forall>m \<in> set ms. sized_address C m"
  shows "\<exists>out. recvmsg_for_quic C A sock buf_len src_len 28 w = ((int n, src1,
      (if ms = [] then [0, 0] else le_bytes 2 (unat (if is_v4 C (last ms) then af_inet C else af_inet6 C))) @
      [0, 0] @
      (if filter (is_v4 C) ms = [] then replicate 4 0 else take 4 (cm_data (last (filter (is_v4 C) ms)))) @
      (if filter (is_v6 C) ms = [] then replicate 20 0 else take 20 (cm_data (last (filter (is_v6 C) ms)))),
      out), w2)"
proof -
  obtain dst out where p: "parse_controls C 28 msgs (replicate 28 0, []) = (dst, out)" by (metis surj_pair)
  have "dst = fst (parse_controls C 28 ms (replicate 28 0, []))"
    using parse_filter [of C 28 msgs "replicate 28 0" "[]" "[]"] addrs p by simp
  also have "\<dots> = destination C ms" by (rule parse_addresses [OF sizes])
  finally have "recvmsg_for_quic C A sock buf_len src_len 28 w = ((int n, src1, destination C ms, out), w2)"
    using calls p by (simp add: recvmsg_for_quic_def)
  then show ?thesis unfolding destination_def last_family_def last_data_def by blast
qed

section \<open>Witness\<close>

definition win_consts :: cmsg_consts where
  "win_consts = \<lparr>ipproto_ip = 0, ip_pktinfo = 19, ipproto_ipv6 = 41, ipv6_pktinfo = 19,
     ipproto_udp = 17, udp_coalesced_info = 3, af_inet = 2, af_inet6 = 23\<rparr>"

definition v4_msg :: control_msg where
  "v4_msg = \<lparr>cm_level = 0, cm_type = 19, cm_data = [192, 168, 0, 1, 7, 0, 0, 0]\<rparr>"

definition v6_msg :: control_msg where
  "v6_msg = \<lparr>cm_level = 41, cm_type = 19, cm_data = [254, 128, 0, 0, 0, 0, 0, 0, 0, 0, 0, 0, 0, 0, 0, 1, 7, 0, 0, 0]\<rparr>"

definition udp_msg :: control_msg where
  "udp_msg = \<lparr>cm_level = 17, cm_type = 3, cm_data = [0, 4, 0, 0]\<rparr>"

definition sample_quic :: "(unit, nat) quic_api" where
  "sample_quic = \<lparr>poll_new = (\<lambda>w. (Inr 1, w)), register = (\<lambda>p fd t i w. (Inr (), w)),
     deregister = (\<lambda>p fd w. (Inr (), w)), poll_wait = (\<lambda>p w. (Inr [], w)), try_io = (\<lambda>fd f w. f w),
     sys_recv = (\<lambda>fd n w. (-1, w)), sys_send = (\<lambda>fd bs w. (-1, w)),
     os_error = (\<lambda>w. Io_Error WouldBlock ''again''), nap = (\<lambda>n w. w),
     q_bind = (\<lambda>a w. (Inr 3, w)), q_set_nonblocking = (\<lambda>fd w. (Inr (), w)), q_ioctl = (\<lambda>fd w. (0, w)),
     q_recvmsg = (\<lambda>fd n k w. ((0, replicate k 0, 10, [v6_msg, udp_msg, v4_msg]), w)),
     q_do_io = (\<lambda>fd f w. f w), q_send_to = (\<lambda>fd bs a w. (Inr (length bs), w))\<rparr>"

text \<open>An IPv6 message, another one, and an IPv4 message last.\<close>

theorem recvmsg_destination_witness:
  "\<exists>out. recvmsg_for_quic win_consts sample_quic 3 4096 28 28 ()
    = ((10, replicate 28 0, [2, 0, 0, 0, 192, 168, 0, 1,
        254, 128, 0, 0, 0, 0, 0, 0, 0, 0, 0, 0, 0, 0, 0, 1, 7, 0, 0, 0], out), ())"
proof -
  have le: "le_bytes 2 2 = [2, 0]" by (simp add: numeral_2_eq_2)
  have calls: "q_ioctl sample_quic 3 () = (0, ())"
    "q_recvmsg sample_quic 3 4096 28 () = ((0, replicate 28 0, 10, [v6_msg, udp_msg, v4_msg]), ())"
    by (simp_all add: sample_quic_def)
  have kind: "is_v4 win_consts v4_msg" "is_v6 win_consts v6_msg" "\<not> is_v6 win_consts v4_msg"
    "\<not> is_v4 win_consts v6_msg" "\<not> is_v4 win_consts udp_msg" "\<not> is_v6 win_consts udp_msg"
    by (simp_all add: is_v4_def is_v6_def win_consts_def v4_msg_def v6_msg_def udp_msg_def)
  have addrs: "[v6_msg, v4_msg] = filter (\<lambda>m. is_v4 win_consts m \<or> is_v6 win_consts m) [v6_msg, udp_msg, v4_msg]"
    using kind by simp
  have "\<forall>m \<in> set [v6_msg, v4_msg]. sized_address win_consts m"
    using kind by (simp add: sized_address_def) (simp add: v4_msg_def v6_msg_def)
  from recvmsg_destination [OF calls addrs this] kind show ?thesis
    by (simp add: win_consts_def le) (simp add: v4_msg_def v6_msg_def)
qed

end
