(* ===== verification/Build_Script.thy ===== *)
theory Build_Script
  imports Main
begin

text \<open>
  The build script of \<open>mio-and-recvmsg\<close>: which macros the C file is compiled with for each family of
  targets, and which of its branches the preprocessor then keeps.  The compiler itself is \<open>cc\<close>'s.
\<close>

datatype target_family = Family_Unix | Family_Windows

record cc_build =
  build_file :: string
  build_defines :: "(string \<times> string option) list"
  build_output :: string

fun build_script :: "target_family \<Rightarrow> cc_build" where
  "build_script Family_Unix =
     \<lparr>build_file = ''src/recvmsg.c'', build_defines = [], build_output = ''librust_recvmsg.a''\<rparr>"
| "build_script Family_Windows =
     \<lparr>build_file = ''src/recvmsg.c'', build_defines = [(''__Windows__'', None)],
      build_output = ''librust_recvmsg.a''\<rparr>"

text \<open>The macros that \<open>recvmsg.c\<close> defines itself, before its first conditional.\<close>

definition recvmsg_defines :: "(string \<times> string option) list" where
  "recvmsg_defines = [(''__Windows__'', None), (''_GNU_SOURCE'', Some ''1'')]"

text \<open>\<open>#if !defined(__Windows__)\<close>: the Windows code is kept when one of them defines the macro.\<close>

definition windows_branch :: "target_family \<Rightarrow> bool" where
  "windows_branch family \<longleftrightarrow>
     map_of (build_defines (build_script family) @ recvmsg_defines) ''__Windows__'' \<noteq> None"

text \<open>
  The choice of the build script has no effect: the C file is compiled for Windows on every target,
  where a Unix target has none of the headers it includes.
\<close>

lemma windows_branch_everywhere: "windows_branch family"
  by (cases family) (simp_all add: windows_branch_def recvmsg_defines_def)

lemma defined_only_by_the_file:
  "map_of (build_defines (build_script family)) ''__Windows__'' \<noteq> None \<longleftrightarrow> family = Family_Windows"
  by (cases family) simp_all

end
