(* ===== verification/Tokio_Udp.thy ===== *)
theory Tokio_Udp
  imports Mio_Loop
begin

text \<open>
  \<open>tokio-UdpDgram\<close>: a task that receives datagrams and one that sends them.  The receiver passes the
  address of its vector to the system call, not that of the vector's elements, so the model has the
  memory in which the vector itself lies.
\<close>

section \<open>The receiving task\<close>

text \<open>
  A \<open>Vec<u8>\<close> is three words, the address of its elements, its capacity and its length, in an order
  that the compiler chooses: \<open>len_off\<close> is the offset of the length, 0, 8 or 16.
\<close>

record vec_place =
  vec_at :: usize
  len_off :: nat

definition vec_len :: "vec_place \<Rightarrow> memory \<Rightarrow> nat" where
  "vec_len v m = load_le 8 m (vec_at v + of_nat (len_off v))"

text \<open>The system writes the bytes of the datagram, as many as fit the length it was given.\<close>

fun store_bytes :: "memory \<Rightarrow> usize \<Rightarrow> u8 list \<Rightarrow> memory" where
  "store_bytes m a [] = m"
| "store_bytes m a (b # bs) = store_bytes (m(a := b)) (a + 1) bs"

text \<open>
  \<open>readable().await\<close> and \<open>try_io\<close> of \<open>tokio\<close>; \<open>tk_recv\<close> is the call of \<open>recv\<close>: its result and the bytes
  it received.
\<close>

record ('w, 'fd) tokio_api =
  tk_bind :: "string \<Rightarrow> 'w \<Rightarrow> (io_error + 'fd) \<times> 'w"
  tk_connect :: "'fd \<Rightarrow> string \<Rightarrow> 'w \<Rightarrow> (io_error + unit) \<times> 'w"
  tk_readable :: "'fd \<Rightarrow> 'w \<Rightarrow> 'w"
  tk_recv :: "'fd \<Rightarrow> nat \<Rightarrow> 'w \<Rightarrow> (int \<times> u8 list) \<times> 'w"
  tk_send :: "'fd \<Rightarrow> u8 list \<Rightarrow> 'w \<Rightarrow> int \<times> 'w"
  tk_try_io :: "'fd \<Rightarrow> interest \<Rightarrow> (memory \<times> 'w \<Rightarrow> (io_error + nat) \<times> memory \<times> 'w)
    \<Rightarrow> memory \<times> 'w \<Rightarrow> (io_error + nat) \<times> memory \<times> 'w"
  tk_os_error :: "'w \<Rightarrow> io_error"
  tk_sleep :: "nat \<Rightarrow> 'w \<Rightarrow> 'w"

definition tokio_recv ::
    "('w, 'fd) tokio_api \<Rightarrow> vec_place \<Rightarrow> 'fd \<Rightarrow> memory \<times> 'w \<Rightarrow> (io_error + nat) \<times> memory \<times> 'w" where
  "tokio_recv A v udp = tk_try_io A udp READABLE
     (\<lambda>(m, w). let ((res, bytes), w1) = tk_recv A udp (vec_len v m) w;
                   m1 = store_bytes m (vec_at v) bytes
               in if res < 0 then (Inl (tk_os_error A w1), m1, w1) else (Inr (nat res), m1, w1))"

definition tokio_recv_round ::
    "('w, 'fd) tokio_api \<Rightarrow> vec_place \<Rightarrow> 'fd \<Rightarrow> memory \<times> 'w \<Rightarrow> report list \<times> memory \<times> 'w" where
  "tokio_recv_round A v udp s =
     (case tokio_recv A v udp (fst s, tk_readable A udp (snd s)) of
        (Inr n, s1) \<Rightarrow> ([Did_Read n], s1)
      | (Inl e, s1) \<Rightarrow> if kind e = WouldBlock then ([], s1) else ([Did_Fail e], s1))"

fun tokio_recv_task :: "('w, 'fd) tokio_api \<Rightarrow> vec_place \<Rightarrow> 'fd \<Rightarrow> nat \<Rightarrow> memory \<times> 'w \<Rightarrow> report list \<times> memory \<times> 'w" where
  "tokio_recv_task A v udp 0 s = ([], s)"
| "tokio_recv_task A v udp (Suc n) s =
     (let (out, s1) = tokio_recv_round A v udp s; (outs, s2) = tokio_recv_task A v udp n s1
      in (out @ outs, s2))"

text \<open>The task with its socket; the vector of 1500 zeros is in memory when the loop starts.\<close>

definition tokio_receiver ::
    "('w, 'fd) tokio_api \<Rightarrow> vec_place \<Rightarrow> nat \<Rightarrow> memory \<times> 'w \<Rightarrow> (report list \<times> memory \<times> 'w) run" where
  "tokio_receiver A v n s =
     (case tk_bind A ''127.0.0.1:3456'' (snd s) of
        (Inl e, w1) \<Rightarrow> Inl Unwrap_Err
      | (Inr udp, w1) \<Rightarrow>
          Inr (tokio_recv_task A v udp n (store_le 8 (fst s) (vec_at v + of_nat (len_off v)) 1500, w1)))"

section \<open>The sending task\<close>

definition tokio_send_round :: "('w, 'fd) tokio_api \<Rightarrow> usize \<Rightarrow> 'fd \<Rightarrow> memory \<times> 'w \<Rightarrow> report list \<times> memory \<times> 'w" where
  "tokio_send_round A literal_at udp s =
     (case tk_try_io A udp WRITABLE
             (\<lambda>(m, w). let (res, w1) = tk_send A udp (bytes_behind_ref literal_at) w
                       in if res \<noteq> -1 then (Inr (nat (res mod 2 ^ 64)), m, w1)
                          else (Inl (tk_os_error A w1), m, w1)) s of
        (Inr n, m1, w1) \<Rightarrow> ([Did_Write n], m1, tk_sleep A 1 w1)
      | (Inl e, m1, w1) \<Rightarrow>
          ((if kind e = WouldBlock then [] else [Did_Fail e]), m1, tk_sleep A 1 w1))"

fun tokio_send_task :: "('w, 'fd) tokio_api \<Rightarrow> usize \<Rightarrow> 'fd \<Rightarrow> nat \<Rightarrow> memory \<times> 'w \<Rightarrow> report list \<times> memory \<times> 'w" where
  "tokio_send_task A literal_at udp 0 s = ([], s)"
| "tokio_send_task A literal_at udp (Suc n) s =
     (let (out, s1) = tokio_send_round A literal_at udp s; (outs, s2) = tokio_send_task A literal_at udp n s1
      in (out @ outs, s2))"

definition tokio_sender :: "('w, 'fd) tokio_api \<Rightarrow> usize \<Rightarrow> nat \<Rightarrow> memory \<times> 'w \<Rightarrow> (report list \<times> memory \<times> 'w) run" where
  "tokio_sender A literal_at n s =
     (case tk_bind A ''127.0.0.1:0'' (snd s) of
        (Inl e, w1) \<Rightarrow> Inl Unwrap_Err
      | (Inr udp, w1) \<Rightarrow>
          (case tk_connect A udp ''127.0.0.1:3456'' w1 of
             (Inl e, w2) \<Rightarrow> Inl Unwrap_Err
           | (Inr _, w2) \<Rightarrow> Inr (tokio_send_task A literal_at udp n (fst s, w2))))"

text \<open>
  \<open>main\<close> waits for both tasks and ignores how they ended.  A task ends only by a panic of its setup,
  so \<open>main\<close> returns exactly when both panicked; a task whose setup succeeded keeps it for ever.
\<close>

definition tokio_main :: "('w, 'fd) tokio_api \<Rightarrow> vec_place \<Rightarrow> usize \<Rightarrow> nat \<Rightarrow> memory \<times> 'w \<Rightarrow> unit option" where
  "tokio_main A v literal_at n s =
     (case tokio_receiver A v n s of
        Inr _ \<Rightarrow> None
      | Inl _ \<Rightarrow> (case tokio_sender A literal_at n s of Inr _ \<Rightarrow> None | Inl _ \<Rightarrow> Some ()))"

section \<open>What a datagram overwrites\<close>

text \<open>The memory after a receive, byte by byte.\<close>

lemma store_bytes_at:
  "unat a + length bs \<le> 2 ^ 64 \<Longrightarrow> store_bytes m a bs p =
    (if unat a \<le> unat p \<and> unat p < unat a + length bs then bs ! (unat p - unat a) else m p)"
proof (induction bs arbitrary: m a)
  case (Cons b bs)
  show ?case
  proof (cases "bs = []")
    case True
    have "p = a \<longleftrightarrow> unat a \<le> unat p \<and> unat p < Suc (unat a)" by (auto simp: word_unat_eq_iff)
    with True show ?thesis by auto
  next
    case False
    then have a1: "unat (a + 1) = Suc (unat a)"
      using Cons.prems by (cases bs) (simp_all add: unat_word_ariths)
    have "store_bytes (m(a := b)) (a + 1) bs p =
        (if unat (a + 1) \<le> unat p \<and> unat p < unat (a + 1) + length bs then bs ! (unat p - unat (a + 1))
         else (m(a := b)) p)"
      by (rule Cons.IH) (use a1 Cons.prems in simp)
    moreover have "p = a \<longleftrightarrow> unat p = unat a" by (simp add: word_unat_eq_iff)
    ultimately show ?thesis using a1 by (auto simp: nth_Cons' not_le Suc_diff_le)
  qed
qed auto

lemma load_le_bytes: "load_le n m a = le_value (map (\<lambda>i. m (a + of_nat i)) [0..<n])"
proof (induction n arbitrary: a)
  case (Suc n)
  have "[0..<Suc n] = 0 # map Suc [0..<n]" by (simp add: upt_conv_Cons map_Suc_upt)
  then show ?case using Suc [of "a + 1"] by (simp add: comp_def algebra_simps)
qed simp

text \<open>The vector as the next call finds it.\<close>

lemma vec_len_after:
  assumes "unat (vec_at v) + length bs \<le> 2 ^ 64" and "unat (vec_at v) + 24 \<le> 2 ^ 64" and "len_off v \<le> 16"
  shows "vec_len v (store_bytes m (vec_at v) bs) =
    le_value (map (\<lambda>j. if j < length bs then bs ! j else m (vec_at v + of_nat j)) [len_off v..<len_off v + 8])"
    (is "_ = le_value (map ?f _)")
proof -
  let ?m1 = "store_bytes m (vec_at v) bs"
  have "?m1 (vec_at v + of_nat (len_off v) + of_nat i) = ?f (i + len_off v)" if "i < 8" for i
  proof -
    have "unat (vec_at v + of_nat (i + len_off v)) = unat (vec_at v) + (i + len_off v)"
      using assms(2,3) that by (intro unat_add_small) simp
    with store_bytes_at [OF assms(1), of m "vec_at v + of_nat (i + len_off v)"] show ?thesis
      by (simp add: algebra_simps)
  qed
  then have "map (\<lambda>i. ?m1 (vec_at v + of_nat (len_off v) + of_nat i)) [0..<8] = map (?f \<circ> (\<lambda>i. i + len_off v)) [0..<8]"
    by simp
  also have "\<dots> = map ?f [len_off v..<len_off v + 8]"
    using map_add_upt [of "len_off v" 8] by (simp add: add.commute flip: map_map)
  finally show ?thesis unfolding vec_len_def load_le_bytes by simp
qed

section \<open>Properties\<close>

text \<open>
  \<open>try_io\<close> as its documentation has it: either the closure is called and its result is returned, or the
  socket is not ready, the closure is not called and the result is a \<open>WouldBlock\<close> error.  And \<open>recv\<close>: the
  number of the bytes it has written, or a negative result.
\<close>

definition tokio_recv_laws :: "('w, 'fd) tokio_api \<Rightarrow> bool" where
  "tokio_recv_laws A \<longleftrightarrow>
     (\<forall>fd i f s. (\<exists>w1. tk_try_io A fd i f s = (fst (f s), fst (snd (f s)), w1)) \<or>
       (\<exists>e w1. tk_try_io A fd i f s = (Inl e, fst s, w1) \<and> kind e = WouldBlock)) \<and>
     (\<forall>fd n w. case fst (tk_recv A fd n w) of (res, bs) \<Rightarrow> res = int (length bs) \<or> res < 0)"

text \<open>
  C26: The receiving task lets the system write each datagram over its own vector.  A round that prints
  a number of bytes has received a datagram of that length, and the memory is then the datagram from
  the address of the vector on, and as before everywhere else; so the length of the vector, which is
  the length of the buffer in the next call, is made of the datagram's bytes as far as they reach (all
  eight from a datagram of 24 bytes on, the low five of a length that lies first from \<open>hello\<close>).  Any
  other round leaves the memory as it is, unless a failed \<open>recv\<close> has written something.
\<close>

theorem datagram_overwrites_vector:
  assumes laws: "tokio_recv_laws A"
    and got: "fst (tk_recv A udp (vec_len v m) (tk_readable A udp w)) = (res, bs)"
    and place: "len_off v \<in> {0, 8, 16}" "unat (vec_at v) + 24 \<le> 2 ^ 64" "unat (vec_at v) + length bs \<le> 2 ^ 64"
    and round: "tokio_recv_round A v udp (m, w) = (out, m1, w1)"
  shows "(\<forall>n. out = [Did_Read n] \<longrightarrow> n = length bs
      \<and> (\<forall>p. m1 p = (if unat (vec_at v) \<le> unat p \<and> unat p < unat (vec_at v) + n
            then bs ! (unat p - unat (vec_at v)) else m p))
      \<and> vec_len v m1 = le_value (map (\<lambda>j. if j < n then bs ! j else m (vec_at v + of_nat j))
            [len_off v..<len_off v + 8]))
    \<and> ((\<nexists>n. out = [Did_Read n]) \<and> (res < 0 \<longrightarrow> bs = []) \<longrightarrow> m1 = m)"
proof -
  let ?f = "\<lambda>(m, w). let ((res, bytes), w1) = tk_recv A udp (vec_len v m) w;
                   m1 = store_bytes m (vec_at v) bytes
               in if res < 0 then (Inl (tk_os_error A w1), m1, w1) else (Inr (nat res), m1, w1)"
  let ?s = "(m, tk_readable A udp w)"
  obtain w2 where recv: "tk_recv A udp (vec_len v m) (tk_readable A udp w) = ((res, bs), w2)"
    using got by (metis prod.collapse)
  have res: "res = int (length bs) \<or> res < 0"
    using laws [unfolded tokio_recv_laws_def, THEN conjunct2, rule_format, of udp "vec_len v m" "tk_readable A udp w"] got
    by simp
  have f: "?f ?s = (if res < 0 then (Inl (tk_os_error A w2), store_bytes m (vec_at v) bs, w2)
      else (Inr (length bs), store_bytes m (vec_at v) bs, w2))"
    using recv res by auto
  have alt: "(\<exists>w3. tk_try_io A udp READABLE ?f ?s = (fst (?f ?s), fst (snd (?f ?s)), w3)) \<or>
      (\<exists>e w3. tk_try_io A udp READABLE ?f ?s = (Inl e, m, w3) \<and> kind e = WouldBlock)"
    using laws [unfolded tokio_recv_laws_def, THEN conjunct1, rule_format, of udp READABLE ?f ?s] by simp
  have io: "tokio_recv A v udp ?s = tk_try_io A udp READABLE ?f ?s" by (simp add: tokio_recv_def)
  have "out = [Did_Read (length bs)] \<and> m1 = store_bytes m (vec_at v) bs \<or> (\<nexists>n. out = [Did_Read n]) \<and> ((res < 0 \<longrightarrow> bs = []) \<longrightarrow> m1 = m)"
    using round alt f unfolding tokio_recv_round_def fst_conv snd_conv io
    by (auto split: if_splits)
  moreover have "len_off v \<le> 16" using place(1) by auto
  ultimately show ?thesis
    using store_bytes_at [OF place(3)] vec_len_after [OF place(3,2)] by auto
qed

text \<open>The program's own datagram, received into a vector that has its length first.\<close>

definition sample_tokio :: "(unit, nat) tokio_api" where
  "sample_tokio = \<lparr>tk_bind = (\<lambda>a w. (Inr 3, w)), tk_connect = (\<lambda>fd a w. (Inr (), w)), tk_readable = (\<lambda>fd w. w),
     tk_recv = (\<lambda>fd n w. ((5, [104, 101, 108, 108, 111]), w)), tk_send = (\<lambda>fd bs w. (int (length bs), w)),
     tk_try_io = (\<lambda>fd i f s. f s), tk_os_error = (\<lambda>w. Io_Error Other ''error''), tk_sleep = (\<lambda>n w. w)\<rparr>"

lemma sample_tokio_laws: "tokio_recv_laws sample_tokio"
  by (auto simp: tokio_recv_laws_def sample_tokio_def prod_eq_iff)

theorem datagram_overwrites_vector_witness:
  "\<exists>m1. tokio_recv_round sample_tokio \<lparr>vec_at = 4096, len_off = 0\<rparr> 3 ((\<lambda>_. 0), ())
    = ([Did_Read 5], m1, ()) \<and> vec_len \<lparr>vec_at = 4096, len_off = 0\<rparr> m1 = 0x6f6c6c6568"
proof -
  let ?v = "\<lparr>vec_at = 4096, len_off = 0\<rparr>"
  let ?bs = "[104, 101, 108, 108, 111] :: u8 list"
  have got: "fst (tk_recv sample_tokio 3 (vec_len ?v (\<lambda>_. 0)) (tk_readable sample_tokio 3 ())) = (5, ?bs)"
    by (simp add: sample_tokio_def)
  have round: "tokio_recv_round sample_tokio ?v 3 ((\<lambda>_. 0), ()) = ([Did_Read 5], store_bytes (\<lambda>_. 0) 4096 ?bs, ())"
    by (simp add: tokio_recv_round_def tokio_recv_def sample_tokio_def)
  have place: "len_off ?v \<in> {0, 8, 16}" "unat (vec_at ?v) + 24 \<le> 2 ^ 64" "unat (vec_at ?v) + length ?bs \<le> 2 ^ 64"
    by simp_all
  have upt: "[0..<8] = [0, 1, 2, 3, 4, 5, 6, 7 :: nat]" by (simp add: upt_rec)
  from datagram_overwrites_vector [OF sample_tokio_laws got place round]
  have "vec_len ?v (store_bytes (\<lambda>_. 0) 4096 ?bs) =
      le_value (map (\<lambda>j. if j < 5 then ?bs ! j else 0) [0..<8])" by simp
  also have "\<dots> = 0x6f6c6c6568" unfolding upt by simp
  finally show ?thesis using round by blast
qed

end
