(* ===== verification/Multipath_Udp.thy ===== *)
theory Multipath_Udp
  imports Machine_Words
begin

text \<open>
  \<open>multipath-Udp\<close>: resolving the destination, collecting the interfaces, and sending one datagram
  over each of them.  The parsed command line, name resolution, sockets and the IP helper library
  are parameters; \<open>windows\<close> says which of the two builds is modelled.
\<close>

section \<open>Data\<close>

datatype sock_addr = Addr4 "u8 list" nat | Addr6 "u8 list" nat

fun is_ipv4 :: "sock_addr \<Rightarrow> bool" where
  "is_ipv4 (Addr4 _ _) = True"
| "is_ipv4 (Addr6 _ _) = False"

fun is_ipv6 :: "sock_addr \<Rightarrow> bool" where
  "is_ipv6 (Addr4 _ _) = False"
| "is_ipv6 (Addr6 _ _) = True"

text \<open>The matches of the command line: \<open>if_index\<close> exists in the Windows build only.\<close>

record cli_matches =
  cli_host :: string
  cli_port :: nat
  cli_ipv4 :: bool
  cli_ipv6 :: bool
  cli_if_index :: "u32 option"

datatype mp_report =
    No_Address string
  | Sent_Via sock_addr u32
  | Send_Via_Failed sock_addr u32 io_error
  | Send_Len nat sock_addr
  | Send_Failed_To sock_addr io_error
  | No_Route sock_addr u32
  | No_Path sock_addr u32
  | Path_Info u8 u32

text \<open>
  The calls.  \<open>unicast_table\<close> is \<open>GetUnicastIpAddressTable\<close>: its result and the interface indexes of
  the rows, or no table; \<open>best_route\<close> and \<open>path_entry\<close> give a result code, the latter with
  reachability and path MTU; \<open>set_unicast_if\<close> is \<open>setsockopt\<close> with \<open>IP_UNICAST_IF\<close> (\<open>False\<close>) or
  \<open>IPV6_UNICAST_IF\<close> (\<open>True\<close>), whose result is ignored.
\<close>

record ('w, 'fd) mp_api =
  resolve :: "string \<Rightarrow> nat \<Rightarrow> 'w \<Rightarrow> (io_error + sock_addr list) \<times> 'w"
  unicast_table :: "'w \<Rightarrow> (u32 \<times> u32 list option) \<times> 'w"
  free_table :: "'w \<Rightarrow> 'w"
  key_order :: "u32 set \<Rightarrow> u32 list"
  best_route :: "u32 \<Rightarrow> sock_addr \<Rightarrow> 'w \<Rightarrow> u32 \<times> 'w"
  path_entry :: "sock_addr \<Rightarrow> u32 \<Rightarrow> 'w \<Rightarrow> (u32 \<times> u8 \<times> u32) \<times> 'w"
  raw_os_error :: "u32 \<Rightarrow> io_error"
  mp_bind :: "string \<Rightarrow> 'w \<Rightarrow> (io_error + 'fd) \<times> 'w"
  set_unicast_if :: "'fd \<Rightarrow> bool \<Rightarrow> u32 \<Rightarrow> 'w \<Rightarrow> 'w"
  mp_send_to :: "'fd \<Rightarrow> string \<Rightarrow> sock_addr \<Rightarrow> 'w \<Rightarrow> (io_error + nat) \<times> 'w"

section \<open>Choosing the address and the interfaces\<close>

definition addr_matches :: "cli_matches \<Rightarrow> sock_addr \<Rightarrow> bool" where
  "addr_matches c addr \<longleftrightarrow> (is_ipv4 addr \<and> cli_ipv4 c) \<or> (is_ipv6 addr \<and> cli_ipv6 c)"

text \<open>\<open>filter(..).next()\<close> on the resolved addresses.\<close>

definition first_match :: "cli_matches \<Rightarrow> sock_addr list \<Rightarrow> sock_addr option" where
  "first_match c addrs = (case filter (addr_matches c) addrs of [] \<Rightarrow> None | a # _ \<Rightarrow> Some a)"

text \<open>
  The keys of the \<open>HashMap\<close> of interfaces.  Its filling is under \<open>cfg(windows)\<close>: the index of the
  command line, or those of the rows of the table, which is freed when there is one.
\<close>

definition collect_interfaces ::
    "bool \<Rightarrow> ('w, 'fd) mp_api \<Rightarrow> cli_matches \<Rightarrow> 'w \<Rightarrow> u32 set \<times> 'w" where
  "collect_interfaces windows A c w =
     (if \<not> windows then ({}, w)
      else (case cli_if_index c of
              Some if_index \<Rightarrow> ({if_index}, w)
            | None \<Rightarrow>
                (let ((res, table), w1) = unicast_table A w;
                     interfaces = (if res = 0 then (case table of None \<Rightarrow> {} | Some rows \<Rightarrow> set rows) else {})
                 in (interfaces, case table of None \<Rightarrow> w1 | Some _ \<Rightarrow> free_table A w1))))"

section \<open>Sending\<close>

text \<open>\<open>send_hello\<close> on Unix: a failing send is printed, not returned.\<close>

definition send_hello_unix ::
    "('w, 'fd) mp_api \<Rightarrow> sock_addr \<Rightarrow> u32 \<Rightarrow> 'w \<Rightarrow> (mp_report list \<times> (io_error + unit)) \<times> 'w" where
  "send_hello_unix A addr if_index w =
     (case mp_bind A (if is_ipv4 addr then ''0.0.0.0:0'' else ''[::]:0'') w of
        (Inl e, w1) \<Rightarrow> (([], Inl e), w1)
      | (Inr socket, w1) \<Rightarrow>
          (case mp_send_to A socket ''hello'' addr w1 of
             (Inr len, w2) \<Rightarrow> (([Send_Len len addr], Inr ()), w2)
           | (Inl e, w2) \<Rightarrow> (([Send_Failed_To addr e], Inr ()), w2)))"

text \<open>\<open>u32::to_be\<close> on a little-endian machine.\<close>

definition to_be32 :: "u32 \<Rightarrow> u32" where
  "to_be32 x = push_bit 24 (x AND 0xff) OR push_bit 8 (x AND 0xff00) OR drop_bit 8 (x AND 0xff0000)
     OR drop_bit 24 x"

text \<open>\<open>send_hello\<close> on Windows: the route and the path are looked up before the socket is made.\<close>

definition send_hello_windows ::
    "('w, 'fd) mp_api \<Rightarrow> sock_addr \<Rightarrow> u32 \<Rightarrow> 'w \<Rightarrow> (mp_report list \<times> (io_error + nat)) \<times> 'w" where
  "send_hello_windows A addr if_index w =
     (let (res, w1) = best_route A if_index addr w in
      if res \<noteq> 0 then (([No_Route addr if_index], Inl (raw_os_error A res)), w1)
      else
        (let ((res2, is_reachable, path_mtu), w2) = path_entry A addr if_index w1 in
         if res2 \<noteq> 0 then (([No_Path addr if_index], Inl (raw_os_error A res2)), w2)
         else
           (case mp_bind A (if is_ipv4 addr then ''0.0.0.0:0'' else ''[::]:0'') w2 of
              (Inl e, w3) \<Rightarrow> (([Path_Info is_reachable path_mtu], Inl e), w3)
            | (Inr socket, w3) \<Rightarrow>
                (let w4 = (if is_ipv4 addr then set_unicast_if A socket False (to_be32 if_index) w3
                           else set_unicast_if A socket True if_index w3);
                     (sent, w5) = mp_send_to A socket ''hello'' addr w4
                 in (([Path_Info is_reachable path_mtu], sent), w5)))))"

definition send_hello ::
    "bool \<Rightarrow> ('w, 'fd) mp_api \<Rightarrow> sock_addr \<Rightarrow> u32 \<Rightarrow> 'w \<Rightarrow> (mp_report list \<times> (io_error + unit)) \<times> 'w" where
  "send_hello windows A addr if_index w =
     (if windows
      then (case send_hello_windows A addr if_index w of
              ((out, Inl e), w1) \<Rightarrow> ((out, Inl e), w1)
            | ((out, Inr _), w1) \<Rightarrow> ((out, Inr ()), w1))
      else send_hello_unix A addr if_index w)"

text \<open>The loop over the interfaces: a failure is printed and the next one is tried.\<close>

fun send_all ::
    "bool \<Rightarrow> ('w, 'fd) mp_api \<Rightarrow> sock_addr \<Rightarrow> u32 list \<Rightarrow> 'w \<Rightarrow> mp_report list \<times> 'w" where
  "send_all windows A addr [] w = ([], w)"
| "send_all windows A addr (i # is) w =
     (let ((out, res), w1) = send_hello windows A addr i w;
          line = (case res of Inr _ \<Rightarrow> Sent_Via addr i | Inl e \<Rightarrow> Send_Via_Failed addr i e);
          (outs, w2) = send_all windows A addr is w1
      in (out @ line # outs, w2))"

definition mp_main ::
    "bool \<Rightarrow> ('w, 'fd) mp_api \<Rightarrow> cli_matches \<Rightarrow> 'w \<Rightarrow> (io_error + mp_report list) \<times> 'w" where
  "mp_main windows A c w =
     (case resolve A (cli_host c) (cli_port c) w of
        (Inl e, w1) \<Rightarrow> (Inl e, w1)
      | (Inr addrs, w1) \<Rightarrow>
          (case first_match c addrs of
             None \<Rightarrow> (Inr [No_Address (cli_host c)], w1)
           | Some addr \<Rightarrow>
               (let (interfaces, w2) = collect_interfaces windows A c w1;
                    (out, w3) = send_all windows A addr (key_order A interfaces) w2
                in (Inr out, w3))))"

section \<open>The loop over the interfaces\<close>

text \<open>\<open>HashMap::into_keys\<close> enumerates the keys, each once.\<close>

definition key_order_laws :: "('w, 'fd) mp_api \<Rightarrow> bool" where
  "key_order_laws A \<longleftrightarrow> (\<forall>S. finite S \<longrightarrow> set (key_order A S) = S \<and> distinct (key_order A S))"

text \<open>The addresses and interfaces that a run of the loop has reported on, in order.\<close>

fun via :: "mp_report \<Rightarrow> (sock_addr \<times> u32) list" where
  "via (Sent_Via a i) = [(a, i)]"
| "via (Send_Via_Failed a i _) = [(a, i)]"
| "via _ = []"

text \<open>The lines printed inside \<open>send_hello\<close> are not those.\<close>

lemma send_hello_unix_out: "concat (map via (fst (fst (send_hello_unix A addr i w)))) = []"
  by (simp add: send_hello_unix_def split: prod.split sum.split)

lemma send_hello_windows_out: "concat (map via (fst (fst (send_hello_windows A addr i w)))) = []"
proof -
  obtain res w1 where r: "best_route A i addr w = (res, w1)" by (cases "best_route A i addr w")
  obtain res2 re mtu w2 where p: "path_entry A addr i w1 = ((res2, re, mtu), w2)" by (metis prod.exhaust)
  show ?thesis
    by (simp add: send_hello_windows_def r p Let_def split: prod.split sum.split)
qed

lemma send_hello_out: "concat (map via (fst (fst (send_hello windows A addr i w)))) = []"
proof (cases windows)
  case True
  obtain out res w1 where "send_hello_windows A addr i w = ((out, res), w1)" by (metis prod.exhaust)
  with True send_hello_windows_out [of A addr i w] show ?thesis
    by (simp add: send_hello_def split: sum.split)
next
  case False
  then show ?thesis by (simp add: send_hello_def send_hello_unix_out)
qed

lemma send_all_via: "concat (map via (fst (send_all windows A addr is w))) = map (Pair addr) is"
proof (induction "is" arbitrary: w)
  case (Cons i "is")
  obtain out res w1 where h: "send_hello windows A addr i w = ((out, res), w1)"
    by (metis prod.exhaust)
  have "concat (map via out) = []" using send_hello_out [of windows A addr i w] h by simp
  moreover obtain outs w2 where "send_all windows A addr is w1 = (outs, w2)"
    by (cases "send_all windows A addr is w1")
  ultimately show ?case using h Cons.IH [of w1] by (simp split: sum.split)
qed simp

lemma first_match_Some: "first_match c addrs = Some a \<Longrightarrow>
    (\<exists>before after. addrs = before @ a # after \<and> (\<forall>b \<in> set before. \<not> addr_matches c b)) \<and> addr_matches c a"
proof -
  assume "first_match c addrs = Some a"
  then obtain rest where "filter (addr_matches c) addrs = a # rest"
    by (auto simp: first_match_def split: list.splits)
  then show ?thesis by (auto simp: filter_eq_Cons_iff)
qed

section \<open>Properties\<close>


definition sample_mp :: "(unit, nat) mp_api" where
  "sample_mp = \<lparr>resolve = (\<lambda>h p w. (Inr [Addr6 [0] p, Addr4 [127, 0, 0, 1] p], w)),
     unicast_table = (\<lambda>w. ((0, Some [3, 5, 3]), w)), free_table = (\<lambda>w. w),
     key_order = (\<lambda>S. sorted_list_of_set S), best_route = (\<lambda>i a w. (if i = 3 then 1231 else 0, w)),
     path_entry = (\<lambda>a i w. ((0, 1, 1500), w)), raw_os_error = (\<lambda>e. Io_Error Other ''os error''),
     mp_bind = (\<lambda>a w. (Inr 9, w)), set_unicast_if = (\<lambda>fd b i w. w),
     mp_send_to = (\<lambda>fd s a w. (Inr 5, w))\<rparr>"

definition sample_cli :: cli_matches where
  "sample_cli = \<lparr>cli_host = ''localhost'', cli_port = 4567, cli_ipv4 = True, cli_ipv6 = False, cli_if_index = None\<rparr>"


end
