(* ===== verification/Multipath_Log.thy ===== *)
theory Multipath_Log
  imports Multipath_Udp
begin

text \<open>
  Through which interface the datagrams of \<open>multipath-Udp\<close> leave: the byte order of the socket option,
  the log of what is sent, and what the program reports.
\<close>

section \<open>Byte order\<close>

lemma byte_masks:
  "(0xff :: u32) = mask 8" "(0xff00 :: u32) = push_bit 8 (mask 8)" "(0xff0000 :: u32) = push_bit 16 (mask 8)"
  by (simp_all add: mask_eq_exp_minus_1 push_bit_eq_mult)

lemma u32_high_bits: "\<not> bit (x :: u32) (32 + k)"
  using bit_imp_le_length [of x "32 + k"] by auto

lemma to_be32_byte:
  assumes k: "k < 8" and j: "j < 4"
  shows "bit (to_be32 x) (8 * j + k) = bit x (8 * (3 - j) + k)"
proof -
  have high: "\<not> bit x (40 + k)" "\<not> bit x (48 + k)" "\<not> bit x (56 + k)"
    using u32_high_bits [of x "8 + k"] u32_high_bits [of x "16 + k"] u32_high_bits [of x "24 + k"]
    by (simp_all add: add.assoc [symmetric])
  from j consider "j = 0" | "j = 1" | "j = 2" | "j = 3" by linarith
  then show ?thesis
    using k high u32_high_bits [of x k] by cases (simp_all add: to_be32_def byte_masks bit_simps)
qed

text \<open>Converting twice gives the number back, so the system reads the index that was meant.\<close>

lemma to_be32_twice: "to_be32 (to_be32 x) = x"
proof (rule bit_word_eqI)
  fix n assume "n < LENGTH(32)"
  then have j: "n div 8 < 4" and k: "n mod 8 < 8" by simp_all
  have "bit (to_be32 (to_be32 x)) (8 * (n div 8) + n mod 8) = bit (to_be32 x) (8 * (3 - n div 8) + n mod 8)"
    using to_be32_byte [OF k j] .
  also have "\<dots> = bit x (8 * (n div 8) + n mod 8)"
    using to_be32_byte [OF k, of "3 - n div 8"] j by simp
  finally show "bit (to_be32 (to_be32 x)) n = bit x n" by simp
qed

section \<open>What leaves\<close>

text \<open>
  The system's side: \<open>log\<close> is what was sent, each datagram with the interface the socket was bound to
  (\<open>None\<close> is the one of the default route), \<open>opt\<close> the option of a socket for either version.  The
  option of IPv4 is read in network byte order, that of IPv6 as it is; it takes effect on the
  interfaces of \<open>accepts\<close>.  Only sending adds to the log.
\<close>

type_synonym datagram = "u32 option \<times> sock_addr \<times> string"

definition silent :: "('w \<Rightarrow> 'q) \<Rightarrow> ('w \<Rightarrow> 'r \<times> 'w) \<Rightarrow> bool" where
  "silent log f \<longleftrightarrow> (\<forall>w. log (snd (f w)) = log w)"

definition send_laws ::
    "('w, 'fd) mp_api \<Rightarrow> ('w \<Rightarrow> datagram list) \<Rightarrow> ('w \<Rightarrow> 'fd \<Rightarrow> bool \<Rightarrow> u32 option) \<Rightarrow> (u32 \<Rightarrow> bool) \<Rightarrow> bool" where
  "send_laws A log opt accepts \<longleftrightarrow>
     (\<forall>h p. silent log (resolve A h p)) \<and> silent log (unicast_table A) \<and> (\<forall>w. log (free_table A w) = log w) \<and>
     (\<forall>i a. silent log (best_route A i a)) \<and> (\<forall>a i. silent log (path_entry A a i)) \<and>
     (\<forall>a. silent log (mp_bind A a)) \<and>
     (\<forall>a w fd v6. fst (mp_bind A a w) = Inr fd \<longrightarrow> opt (snd (mp_bind A a w)) fd v6 = None) \<and>
     (\<forall>fd v6 x w. log (set_unicast_if A fd v6 x w) = log w \<and>
        opt (set_unicast_if A fd v6 x w) fd v6 =
          (let i = (if v6 then x else to_be32 x) in if accepts i then Some i else opt w fd v6)) \<and>
     (\<forall>fd s a w. log (snd (mp_send_to A fd s a w)) = log w @
        (case fst (mp_send_to A fd s a w) of Inl e \<Rightarrow> [] | Inr n \<Rightarrow> [(opt w fd (is_ipv6 a), a, s)]))"

definition leaves_by :: "(u32 \<Rightarrow> bool) \<Rightarrow> u32 \<Rightarrow> u32 option" where
  "leaves_by accepts i = (if accepts i then Some i else None)"

lemma send_lawsD:
  assumes "send_laws A log opt accepts"
  shows "silent log (resolve A h p)" "silent log (unicast_table A)" "log (free_table A w) = log w"
    "silent log (best_route A i a)" "silent log (path_entry A a i)" "silent log (mp_bind A s)"
    "fst (mp_bind A s w) = Inr fd \<Longrightarrow> opt (snd (mp_bind A s w)) fd v6 = None"
    "log (set_unicast_if A fd v6 x w) = log w"
    "opt (set_unicast_if A fd v6 x w) fd v6 =
      (let i = (if v6 then x else to_be32 x) in if accepts i then Some i else opt w fd v6)"
    "log (snd (mp_send_to A fd s a w)) = log w @
      (case fst (mp_send_to A fd s a w) of Inl e \<Rightarrow> [] | Inr n \<Rightarrow> [(opt w fd (is_ipv6 a), a, s)])"
  using assms unfolding send_laws_def by blast+

lemma silentD: "silent log f \<Longrightarrow> f w = (r, w1) \<Longrightarrow> log w1 = log w"
  unfolding silent_def by (metis snd_conv)

text \<open>One call of \<open>send_hello\<close> sends one datagram exactly when it succeeds, over its interface.\<close>

lemma send_hello_log:
  assumes laws: "send_laws A log opt accepts" and run: "send_hello_windows A addr i w = ((out, r), w')"
  shows "log w' = log w @ (case r of Inl e \<Rightarrow> [] | Inr n \<Rightarrow> [(leaves_by accepts i, addr, ''hello'')])"
proof -
  note L = send_lawsD [OF laws]
  obtain res w1 where route: "best_route A i addr w = (res, w1)" by fastforce
  obtain res2 re mtu w2 where path: "path_entry A addr i w1 = ((res2, re, mtu), w2)" by (metis prod.exhaust)
  obtain b w3 where bind: "mp_bind A (if is_ipv4 addr then ''0.0.0.0:0'' else ''[::]:0'') w2 = (b, w3)" by fastforce
  have logs: "log w1 = log w" "log w2 = log w1" "log w3 = log w2"
    using silentD [OF L(4) route] silentD [OF L(5) path] silentD [OF L(6) bind] by simp_all
  show ?thesis
  proof (cases "res = 0 \<and> res2 = 0 \<and> (\<exists>fd. b = Inr fd)")
    case False
    then show ?thesis
      using run route path bind logs by (auto simp: send_hello_windows_def Let_def split: sum.splits if_splits)
  next
    case True
    then obtain fd where ok: "res = 0" "res2 = 0" "b = Inr fd" by blast
    define w4 where "w4 = set_unicast_if A fd (is_ipv6 addr) (if is_ipv6 addr then i else to_be32 i) w3"
    have fresh: "opt w3 fd (is_ipv6 addr) = None"
      using L(7) [of "if is_ipv4 addr then ''0.0.0.0:0'' else ''[::]:0''" w2 fd] bind ok(3) by simp
    have opt: "log w4 = log w3" "opt w4 fd (is_ipv6 addr) = leaves_by accepts i"
      using L(8,9) [of fd "is_ipv6 addr"] fresh by (simp_all add: w4_def leaves_by_def to_be32_twice Let_def)
    obtain sent w5 where send: "mp_send_to A fd ''hello'' addr w4 = (sent, w5)" by fastforce
    have "send_hello_windows A addr i w = (([Path_Info re mtu], sent), w5)"
      using route path bind ok send
      by (cases addr) (simp_all add: send_hello_windows_def w4_def)
    with run L(10) [of fd "''hello''" addr w4] send opt logs show ?thesis by (simp split: sum.split)
  qed
qed

text \<open>The reports of success.\<close>

fun reported :: "mp_report list \<Rightarrow> (sock_addr \<times> u32) list" where
  "reported [] = []"
| "reported (Sent_Via a i # out) = (a, i) # reported out"
| "reported (_ # out) = reported out"

lemma reported_append: "reported (xs @ ys) = reported xs @ reported ys"
  by (induction xs rule: reported.induct) simp_all

lemma send_hello_reports_nothing: "send_hello_windows A addr i w = ((out, r), w1) \<Longrightarrow> reported out = []"
  by (auto simp: send_hello_windows_def Let_def split: prod.splits sum.splits if_splits)

definition logged :: "(u32 \<Rightarrow> bool) \<Rightarrow> (sock_addr \<times> u32) list \<Rightarrow> datagram list" where
  "logged accepts rs = map (\<lambda>(a, i). (leaves_by accepts i, a, ''hello'')) rs"

lemma send_all_log:
  assumes laws: "send_laws A log opt accepts"
  shows "send_all True A addr is w = (out, w') \<Longrightarrow> log w' = log w @ logged accepts (reported out)"
proof (induction "is" arbitrary: w out w')
  case Nil
  then show ?case by (simp add: logged_def)
next
  case (Cons i "is")
  obtain out1 r w1 where h: "send_hello_windows A addr i w = ((out1, r), w1)" by (metis prod.exhaust)
  obtain outs w2 where rest: "send_all True A addr is w1 = (outs, w2)" by fastforce
  have "out = out1 @ (case r of Inr _ \<Rightarrow> Sent_Via addr i | Inl e \<Rightarrow> Send_Via_Failed addr i e) # outs" "w' = w2"
    using Cons.prems h rest by (auto simp: send_hello_def split: sum.splits)
  with Cons.IH [OF rest] send_hello_log [OF laws h] send_hello_reports_nothing [OF h] show ?case
    by (cases r) (simp_all add: logged_def reported_append)
qed

section \<open>Property\<close>

text \<open>
  C29: On Windows the reports \<open>Send "hello" to .. via IF i\<close> are exactly the datagrams that left, in
  order: one \<open>hello\<close> per report, to the chosen address and through the named interface, for IPv4 and
  IPv6 alike (the option is in network byte order for the first).  But the result of \<open>setsockopt\<close> is
  ignored: where the option is not accepted, the datagram leaves by the default route and is reported
  under the interface all the same.
\<close>

theorem hello_leaves_as_reported:
  assumes laws: "send_laws A log opt accepts" and run: "mp_main True A c w = (Inr out, w')"
  shows "log w' = log w @ map (\<lambda>(a, i). (if accepts i then Some i else None, a, ''hello'')) (reported out)"
proof -
  note L = send_lawsD [OF laws]
  obtain r w1 where res: "resolve A (cli_host c) (cli_port c) w = (r, w1)" by fastforce
  with run obtain addrs where r: "r = Inr addrs" by (cases r) (auto simp: mp_main_def)
  have w1: "log w1 = log w" by (rule silentD [OF L(1) res])
  have "log w' = log w @ logged accepts (reported out)"
  proof (cases "first_match c addrs")
    case None
    with run res r w1 show ?thesis by (auto simp: mp_main_def logged_def)
  next
    case (Some addr)
    obtain S w2 where S: "collect_interfaces True A c w1 = (S, w2)" by fastforce
    have "log w2 = log w1"
      using S silentD [OF L(2)] L(3)
      by (auto simp: collect_interfaces_def Let_def split: if_splits option.splits prod.splits)
    moreover have "send_all True A addr (key_order A S) w2 = (out, w')"
      using run res r Some S by (auto simp: mp_main_def Let_def split: prod.splits)
    ultimately show ?thesis using send_all_log [OF laws] w1 by simp
  qed
  then show ?thesis by (simp add: logged_def leaves_by_def)
qed

section \<open>Witness\<close>

text \<open>A host with the interfaces 3, 5 and 7: there is no route over 3, and the option fails for 7.\<close>

type_synonym host_world = "datagram list \<times> u32 option"

definition sample_host :: "(host_world, nat) mp_api" where
  "sample_host = \<lparr>resolve = (\<lambda>h p w. (Inr [Addr4 [127, 0, 0, 1] p], w)),
     unicast_table = (\<lambda>w. ((0, Some [3, 5, 7]), w)), free_table = (\<lambda>w. w),
     key_order = (\<lambda>S. sorted_list_of_set S), best_route = (\<lambda>i a w. (if i = 3 then 1231 else 0, w)),
     path_entry = (\<lambda>a i w. ((0, 1, 1500), w)), raw_os_error = (\<lambda>e. Io_Error Other ''os error''),
     mp_bind = (\<lambda>a w. (Inr 9, (fst w, None))),
     set_unicast_if = (\<lambda>fd v6 x w. let i = (if v6 then x else to_be32 x) in if i = 7 then w else (fst w, Some i)),
     mp_send_to = (\<lambda>fd s a w. (Inr (length s), (fst w @ [(snd w, a, s)], snd w)))\<rparr>"

lemma sample_host_laws: "send_laws sample_host fst (\<lambda>w fd v6. snd w) (\<lambda>i. i \<noteq> 7)"
  by (simp add: send_laws_def silent_def sample_host_def Let_def)

theorem hello_leaves_as_reported_witness:
  "\<exists>out w'. mp_main True sample_host sample_cli ([], None) = (Inr out, w') \<and>
    reported out = [(Addr4 [127, 0, 0, 1] 4567, 5), (Addr4 [127, 0, 0, 1] 4567, 7)] \<and>
    fst w' = [(Some 5, Addr4 [127, 0, 0, 1] 4567, ''hello''), (None, Addr4 [127, 0, 0, 1] 4567, ''hello'')]"
proof -
  have "sorted_list_of_set (set [3, 5, 7 :: u32]) = sort (remdups [3, 5, 7])"
    by (rule sorted_list_of_set_sort_remdups)
  then have order: "sorted_list_of_set {3, 5, 7 :: u32} = [3, 5, 7]" by simp
  have be: "to_be32 (to_be32 5) = 5" "to_be32 (to_be32 7) = 7" by (rule to_be32_twice)+
  obtain out w' where run: "mp_main True sample_host sample_cli ([], None) = (Inr out, w')"
    and rep: "reported out = [(Addr4 [127, 0, 0, 1] 4567, 5), (Addr4 [127, 0, 0, 1] 4567, 7)]"
    using order be
    by (simp add: mp_main_def sample_host_def sample_cli_def first_match_def addr_matches_def collect_interfaces_def
        send_hello_def send_hello_windows_def Let_def)
  from hello_leaves_as_reported [OF sample_host_laws run] rep have
    "fst w' = [(Some 5, Addr4 [127, 0, 0, 1] 4567, ''hello''), (None, Addr4 [127, 0, 0, 1] 4567, ''hello'')]" by simp
  with run rep show ?thesis by blast
qed

end
