(* ===== verification/Transfer_Fd.thy ===== *)
theory Transfer_Fd
  imports Machine_Words
begin

text \<open>
  \<open>transfer-fd\<close>: a sender that passes the read end of a pipe over a Unix datagram socket and then
  writes to the pipe, and a receiver that takes the descriptor and reads the pipe to its end.  The
  calls of \<open>nix\<close>, \<open>tempfile\<close> and the standard library's sockets are parameters; \<open>expect\<close> and \<open>unwrap\<close>
  on an error are panics.
\<close>

section \<open>Calls\<close>

datatype cmsg_owned = ScmRights "nat list" | Other_Cmsg

record 'w fd_api =
  tempdir :: "'w \<Rightarrow> (io_error + string) \<times> 'w"
  drop_tempdir :: "string \<Rightarrow> 'w \<Rightarrow> 'w"
  ud_bind :: "string \<Rightarrow> 'w \<Rightarrow> (io_error + nat) \<times> 'w"
  ud_connect :: "nat \<Rightarrow> string \<Rightarrow> 'w \<Rightarrow> (io_error + unit) \<times> 'w"
  ud_close :: "nat \<Rightarrow> 'w \<Rightarrow> 'w"
  fd_recvmsg :: "nat \<Rightarrow> 'w \<Rightarrow> (io_error + cmsg_owned list) \<times> 'w"
  fd_sendmsg :: "nat \<Rightarrow> string \<Rightarrow> nat list \<Rightarrow> 'w \<Rightarrow> (io_error + unit) \<times> 'w"
  fd_pipe :: "'w \<Rightarrow> (io_error + nat \<times> nat) \<times> 'w"
  fd_read :: "nat \<Rightarrow> nat \<Rightarrow> 'w \<Rightarrow> (io_error + nat) \<times> 'w"
  fd_write :: "nat \<Rightarrow> string \<Rightarrow> 'w \<Rightarrow> (io_error + nat) \<times> 'w"
  fd_close :: "nat \<Rightarrow> 'w \<Rightarrow> (io_error + unit) \<times> 'w"

section \<open>The receiver\<close>

text \<open>The first control message, if it holds descriptors, and the first of these.\<close>

definition first_fd :: "cmsg_owned list \<Rightarrow> nat option run" where
  "first_fd cmsgs =
     (case cmsgs of
        ScmRights fds # _ \<Rightarrow> (case fds of [] \<Rightarrow> Inl Index_Out_Of_Bounds | fd # _ \<Rightarrow> Inr (Some fd))
      | _ \<Rightarrow> Inr None)"

text \<open>
  The block that receives the descriptor, up to the call that waits for the message and from it on:
  the socket and then its directory are dropped at the end of the block, the socket first.
\<close>

definition receive_bind :: "'w fd_api \<Rightarrow> 'w \<Rightarrow> (string \<times> nat \<times> 'w) run" where
  "receive_bind F w =
     (case tempdir F w of
        (Inl e, w1) \<Rightarrow> Inl Unwrap_Err
      | (Inr dir, w1) \<Rightarrow>
          (case ud_bind F (dir @ ''/sock'') w1 of
             (Inl e, w2) \<Rightarrow> Inl Unwrap_Err
           | (Inr socket, w2) \<Rightarrow> Inr (dir, socket, w2)))"

definition receive_take :: "'w fd_api \<Rightarrow> string \<Rightarrow> nat \<Rightarrow> 'w \<Rightarrow> (nat option \<times> 'w) run" where
  "receive_take F dir socket w =
     (case fd_recvmsg F socket w of
        (Inl e, w1) \<Rightarrow> Inl Unwrap_Err
      | (Inr cmsgs, w1) \<Rightarrow>
          (case first_fd cmsgs of
             Inl p \<Rightarrow> Inl p
           | Inr received \<Rightarrow> Inr (received, drop_tempdir F dir (ud_close F socket w1))))"

definition receive_fd :: "'w fd_api \<Rightarrow> 'w \<Rightarrow> (nat option \<times> 'w) run" where
  "receive_fd F w =
     (case receive_bind F w of
        Inl p \<Rightarrow> Inl p
      | Inr (dir, socket, w1) \<Rightarrow> receive_take F dir socket w1)"

text \<open>Reading until a read gives 0, with the printed lengths.\<close>

partial_function (option) read_to_end ::
    "('w \<Rightarrow> (io_error + nat) \<times> 'w) \<Rightarrow> nat list \<Rightarrow> 'w \<Rightarrow> (nat list \<times> 'w) run option" where
  "read_to_end rd out w =
     (case rd w of
        (Inl e, w1) \<Rightarrow> Some (Inl Unwrap_Err)
      | (Inr len, w1) \<Rightarrow>
          if len = 0 then Some (Inr (out, w1)) else read_to_end rd (out @ [len]) w1)"

definition fd_receiver :: "'w fd_api \<Rightarrow> 'w \<Rightarrow> (nat list \<times> 'w) run option" where
  "fd_receiver F w =
     (case receive_fd F w of
        Inl p \<Rightarrow> Some (Inl p)
      | Inr (received, w1) \<Rightarrow>
          (case received of
             None \<Rightarrow> Some (Inr ([], w1))
           | Some fd \<Rightarrow> read_to_end (fd_read F fd 1024) [] w1))"

section \<open>The sender\<close>

text \<open>The pipe and the connected socket, the message with the read end, and closing that.\<close>

definition send_connect :: "'w fd_api \<Rightarrow> string list \<Rightarrow> 'w \<Rightarrow> (string \<times> nat \<times> nat \<times> nat \<times> 'w) run" where
  "send_connect F args w =
     (case fd_pipe F w of
        (Inl e, w1) \<Rightarrow> Inl Unwrap_Err
      | (Inr (r, wr), w1) \<Rightarrow>
          (case tempdir F w1 of
             (Inl e, w2) \<Rightarrow> Inl Unwrap_Err
           | (Inr dir, w2) \<Rightarrow>
               (case args of
                  _ # remote_name # _ \<Rightarrow>
                    (case ud_bind F (dir @ ''/sock'') w2 of
                       (Inl e, w3) \<Rightarrow> Inl Unwrap_Err
                     | (Inr socket, w3) \<Rightarrow>
                         (case ud_connect F socket remote_name w3 of
                            (Inl e, w4) \<Rightarrow> Inl Unwrap_Err
                          | (Inr _, w4) \<Rightarrow> Inr (dir, socket, r, wr, w4)))
                | _ \<Rightarrow> Inl Unwrap_None)))"

definition send_rights :: "'w fd_api \<Rightarrow> nat \<Rightarrow> nat \<Rightarrow> 'w \<Rightarrow> 'w run" where
  "send_rights F socket r w =
     (case fd_sendmsg F socket ''hello'' [r] w of (Inl e, w1) \<Rightarrow> Inl Unwrap_Err | (Inr _, w1) \<Rightarrow> Inr w1)"

definition send_close :: "'w fd_api \<Rightarrow> string \<Rightarrow> nat \<Rightarrow> nat \<Rightarrow> 'w \<Rightarrow> 'w run" where
  "send_close F dir socket r w =
     (case fd_close F r w of
        (Inl e, w1) \<Rightarrow> Inl Unwrap_Err
      | (Inr _, w1) \<Rightarrow> Inr (drop_tempdir F dir (ud_close F socket w1)))"

definition send_fd :: "'w fd_api \<Rightarrow> string list \<Rightarrow> 'w \<Rightarrow> (nat \<times> 'w) run" where
  "send_fd F args w =
     (case send_connect F args w of
        Inl p \<Rightarrow> Inl p
      | Inr (dir, socket, r, wr, w1) \<Rightarrow>
          (case send_rights F socket r w1 of
             Inl p \<Rightarrow> Inl p
           | Inr w2 \<Rightarrow>
               (case send_close F dir socket r w2 of
                  Inl p \<Rightarrow> Inl p
                | Inr w3 \<Rightarrow> Inr (wr, w3))))"

text \<open>The endless loop of writes, for a number of rounds.\<close>

fun write_loop :: "'w fd_api \<Rightarrow> nat \<Rightarrow> nat \<Rightarrow> 'w \<Rightarrow> 'w run" where
  "write_loop F fd 0 w = Inr w"
| "write_loop F fd (Suc n) w =
     (case fd_write F fd ''hello'' w of
        (Inl e, w1) \<Rightarrow> Inl Unwrap_Err
      | (Inr _, w1) \<Rightarrow> write_loop F fd n w1)"

definition fd_sender :: "'w fd_api \<Rightarrow> string list \<Rightarrow> nat \<Rightarrow> 'w \<Rightarrow> 'w run" where
  "fd_sender F args n w =
     (case send_fd F args w of Inl p \<Rightarrow> Inl p | Inr (wr, w1) \<Rightarrow> write_loop F wr n w1)"

section \<open>Reading a pipe\<close>

text \<open>
  The bytes in the pipe once the last writer has closed it: a read takes up to 1024 of them, and
  gives 0 when there are none.
\<close>

definition closed_pipe_laws :: "('w \<Rightarrow> (io_error + nat) \<times> 'w) \<Rightarrow> ('w \<Rightarrow> nat) \<Rightarrow> ('w \<Rightarrow> bool) \<Rightarrow> bool" where
  "closed_pipe_laws rd left closed \<longleftrightarrow>
     (\<forall>w. closed w \<longrightarrow> fst (rd w) = Inr (min 1024 (left w)) \<and> left (snd (rd w)) = left w - min 1024 (left w)
        \<and> closed (snd (rd w)))"

text \<open>A pipe that is kept open by a writer that goes on writing: a read waits for some bytes.\<close>

definition open_pipe_laws :: "('w \<Rightarrow> (io_error + nat) \<times> 'w) \<Rightarrow> ('w \<Rightarrow> bool) \<Rightarrow> bool" where
  "open_pipe_laws rd busy \<longleftrightarrow>
     (\<forall>w. busy w \<longrightarrow> (\<exists>n w1. rd w = (Inr n, w1) \<and> 0 < n \<and> busy w1))"

lemma read_closed_pipe:
  assumes laws: "closed_pipe_laws rd left closed"
  shows "closed w \<Longrightarrow> \<exists>ns w'. read_to_end rd out w = Some (Inr (out @ ns, w')) \<and> sum_list ns = left w \<and> left w' = 0"
proof (induction "left w" arbitrary: out w rule: less_induct)
  case less
  obtain res w1 where rd: "rd w = (res, w1)" by (cases "rd w")
  then have r: "res = Inr (min 1024 (left w))" "left w1 = left w - min 1024 (left w)" "closed w1"
    using laws [unfolded closed_pipe_laws_def, rule_format, OF less.prems] by auto
  show ?case
  proof (cases "left w = 0")
    case True
    then have "read_to_end rd out w = Some (Inr (out @ [], w1))"
      by (subst read_to_end.simps) (simp add: rd r)
    with r(2) True show ?thesis by fastforce
  next
    case False
    let ?n = "min 1024 (left w)"
    have step: "read_to_end rd out w = read_to_end rd (out @ [?n]) w1"
      by (subst read_to_end.simps) (use False in \<open>simp add: rd r(1) min_def\<close>)
    obtain ns w' where "read_to_end rd (out @ [?n]) w1 = Some (Inr ((out @ [?n]) @ ns, w'))"
      "sum_list ns = left w1" "left w' = 0"
      using less.hyps [OF _ r(3), of "out @ [?n]"] r(2) False by auto
    then have "read_to_end rd out w = Some (Inr (out @ ?n # ns, w')) \<and> sum_list (?n # ns) = left w \<and> left w' = 0"
      using step r(2) by simp
    then show ?thesis by blast
  qed
qed

lemma read_open_pipe:
  assumes laws: "open_pipe_laws rd busy" and ret: "read_to_end rd out w = Some r" and busy: "busy w"
  shows False
proof -
  let ?P = "\<lambda>rd' out w r. rd' = rd \<longrightarrow> busy w \<longrightarrow> False"
  have "?P rd out w r"
  proof (rule read_to_end.raw_induct [where P = ?P, OF _ ret], intro impI)
    fix loop rd' out w r
    assume step: "\<And>rd' out w r. loop rd' out w = Some r \<Longrightarrow> ?P rd' out w r"
      and body: "(case rd' w of
        (Inl e, w1) \<Rightarrow> Some (Inl Unwrap_Err)
      | (Inr len, w1) \<Rightarrow> if len = 0 then Some (Inr (out, w1)) else loop rd' (out @ [len]) w1) = Some r"
      and eq: "rd' = rd" and b: "busy w"
    obtain n w1 where "rd w = (Inr n, w1)" "0 < n" "busy w1"
      using laws b by (auto simp: open_pipe_laws_def)
    with body eq step show False by auto
  qed
  with busy show False by simp
qed

section \<open>Properties\<close>

text \<open>
  C30: Having received a descriptor, the receiver reads the pipe to its end and loses nothing: once
  the pipe is closed by its writers it returns, and the lengths it printed add up to the bytes that
  were in the pipe; as long as a writer keeps writing it does not return.
\<close>

theorem receiver_reads_whole_pipe:
  assumes recv: "receive_fd F w = Inr (Some fd, w1)"
  shows "(closed_pipe_laws (fd_read F fd 1024) left closed \<and> closed w1
      \<longrightarrow> (\<exists>ns w'. fd_receiver F w = Some (Inr (ns, w')) \<and> sum_list ns = left w1))
    \<and> (open_pipe_laws (fd_read F fd 1024) busy \<and> busy w1 \<longrightarrow> fd_receiver F w = None)"
proof (intro conjI impI)
  assume "closed_pipe_laws (fd_read F fd 1024) left closed \<and> closed w1"
  then show "\<exists>ns w'. fd_receiver F w = Some (Inr (ns, w')) \<and> sum_list ns = left w1"
    using read_closed_pipe [of "fd_read F fd 1024" left closed w1 "[]"] recv by (auto simp: fd_receiver_def)
next
  assume "open_pipe_laws (fd_read F fd 1024) busy \<and> busy w1"
  then have "read_to_end (fd_read F fd 1024) [] w1 = None"
    using read_open_pipe by (metis option.exhaust)
  with recv show "fd_receiver F w = None" by (simp add: fd_receiver_def)
qed

definition sample_fds :: "nat fd_api" where
  "sample_fds = \<lparr>tempdir = (\<lambda>w. (Inr ''/tmp/x'', w)), drop_tempdir = (\<lambda>d w. w), ud_bind = (\<lambda>n w. (Inr 3, w)),
     ud_connect = (\<lambda>s n w. (Inr (), w)), ud_close = (\<lambda>s w. w), fd_recvmsg = (\<lambda>s w. (Inr [ScmRights [5]], w)),
     fd_sendmsg = (\<lambda>s b fds w. (Inr (), w)), fd_pipe = (\<lambda>w. (Inr (5, 6), w)),
     fd_read = (\<lambda>fd n w. (Inr (min n w), w - min n w)), fd_write = (\<lambda>fd b w. (Inr (length b), w + length b)),
     fd_close = (\<lambda>fd w. (Inr (), w))\<rparr>"

theorem receiver_reads_whole_pipe_witness:
  "\<exists>ns w'. fd_receiver sample_fds 3000 = Some (Inr (ns, w')) \<and> sum_list ns = 3000"
proof -
  have "receive_fd sample_fds 3000 = Inr (Some 5, 3000)"
    by (simp add: receive_fd_def receive_bind_def receive_take_def sample_fds_def first_fd_def)
  from receiver_reads_whole_pipe [OF this, of "\<lambda>w. w" "\<lambda>w. True" "\<lambda>w. False"] show ?thesis
    by (simp add: closed_pipe_laws_def sample_fds_def)
qed

end
