(* ===== verification/Transfer_System.thy ===== *)
theory Transfer_System
  imports Transfer_Fd
begin

text \<open>
  The two programs of \<open>transfer-fd\<close> side by side: the sender makes a pipe, passes its read end in a
  message, closes its own copy and writes; the receiver takes the descriptor and reads.  The moves are
  the blocks between the calls at which the programs wait for each other.
\<close>

section \<open>The programs as moves\<close>

text \<open>When a call that blocks returns; \<open>sender_exit\<close> closes what the sender has open when it ends.\<close>

record 'w blocking =
  may_recv :: "nat \<Rightarrow> 'w \<Rightarrow> bool"
  may_read :: "nat \<Rightarrow> 'w \<Rightarrow> bool"
  may_write :: "nat \<Rightarrow> 'w \<Rightarrow> bool"
  sender_exit :: "'w \<Rightarrow> 'w"

datatype recv_pc = R_Start | R_Waiting string nat | R_Reading nat | R_Done | R_Panicked panic

datatype send_pc =
    S_Start
  | S_Connected string nat nat nat
  | S_Passed string nat nat nat
  | S_Writing nat
  | S_Gone

text \<open>\<open>x_printed\<close> are the lengths the receiver printed, \<open>x_writes\<close> counts the writes that succeeded.\<close>

record 'w transfer =
  x_recv :: recv_pc
  x_send :: send_pc
  x_printed :: "nat list"
  x_writes :: nat
  x_world :: 'w

definition transfer_start :: "'w \<Rightarrow> 'w transfer" where
  "transfer_start w = \<lparr>x_recv = R_Start, x_send = S_Start, x_printed = [], x_writes = 0, x_world = w\<rparr>"

text \<open>The next block of the receiver; \<open>None\<close> where it waits or has ended.\<close>

fun recv_move :: "'w fd_api \<Rightarrow> 'w blocking \<Rightarrow> 'w transfer \<Rightarrow> 'w transfer option" where
  "recv_move F K s =
     (case x_recv s of
        R_Start \<Rightarrow> Some
          (case receive_bind F (x_world s) of
             Inl p \<Rightarrow> s\<lparr>x_recv := R_Panicked p\<rparr>
           | Inr (dir, socket, w) \<Rightarrow> s\<lparr>x_recv := R_Waiting dir socket, x_world := w\<rparr>)
      | R_Waiting dir socket \<Rightarrow>
          if \<not> may_recv K socket (x_world s) then None
          else Some
            (case receive_take F dir socket (x_world s) of
               Inl p \<Rightarrow> s\<lparr>x_recv := R_Panicked p\<rparr>
             | Inr (None, w) \<Rightarrow> s\<lparr>x_recv := R_Done, x_world := w\<rparr>
             | Inr (Some fd, w) \<Rightarrow> s\<lparr>x_recv := R_Reading fd, x_world := w\<rparr>)
      | R_Reading fd \<Rightarrow>
          if \<not> may_read K fd (x_world s) then None
          else Some
            (case fd_read F fd 1024 (x_world s) of
               (Inl e, w) \<Rightarrow> s\<lparr>x_recv := R_Panicked Unwrap_Err, x_world := w\<rparr>
             | (Inr len, w) \<Rightarrow>
                 if len = 0 then s\<lparr>x_recv := R_Done, x_world := w\<rparr>
                 else s\<lparr>x_printed := x_printed s @ [len], x_world := w\<rparr>)
      | R_Done \<Rightarrow> None
      | R_Panicked p \<Rightarrow> None)"

text \<open>The next block of the sender; a panic ends the process.\<close>

fun send_move :: "'w fd_api \<Rightarrow> 'w blocking \<Rightarrow> string list \<Rightarrow> 'w transfer \<Rightarrow> 'w transfer option" where
  "send_move F K args s =
     (let gone = s\<lparr>x_send := S_Gone, x_world := sender_exit K (x_world s)\<rparr> in
      case x_send s of
        S_Start \<Rightarrow> Some
          (case send_connect F args (x_world s) of
             Inl p \<Rightarrow> gone
           | Inr (dir, socket, r, wr, w) \<Rightarrow> s\<lparr>x_send := S_Connected dir socket r wr, x_world := w\<rparr>)
      | S_Connected dir socket r wr \<Rightarrow> Some
          (case send_rights F socket r (x_world s) of
             Inl p \<Rightarrow> gone
           | Inr w \<Rightarrow> s\<lparr>x_send := S_Passed dir socket r wr, x_world := w\<rparr>)
      | S_Passed dir socket r wr \<Rightarrow> Some
          (case send_close F dir socket r (x_world s) of
             Inl p \<Rightarrow> gone
           | Inr w \<Rightarrow> s\<lparr>x_send := S_Writing wr, x_world := w\<rparr>)
      | S_Writing wr \<Rightarrow>
          if \<not> may_write K wr (x_world s) then None
          else Some
            (case fd_write F wr ''hello'' (x_world s) of
               (Inl e, w) \<Rightarrow> gone
             | (Inr n, w) \<Rightarrow> s\<lparr>x_writes := Suc (x_writes s), x_world := w\<rparr>)
      | S_Gone \<Rightarrow> None)"

text \<open>Any interleaving, in which the sender may be killed at any time.\<close>

inductive transfer_reach ::
    "'w fd_api \<Rightarrow> 'w fd_api \<Rightarrow> 'w blocking \<Rightarrow> string list \<Rightarrow> 'w transfer \<Rightarrow> 'w transfer \<Rightarrow> bool"
  for FR FS K args s0 where
  start: "transfer_reach FR FS K args s0 s0"
| recv: "transfer_reach FR FS K args s0 s \<Longrightarrow> recv_move FR K s = Some s' \<Longrightarrow> transfer_reach FR FS K args s0 s'"
| send: "transfer_reach FR FS K args s0 s \<Longrightarrow> send_move FS K args s = Some s' \<Longrightarrow> transfer_reach FR FS K args s0 s'"
| kill: "transfer_reach FR FS K args s0 s \<Longrightarrow> x_send s \<noteq> S_Gone \<Longrightarrow>
    transfer_reach FR FS K args s0 (s\<lparr>x_send := S_Gone, x_world := sender_exit K (x_world s)\<rparr>)"

datatype transfer_move = Receiver_Moves | Sender_Moves | Sender_Killed

fun transfer_moves ::
    "'w fd_api \<Rightarrow> 'w fd_api \<Rightarrow> 'w blocking \<Rightarrow> string list \<Rightarrow> transfer_move list \<Rightarrow> 'w transfer \<Rightarrow> 'w transfer option"
where
  "transfer_moves FR FS K args [] s = Some s"
| "transfer_moves FR FS K args (Receiver_Moves # ms) s =
     Option.bind (recv_move FR K s) (transfer_moves FR FS K args ms)"
| "transfer_moves FR FS K args (Sender_Moves # ms) s =
     Option.bind (send_move FS K args s) (transfer_moves FR FS K args ms)"
| "transfer_moves FR FS K args (Sender_Killed # ms) s =
     (if x_send s = S_Gone then None
      else transfer_moves FR FS K args ms (s\<lparr>x_send := S_Gone, x_world := sender_exit K (x_world s)\<rparr>))"

lemma transfer_moves_reach:
  "transfer_moves FR FS K args ms s = Some s' \<Longrightarrow> transfer_reach FR FS K args s0 s \<Longrightarrow>
     transfer_reach FR FS K args s0 s'"
  by (induction FR FS K args ms s rule: transfer_moves.induct)
    (auto simp del: recv_move.simps send_move.simps split: Option.bind_splits if_splits intro: transfer_reach.intros)

section \<open>The kernel\<close>

text \<open>
  Pipes have identities: \<open>k_inbox\<close> are the descriptors in the messages that wait at the receiver's
  socket, \<open>k_rfd\<close> those the receiver reads from, \<open>k_sfd\<close> and \<open>k_wfd\<close> the sender's read and write ends,
  \<open>k_content\<close> the bytes in a pipe, \<open>k_open\<close> whether its write end is open.
\<close>

record kernel =
  k_inbox :: "nat list list"
  k_rfd :: "nat \<Rightarrow> nat option"
  k_sfd :: "nat \<Rightarrow> nat option"
  k_wfd :: "nat \<Rightarrow> nat option"
  k_content :: "nat \<Rightarrow> string"
  k_open :: "nat \<Rightarrow> bool"

definition quiet :: "('w \<Rightarrow> kernel) \<Rightarrow> ('w \<Rightarrow> 'r \<times> 'w) \<Rightarrow> bool" where
  "quiet view f \<longleftrightarrow> (\<forall>w. view (snd (f w)) = view w)"

text \<open>Calls of either program that have nothing to do with the pipe.\<close>

definition naming_laws :: "'w fd_api \<Rightarrow> ('w \<Rightarrow> kernel) \<Rightarrow> bool" where
  "naming_laws F view \<longleftrightarrow> quiet view (tempdir F) \<and> (\<forall>n. quiet view (ud_bind F n)) \<and>
     (\<forall>s n. quiet view (ud_connect F s n)) \<and> (\<forall>s w. view (ud_close F s w) = view w) \<and>
     (\<forall>d w. view (drop_tempdir F d w) = view w)"

text \<open>
  The receiver: \<open>recvmsg\<close> waits for a message and installs its descriptor under a number of its own;
  a read waits for bytes or for the end of the pipe, and gives at least one byte or 0.
\<close>

definition recv_laws :: "'w fd_api \<Rightarrow> 'w blocking \<Rightarrow> ('w \<Rightarrow> kernel) \<Rightarrow> bool" where
  "recv_laws F K view \<longleftrightarrow>
     (\<forall>s w. may_recv K s w \<longrightarrow> k_inbox (view w) \<noteq> []) \<and>
     (\<forall>s w p. k_inbox (view w) = [[p]] \<longrightarrow> (\<exists>fd w1. fd_recvmsg F s w = (Inr [ScmRights [fd]], w1) \<and>
        view w1 = (view w)\<lparr>k_inbox := [], k_rfd := (k_rfd (view w))(fd \<mapsto> p)\<rparr>)) \<and>
     (\<forall>fd w p. k_rfd (view w) fd = Some p \<longrightarrow>
        (may_read K fd w \<longleftrightarrow> k_content (view w) p \<noteq> [] \<or> \<not> k_open (view w) p)) \<and>
     (\<forall>fd w p. k_rfd (view w) fd = Some p \<longrightarrow>
        (\<exists>n w1. fd_read F fd 1024 w = (Inr n, w1) \<and> n \<le> length (k_content (view w) p) \<and>
           (n = 0 \<longleftrightarrow> k_content (view w) p = []) \<and>
           view w1 = (view w)\<lparr>k_content := (k_content (view w))(p := drop n (k_content (view w) p))\<rparr>))"

text \<open>
  The sender: a new pipe is empty and open; a message carries what its descriptors refer to; closing
  the read end is local to the sender; a write of five bytes is atomic (they are less than \<open>PIPE_BUF\<close>);
  the end of the process closes the write end.
\<close>

definition send_end_laws :: "'w fd_api \<Rightarrow> 'w blocking \<Rightarrow> ('w \<Rightarrow> kernel) \<Rightarrow> bool" where
  "send_end_laws F K view \<longleftrightarrow>
     (\<forall>w. case fst (fd_pipe F w) of
        Inl e \<Rightarrow> True
      | Inr (r, wr) \<Rightarrow> (\<exists>p. view (snd (fd_pipe F w)) = (view w)\<lparr>k_sfd := (k_sfd (view w))(r \<mapsto> p),
          k_wfd := (k_wfd (view w))(wr \<mapsto> p), k_content := (k_content (view w))(p := []),
          k_open := (k_open (view w))(p := True)\<rparr>)) \<and>
     (\<forall>s bs r w p. k_sfd (view w) r = Some p \<longrightarrow>
        (case fst (fd_sendmsg F s bs [r] w) of
           Inl e \<Rightarrow> True
         | Inr _ \<Rightarrow> view (snd (fd_sendmsg F s bs [r] w)) = (view w)\<lparr>k_inbox := k_inbox (view w) @ [[p]]\<rparr>)) \<and>
     (\<forall>r w. case fst (fd_close F r w) of
        Inl e \<Rightarrow> True
      | Inr _ \<Rightarrow> view (snd (fd_close F r w)) = (view w)\<lparr>k_sfd := (k_sfd (view w))(r := None)\<rparr>) \<and>
     (\<forall>wr bs w p. k_wfd (view w) wr = Some p \<longrightarrow>
        (case fst (fd_write F wr bs w) of
           Inl e \<Rightarrow> True
         | Inr n \<Rightarrow> view (snd (fd_write F wr bs w)) =
             (view w)\<lparr>k_content := (k_content (view w))(p := k_content (view w) p @ bs)\<rparr>)) \<and>
     (\<forall>w. view (sender_exit K w) = (view w)\<lparr>k_sfd := Map.empty, k_wfd := Map.empty, k_open := \<lambda>p. False\<rparr>)"

definition transfer_laws :: "'w fd_api \<Rightarrow> 'w fd_api \<Rightarrow> 'w blocking \<Rightarrow> ('w \<Rightarrow> kernel) \<Rightarrow> bool" where
  "transfer_laws FR FS K view \<longleftrightarrow> naming_laws FR view \<and> naming_laws FS view \<and> recv_laws FR K view \<and>
     send_end_laws FS K view"

end
