(* ===== verification/Transfer_Correct.thy ===== *)
theory Transfer_Correct
  imports Transfer_System
begin

text \<open>
  What the two programs of \<open>transfer-fd\<close> achieve together, under every interleaving of their blocks:
  the descriptor in the message keeps the pipe alive, and the receiver reads what the sender writes.
\<close>

section \<open>The blocks on the kernel\<close>

lemma quietD: "quiet view f \<Longrightarrow> f w = (r, w1) \<Longrightarrow> view w1 = view w"
  unfolding quiet_def by (metis snd_conv)

lemma naming_lawsD:
  assumes "naming_laws F view"
  shows "quiet view (tempdir F)" "quiet view (ud_bind F n)" "quiet view (ud_connect F s n)"
    "view (ud_close F s w) = view w" "view (drop_tempdir F d w) = view w"
  using assms unfolding naming_laws_def by blast+

lemma transfer_lawsD:
  assumes "transfer_laws FR FS K view"
  shows "naming_laws FR view" "naming_laws FS view" "recv_laws FR K view" "send_end_laws FS K view"
  using assms unfolding transfer_laws_def by blast+

lemma recv_lawsD:
  assumes "recv_laws F K view"
  shows "may_recv K s w \<Longrightarrow> k_inbox (view w) \<noteq> []"
    "k_inbox (view w) = [[p]] \<Longrightarrow> \<exists>fd w1. fd_recvmsg F s w = (Inr [ScmRights [fd]], w1) \<and>
        view w1 = (view w)\<lparr>k_inbox := [], k_rfd := (k_rfd (view w))(fd \<mapsto> p)\<rparr>"
    "k_rfd (view w) fd = Some p \<Longrightarrow> may_read K fd w \<longleftrightarrow> k_content (view w) p \<noteq> [] \<or> \<not> k_open (view w) p"
    "k_rfd (view w) fd = Some p \<Longrightarrow> \<exists>n w1. fd_read F fd 1024 w = (Inr n, w1) \<and>
        n \<le> length (k_content (view w) p) \<and> (n = 0 \<longleftrightarrow> k_content (view w) p = []) \<and>
        view w1 = (view w)\<lparr>k_content := (k_content (view w))(p := drop n (k_content (view w) p))\<rparr>"
proof goal_cases
  case 1
  then show ?case by (rule assms [unfolded recv_laws_def, THEN conjunct1, rule_format])
next
  case 2
  then show ?case by (rule assms [unfolded recv_laws_def, THEN conjunct2, THEN conjunct1, rule_format])
next
  case 3
  then show ?case
    by (rule assms [unfolded recv_laws_def, THEN conjunct2, THEN conjunct2, THEN conjunct1, rule_format])
next
  case 4
  then show ?case
    by (rule assms [unfolded recv_laws_def, THEN conjunct2, THEN conjunct2, THEN conjunct2, rule_format])
qed

lemma send_end_lawsD:
  assumes "send_end_laws F K view"
  shows "fd_pipe F w = (Inr (r, wr), w1) \<Longrightarrow> \<exists>p. view w1 = (view w)\<lparr>k_sfd := (k_sfd (view w))(r \<mapsto> p),
          k_wfd := (k_wfd (view w))(wr \<mapsto> p), k_content := (k_content (view w))(p := []),
          k_open := (k_open (view w))(p := True)\<rparr>"
    "fd_sendmsg F so bs [r] w = (Inr u, w1) \<Longrightarrow> k_sfd (view w) r = Some p \<Longrightarrow>
        view w1 = (view w)\<lparr>k_inbox := k_inbox (view w) @ [[p]]\<rparr>"
    "fd_close F r w = (Inr u, w1) \<Longrightarrow> view w1 = (view w)\<lparr>k_sfd := (k_sfd (view w))(r := None)\<rparr>"
    "fd_write F wr bs w = (Inr n, w1) \<Longrightarrow> k_wfd (view w) wr = Some p \<Longrightarrow>
        view w1 = (view w)\<lparr>k_content := (k_content (view w))(p := k_content (view w) p @ bs)\<rparr>"
    "view (sender_exit K w) = (view w)\<lparr>k_sfd := Map.empty, k_wfd := Map.empty, k_open := \<lambda>p. False\<rparr>"
proof goal_cases
  case 1
  then show ?case using assms [unfolded send_end_laws_def, THEN conjunct1, rule_format, of w] by simp
next
  case 2
  then show ?case
    using assms [unfolded send_end_laws_def, THEN conjunct2, THEN conjunct1, rule_format, of w r p so bs] by simp
next
  case 3
  then show ?case
    using assms [unfolded send_end_laws_def, THEN conjunct2, THEN conjunct2, THEN conjunct1, rule_format, of r w] by simp
next
  case 4
  then show ?case
    using assms [unfolded send_end_laws_def, THEN conjunct2, THEN conjunct2, THEN conjunct2, THEN conjunct1,
        rule_format, of w wr p bs] by simp
next
  case 5
  then show ?case
    using assms [unfolded send_end_laws_def, THEN conjunct2, THEN conjunct2, THEN conjunct2, THEN conjunct2] by simp
qed

lemma receive_bind_view:
  assumes "naming_laws F view" and "receive_bind F w = Inr (dir, socket, w1)"
  shows "view w1 = view w"
  using assms(2) quietD [OF naming_lawsD(1) [OF assms(1)]] quietD [OF naming_lawsD(2) [OF assms(1)]]
  by (auto simp: receive_bind_def split: prod.splits sum.splits)

lemma receive_take_view:
  assumes names: "naming_laws F view" and recv: "recv_laws F K view" and inbox: "k_inbox (view w) = [[p]]"
  shows "\<exists>fd w1. receive_take F dir socket w = Inr (Some fd, w1) \<and>
    view w1 = (view w)\<lparr>k_inbox := [], k_rfd := (k_rfd (view w))(fd \<mapsto> p)\<rparr>"
proof -
  obtain fd w1 where "fd_recvmsg F socket w = (Inr [ScmRights [fd]], w1)"
    "view w1 = (view w)\<lparr>k_inbox := [], k_rfd := (k_rfd (view w))(fd \<mapsto> p)\<rparr>"
    using recv_lawsD(2) [OF recv inbox] by blast
  with naming_lawsD(4,5) [OF names] show ?thesis by (simp add: receive_take_def first_fd_def)
qed

lemma send_connect_view:
  assumes names: "naming_laws F view" and ends: "send_end_laws F K view"
    and run: "send_connect F args w = Inr (dir, socket, r, wr, w')"
  shows "\<exists>p. view w' = (view w)\<lparr>k_sfd := (k_sfd (view w))(r \<mapsto> p), k_wfd := (k_wfd (view w))(wr \<mapsto> p),
    k_content := (k_content (view w))(p := []), k_open := (k_open (view w))(p := True)\<rparr>"
proof -
  from run obtain w1 w2 w3 name where "fd_pipe F w = (Inr (r, wr), w1)" "tempdir F w1 = (Inr dir, w2)"
    "ud_bind F (dir @ ''/sock'') w2 = (Inr socket, w3)" "ud_connect F socket name w3 = (Inr (), w')"
    by (auto simp: send_connect_def split: prod.splits sum.splits list.splits)
  with send_end_lawsD(1) [OF ends] quietD [OF naming_lawsD(1) [OF names]] quietD [OF naming_lawsD(2) [OF names]]
    quietD [OF naming_lawsD(3) [OF names]] show ?thesis by metis
qed

lemma send_rights_view:
  assumes "send_end_laws F K view" and "send_rights F socket r w = Inr w'" and "k_sfd (view w) r = Some p"
  shows "view w' = (view w)\<lparr>k_inbox := k_inbox (view w) @ [[p]]\<rparr>"
  using assms(2) send_end_lawsD(2) [OF assms(1) _ assms(3)]
  by (auto simp: send_rights_def split: prod.splits sum.splits)

lemma send_close_view:
  assumes "naming_laws F view" and "send_end_laws F K view" and "send_close F dir socket r w = Inr w'"
  shows "view w' = (view w)\<lparr>k_sfd := (k_sfd (view w))(r := None)\<rparr>"
  using assms(3) send_end_lawsD(3) [OF assms(2)] naming_lawsD(4,5) [OF assms(1)]
  by (auto simp: send_close_def split: prod.splits sum.splits)

section \<open>The invariant\<close>

text \<open>Before the descriptor is passed the programs have nothing in common.\<close>

definition apart :: "kernel \<Rightarrow> 'w transfer \<Rightarrow> bool" where
  "apart v s \<longleftrightarrow> k_inbox v = [] \<and> x_printed s = [] \<and> x_writes s = 0 \<and>
     (case x_recv s of R_Reading fd \<Rightarrow> False | R_Done \<Rightarrow> False | _ \<Rightarrow> True) \<and>
     (case x_send s of
        S_Start \<Rightarrow> True
      | S_Connected dir socket r wr \<Rightarrow>
          (\<exists>p. k_sfd v r = Some p \<and> k_wfd v wr = Some p \<and> k_content v p = [] \<and> k_open v p)
      | S_Gone \<Rightarrow> True
      | _ \<Rightarrow> False)"

fun hellos :: "nat \<Rightarrow> string" where
  "hellos 0 = []"
| "hellos (Suc n) = hellos n @ ''hello''"

lemma concat_replicate_Suc: "concat (replicate (Suc n) xs) = concat (replicate n xs) @ xs"
proof -
  have "replicate (Suc n) xs = replicate n xs @ [xs]" by (simp only: replicate_append_same replicate_Suc)
  then show ?thesis by (simp only: concat_append) simp
qed

lemma hellos_concat: "hellos n = concat (replicate n ''hello'')"
  by (induction n) (simp, simp only: hellos.simps concat_replicate_Suc)

lemma length_hellos: "length (hellos n) = 5 * n"
  by (induction n) simp_all

text \<open>
  From then on pipe \<open>p\<close> connects them: what the sender wrote is what the receiver read and what is in
  the pipe, whose read end is in the message or the receiver's, and whose write end is open as long
  as the sender lives.
\<close>

definition joined :: "kernel \<Rightarrow> nat \<Rightarrow> 'w transfer \<Rightarrow> bool" where
  "joined v p s \<longleftrightarrow>
     sum_list (x_printed s) \<le> length (hellos (x_writes s)) \<and>
     k_content v p = drop (sum_list (x_printed s)) (hellos (x_writes s)) \<and>
     (case x_send s of
        S_Passed dir socket r wr \<Rightarrow> k_wfd v wr = Some p \<and> k_open v p
      | S_Writing wr \<Rightarrow> k_wfd v wr = Some p \<and> k_open v p
      | S_Gone \<Rightarrow> \<not> k_open v p
      | _ \<Rightarrow> False) \<and>
     (case x_recv s of
        R_Reading fd \<Rightarrow> k_inbox v = [] \<and> k_rfd v fd = Some p
      | R_Done \<Rightarrow> k_inbox v = [] \<and> k_content v p = [] \<and> x_send s = S_Gone
      | R_Panicked q \<Rightarrow> True
      | _ \<Rightarrow> k_inbox v = [[p]] \<and> x_printed s = [])"

definition transfer_inv :: "('w \<Rightarrow> kernel) \<Rightarrow> 'w transfer \<Rightarrow> bool" where
  "transfer_inv view s \<longleftrightarrow> apart (view (x_world s)) s \<or> (\<exists>p. joined (view (x_world s)) p s)"

lemma inv_gone:
  assumes ends: "send_end_laws FS K view" and inv: "transfer_inv view s"
  shows "transfer_inv view (s\<lparr>x_send := S_Gone, x_world := sender_exit K (x_world s)\<rparr>)"
proof -
  note v = send_end_lawsD(5) [OF ends, of "x_world s"]
  show ?thesis
  proof (cases "apart (view (x_world s)) s")
    case True
    then show ?thesis by (simp add: transfer_inv_def apart_def v)
  next
    case False
    with inv obtain p where "joined (view (x_world s)) p s" by (auto simp: transfer_inv_def)
    then have "joined (view (sender_exit K (x_world s))) p (s\<lparr>x_send := S_Gone, x_world := sender_exit K (x_world s)\<rparr>)"
      by (cases "x_recv s") (auto simp: joined_def v)
    then show ?thesis by (auto simp: transfer_inv_def)
  qed
qed

lemma inv_recv_start:
  assumes names: "naming_laws FR view" and inv: "transfer_inv view s"
    and pc: "x_recv s = R_Start" and move: "recv_move FR K s = Some s'"
  shows "transfer_inv view s'"
proof (cases "receive_bind FR (x_world s)")
  case (Inl q)
  with pc move have "s' = s\<lparr>x_recv := R_Panicked q\<rparr>" by simp
  with inv pc show ?thesis by (auto simp: transfer_inv_def apart_def joined_def split: send_pc.splits)
next
  case (Inr r)
  obtain dir so w1 where r: "r = (dir, so, w1)" by (metis prod.exhaust)
  with Inr have "view w1 = view (x_world s)" using receive_bind_view [OF names] by blast
  moreover have "s' = s\<lparr>x_recv := R_Waiting dir so, x_world := w1\<rparr>" using pc move Inr r by simp
  ultimately show ?thesis using inv pc
    by (auto simp: transfer_inv_def apart_def joined_def split: send_pc.splits)
qed

lemma inv_recv_take:
  assumes names: "naming_laws FR view" and recv: "recv_laws FR K view" and inv: "transfer_inv view s"
    and pc: "x_recv s = R_Waiting dir so" and move: "recv_move FR K s = Some s'"
  shows "transfer_inv view s'"
proof -
  have may: "may_recv K so (x_world s)" using pc move by (simp split: if_splits)
  then have "k_inbox (view (x_world s)) \<noteq> []" by (rule recv_lawsD(1) [OF recv])
  with inv obtain p where j: "joined (view (x_world s)) p s" by (auto simp: transfer_inv_def apart_def)
  with pc have "k_inbox (view (x_world s)) = [[p]]" by (simp add: joined_def)
  from receive_take_view [OF names recv this] obtain fd w1 where
    take: "receive_take FR dir so (x_world s) = Inr (Some fd, w1)"
    and v: "view w1 = (view (x_world s))\<lparr>k_inbox := [], k_rfd := (k_rfd (view (x_world s)))(fd \<mapsto> p)\<rparr>" by blast
  have "s' = s\<lparr>x_recv := R_Reading fd, x_world := w1\<rparr>" using pc move take may by simp
  moreover have "joined (view w1) p (s\<lparr>x_recv := R_Reading fd, x_world := w1\<rparr>)"
    using j pc by (auto simp: joined_def v split: send_pc.splits)
  ultimately show ?thesis by (auto simp: transfer_inv_def)
qed

lemma inv_recv_read:
  assumes recv: "recv_laws FR K view" and inv: "transfer_inv view s"
    and pc: "x_recv s = R_Reading fd" and move: "recv_move FR K s = Some s'"
  shows "transfer_inv view s'"
proof -
  let ?v = "view (x_world s)"
  from inv pc obtain p where j: "joined ?v p s" by (auto simp: transfer_inv_def apart_def)
  with pc have rfd: "k_rfd ?v fd = Some p" by (simp add: joined_def)
  have may: "may_read K fd (x_world s)" using pc move by (simp split: if_splits)
  from recv_lawsD(4) [OF recv rfd] obtain n w1 where read: "fd_read FR fd 1024 (x_world s) = (Inr n, w1)"
    and n: "n \<le> length (k_content ?v p)" "n = 0 \<longleftrightarrow> k_content ?v p = []"
    and v: "view w1 = ?v\<lparr>k_content := (k_content ?v)(p := drop n (k_content ?v p))\<rparr>" by blast
  have "joined (view w1) p s'"
  proof (cases "n = 0")
    case True
    with n may recv_lawsD(3) [OF recv rfd] have "\<not> k_open ?v p" by simp
    with j have "x_send s = S_Gone" by (auto simp: joined_def split: send_pc.splits)
    with True j n pc move may read v show ?thesis by (auto simp: joined_def)
  next
    case False
    then have "s' = s\<lparr>x_printed := x_printed s @ [n], x_world := w1\<rparr>" using pc move may read by simp
    with j n pc v show ?thesis
      by (auto simp: joined_def add.commute split: send_pc.splits)
  qed
  moreover have "x_world s' = w1" using pc move may read by (auto split: if_splits)
  ultimately show ?thesis by (auto simp: transfer_inv_def)
qed

lemma inv_recv:
  assumes "transfer_laws FR FS K view" and "transfer_inv view s" and "recv_move FR K s = Some s'"
  shows "transfer_inv view s'"
proof (cases "x_recv s")
  case R_Start
  with inv_recv_start [OF transfer_lawsD(1)] assms show ?thesis by blast
next
  case (R_Waiting dir so)
  with inv_recv_take [OF transfer_lawsD(1,3)] assms show ?thesis by blast
next
  case (R_Reading fd)
  with inv_recv_read [OF transfer_lawsD(3)] assms show ?thesis by blast
qed (use assms in simp_all)

lemma inv_send_connect:
  assumes names: "naming_laws FS view" and ends: "send_end_laws FS K view" and inv: "transfer_inv view s"
    and pc: "x_send s = S_Start" and move: "send_move FS K args s = Some s'"
  shows "transfer_inv view s'"
proof (cases "send_connect FS args (x_world s)")
  case (Inl q)
  with inv_gone [OF ends inv] pc move show ?thesis by (simp add: Let_def)
next
  case (Inr r)
  obtain dir so r0 wr w1 where r: "r = (dir, so, r0, wr, w1)" by (metis prod.exhaust)
  from inv pc have a: "apart (view (x_world s)) s" by (auto simp: transfer_inv_def joined_def)
  from send_connect_view [OF names ends Inr [unfolded r]] obtain p where
    v: "view w1 = (view (x_world s))\<lparr>k_sfd := (k_sfd (view (x_world s)))(r0 \<mapsto> p), k_wfd := (k_wfd (view (x_world s)))(wr \<mapsto> p),
      k_content := (k_content (view (x_world s)))(p := []), k_open := (k_open (view (x_world s)))(p := True)\<rparr>" by blast
  have "s' = s\<lparr>x_send := S_Connected dir so r0 wr, x_world := w1\<rparr>" using pc move Inr r by (simp add: Let_def)
  with a v show ?thesis by (simp add: transfer_inv_def apart_def)
qed

lemma inv_send_rights:
  assumes ends: "send_end_laws FS K view" and inv: "transfer_inv view s"
    and pc: "x_send s = S_Connected dir so r wr" and move: "send_move FS K args s = Some s'"
  shows "transfer_inv view s'"
proof (cases "send_rights FS so r (x_world s)")
  case (Inl q)
  with inv_gone [OF ends inv] pc move show ?thesis by (simp add: Let_def)
next
  case (Inr w1)
  let ?v = "view (x_world s)"
  from inv pc have a: "apart ?v s" by (auto simp: transfer_inv_def joined_def)
  with pc obtain p where p: "k_sfd ?v r = Some p" "k_wfd ?v wr = Some p" "k_content ?v p = []" "k_open ?v p"
    by (auto simp: apart_def)
  have v: "view w1 = ?v\<lparr>k_inbox := k_inbox ?v @ [[p]]\<rparr>" by (rule send_rights_view [OF ends Inr p(1)])
  have s': "s' = s\<lparr>x_send := S_Passed dir so r wr, x_world := w1\<rparr>" using pc move Inr by (simp add: Let_def)
  have "joined (view w1) p s'"
    using a p by (auto simp: joined_def apart_def v s' split: recv_pc.splits)
  with s' show ?thesis by (auto simp: transfer_inv_def)
qed

lemma inv_send_close:
  assumes names: "naming_laws FS view" and ends: "send_end_laws FS K view" and inv: "transfer_inv view s"
    and pc: "x_send s = S_Passed dir so r wr" and move: "send_move FS K args s = Some s'"
  shows "transfer_inv view s'"
proof (cases "send_close FS dir so r (x_world s)")
  case (Inl q)
  with inv_gone [OF ends inv] pc move show ?thesis by (simp add: Let_def)
next
  case (Inr w1)
  from inv pc obtain p where j: "joined (view (x_world s)) p s" by (auto simp: transfer_inv_def apart_def)
  have s': "s' = s\<lparr>x_send := S_Writing wr, x_world := w1\<rparr>" using pc move Inr by (simp add: Let_def)
  have "joined (view w1) p s'"
    using j pc by (auto simp: joined_def send_close_view [OF names ends Inr] s' split: recv_pc.splits)
  with s' show ?thesis by (auto simp: transfer_inv_def)
qed

lemma inv_send_write:
  assumes ends: "send_end_laws FS K view" and inv: "transfer_inv view s"
    and pc: "x_send s = S_Writing wr" and move: "send_move FS K args s = Some s'"
  shows "transfer_inv view s'"
proof -
  obtain res w1 where wr: "fd_write FS wr ''hello'' (x_world s) = (res, w1)" by fastforce
  have may: "may_write K wr (x_world s)" using pc move by (simp add: Let_def split: if_splits)
  let ?v = "view (x_world s)"
  show ?thesis
  proof (cases res)
    case (Inl e)
    with inv_gone [OF ends inv] pc move wr may show ?thesis by (simp add: Let_def)
  next
    case (Inr n)
    from inv pc obtain p where j: "joined ?v p s" by (auto simp: transfer_inv_def apart_def)
    with pc have "k_wfd ?v wr = Some p" by (simp add: joined_def)
    with wr Inr send_end_lawsD(4) [OF ends] have
      v: "view w1 = ?v\<lparr>k_content := (k_content ?v)(p := k_content ?v p @ ''hello'')\<rparr>" by blast
    have s': "s' = s\<lparr>x_writes := Suc (x_writes s), x_world := w1\<rparr>" using pc move wr Inr may by (simp add: Let_def)
    have "joined (view w1) p s'"
      using j pc by (auto simp: joined_def v s' split: recv_pc.splits)
    with s' show ?thesis by (auto simp: transfer_inv_def)
  qed
qed

lemma inv_send:
  assumes "transfer_laws FR FS K view" and "transfer_inv view s" and "send_move FS K args s = Some s'"
  shows "transfer_inv view s'"
proof (cases "x_send s")
  case S_Start
  with inv_send_connect [OF transfer_lawsD(2,4)] assms show ?thesis by blast
next
  case S_Connected
  with inv_send_rights [OF transfer_lawsD(4)] assms show ?thesis by blast
next
  case S_Passed
  with inv_send_close [OF transfer_lawsD(2,4)] assms show ?thesis by blast
next
  case S_Writing
  with inv_send_write [OF transfer_lawsD(4)] assms show ?thesis by blast
qed (use assms in \<open>simp add: Let_def\<close>)

lemma transfer_reach_inv:
  assumes laws: "transfer_laws FR FS K view" and empty: "k_inbox (view w) = []"
    and reach: "transfer_reach FR FS K args (transfer_start w) s"
  shows "transfer_inv view s"
  using reach
proof induction
  case start
  show ?case using empty by (simp add: transfer_start_def transfer_inv_def apart_def)
next
  case (kill s)
  with inv_gone [OF transfer_lawsD(4) [OF laws]] show ?case by blast
qed (use inv_recv [OF laws] inv_send [OF laws] in blast)+

section \<open>Properties\<close>

text \<open>
  C27: The descriptor that travels in the message connects the two programs, even though the sender
  closes its own copy of it and the message may be received before or after that.  Under every
  interleaving the receiver that has the descriptor reads the sender's pipe: the bytes read and the
  bytes in the pipe are the sender's \<open>hello\<close>s, none lost or added.  The receiver ends only when the
  sender is gone, and has then read everything that was written.
\<close>

theorem transfer_reads_what_is_written:
  assumes laws: "transfer_laws FR FS K view" and empty: "k_inbox (view w) = []"
    and reach: "transfer_reach FR FS K args (transfer_start w) s"
  shows "(\<forall>fd. x_recv s = R_Reading fd \<longrightarrow> (\<exists>p. k_rfd (view (x_world s)) fd = Some p \<and>
      k_content (view (x_world s)) p = drop (sum_list (x_printed s)) (concat (replicate (x_writes s) ''hello'')) \<and>
      sum_list (x_printed s) + length (k_content (view (x_world s)) p) = 5 * x_writes s)) \<and>
    (x_recv s = R_Done \<longrightarrow> x_send s = S_Gone \<and> sum_list (x_printed s) = 5 * x_writes s)"
proof -
  from transfer_reach_inv [OF laws empty reach] show ?thesis
    by (auto simp: transfer_inv_def apart_def joined_def length_hellos hellos_concat [symmetric])
qed

text \<open>What is left in the pipe of a sender that is gone is read, one read after the other.\<close>

lemma receiver_finishes:
  assumes laws: "transfer_laws FR FS K view"
  shows "transfer_inv view s \<Longrightarrow> x_send s = S_Gone \<Longrightarrow> x_recv s = R_Reading fd \<Longrightarrow>
    \<exists>n s'. transfer_moves FR FS K args (replicate n Receiver_Moves) s = Some s' \<and> x_recv s' = R_Done \<and>
      transfer_inv view s' \<and> x_writes s' = x_writes s"
proof (induction "5 * x_writes s - sum_list (x_printed s)" arbitrary: s rule: less_induct)
  case less
  let ?v = "view (x_world s)"
  obtain p where j: "joined ?v p s" using less.prems by (auto simp: transfer_inv_def apart_def)
  with less.prems have rfd: "k_rfd ?v fd = Some p" and closed: "\<not> k_open ?v p" by (simp_all add: joined_def)
  note recv = transfer_lawsD(3) [OF laws]
  from recv_lawsD(4) [OF recv rfd] obtain n w1 where read: "fd_read FR fd 1024 (x_world s) = (Inr n, w1)"
    and n: "n \<le> length (k_content ?v p)" "n = 0 \<longleftrightarrow> k_content ?v p = []" by blast
  have may: "may_read K fd (x_world s)" using recv_lawsD(3) [OF recv rfd] closed by simp
  show ?case
  proof (cases "n = 0")
    case True
    let ?s = "s\<lparr>x_recv := R_Done, x_world := w1\<rparr>"
    have move: "recv_move FR K s = Some ?s" using less.prems(3) may read True by simp
    then have "transfer_moves FR FS K args (replicate 1 Receiver_Moves) s = Some ?s" by simp
    with inv_recv [OF laws less.prems(1) move] show ?thesis by (intro exI [of _ 1] exI [of _ ?s]) simp
  next
    case False
    let ?s = "s\<lparr>x_printed := x_printed s @ [n], x_world := w1\<rparr>"
    have move: "recv_move FR K s = Some ?s" using less.prems(3) may read False by simp
    have "5 * x_writes ?s - sum_list (x_printed ?s) < 5 * x_writes s - sum_list (x_printed s)"
      using j n(1) False by (auto simp: joined_def length_hellos)
    from less.hyps [OF this inv_recv [OF laws less.prems(1) move]] less.prems obtain k s' where
      "transfer_moves FR FS K args (replicate k Receiver_Moves) ?s = Some s'" "x_recv s' = R_Done"
      "transfer_inv view s'" "x_writes s' = x_writes s" by auto
    with move show ?thesis by (intro exI [of _ "Suc k"] exI [of _ s']) simp
  qed
qed

text \<open>
  C28: Once the sender is gone, a receiver that has the descriptor comes to its end by its own moves, and
  the lengths it printed add up to five bytes for every write of the sender.
\<close>

theorem transfer_comes_to_its_end:
  assumes laws: "transfer_laws FR FS K view" and empty: "k_inbox (view w) = []"
    and reach: "transfer_reach FR FS K args (transfer_start w) s"
    and gone: "x_send s = S_Gone" and reading: "x_recv s = R_Reading fd"
  shows "\<exists>n s'. transfer_moves FR FS K args (replicate n Receiver_Moves) s = Some s' \<and>
    x_recv s' = R_Done \<and> sum_list (x_printed s') = 5 * x_writes s"
proof -
  obtain n s' where "transfer_moves FR FS K args (replicate n Receiver_Moves) s = Some s'"
    "x_recv s' = R_Done" "transfer_inv view s'" "x_writes s' = x_writes s"
    using receiver_finishes [OF laws transfer_reach_inv [OF laws empty reach] gone reading] by blast
  then show ?thesis
    by (intro exI [of _ n] exI [of _ s']) (auto simp: transfer_inv_def apart_def joined_def length_hellos)
qed

section \<open>A concrete kernel\<close>

definition sample_receiver :: "kernel fd_api" where
  "sample_receiver = \<lparr>tempdir = (\<lambda>w. (Inr ''/tmp/r'', w)), drop_tempdir = (\<lambda>d w. w), ud_bind = (\<lambda>n w. (Inr 3, w)),
     ud_connect = (\<lambda>s n w. (Inr (), w)), ud_close = (\<lambda>s w. w),
     fd_recvmsg = (\<lambda>s w. case k_inbox w of
        [p] # ms \<Rightarrow> (Inr [ScmRights [7]], w\<lparr>k_inbox := ms, k_rfd := (k_rfd w)(7 \<mapsto> p)\<rparr>)
      | _ \<Rightarrow> (Inr [], w)),
     fd_sendmsg = (\<lambda>s b fds w. (Inr (), w)), fd_pipe = (\<lambda>w. (Inr (5, 6), w)),
     fd_read = (\<lambda>fd n w. case k_rfd w fd of
        None \<Rightarrow> (Inr 0, w)
      | Some p \<Rightarrow> (Inr (min n (length (k_content w p))), w\<lparr>k_content := (k_content w)(p :=
          drop (min n (length (k_content w p))) (k_content w p))\<rparr>)),
     fd_write = (\<lambda>fd b w. (Inr (length b), w)), fd_close = (\<lambda>fd w. (Inr (), w))\<rparr>"

definition sample_sender :: "kernel fd_api" where
  "sample_sender = sample_receiver\<lparr>
     fd_pipe := (\<lambda>w. (Inr (4, 5), w\<lparr>k_sfd := (k_sfd w)(4 \<mapsto> 0), k_wfd := (k_wfd w)(5 \<mapsto> 0),
       k_content := (k_content w)(0 := []), k_open := (k_open w)(0 := True)\<rparr>)),
     fd_sendmsg := (\<lambda>s b fds w. (Inr (), w\<lparr>k_inbox := k_inbox w @ [map (\<lambda>r. the (k_sfd w r)) fds]\<rparr>)),
     fd_close := (\<lambda>r w. (Inr (), w\<lparr>k_sfd := (k_sfd w)(r := None)\<rparr>)),
     fd_write := (\<lambda>wr b w. case k_wfd w wr of
        None \<Rightarrow> (Inl (Io_Error Other ''bad descriptor''), w)
      | Some p \<Rightarrow> (Inr (length b), w\<lparr>k_content := (k_content w)(p := k_content w p @ b)\<rparr>))\<rparr>"

definition sample_blocking :: "kernel blocking" where
  "sample_blocking = \<lparr>may_recv = (\<lambda>s w. k_inbox w \<noteq> []),
     may_read = (\<lambda>fd w. case k_rfd w fd of None \<Rightarrow> True | Some p \<Rightarrow> k_content w p \<noteq> [] \<or> \<not> k_open w p),
     may_write = (\<lambda>wr w. True),
     sender_exit = (\<lambda>w. w\<lparr>k_sfd := Map.empty, k_wfd := Map.empty, k_open := \<lambda>p. False\<rparr>)\<rparr>"

definition sample_kernel :: kernel where
  "sample_kernel = \<lparr>k_inbox = [], k_rfd = Map.empty, k_sfd = Map.empty, k_wfd = Map.empty,
     k_content = (\<lambda>p. []), k_open = (\<lambda>p. False)\<rparr>"

lemma sample_transfer_laws: "transfer_laws sample_receiver sample_sender sample_blocking (\<lambda>w. w)"
proof -
  have names: "naming_laws sample_receiver (\<lambda>w. w)" "naming_laws sample_sender (\<lambda>w. w)"
    by (simp_all add: naming_laws_def quiet_def sample_sender_def sample_receiver_def)
  have "recv_laws sample_receiver sample_blocking (\<lambda>w. w)"
    by (auto simp: recv_laws_def sample_receiver_def sample_blocking_def min_def)
  moreover have "send_end_laws sample_sender sample_blocking (\<lambda>w. w)"
    by (auto simp: send_end_laws_def sample_sender_def sample_blocking_def)
  ultimately show ?thesis using names by (simp add: transfer_laws_def)
qed

text \<open>The message is received before the sender closes its own copy; the sender is killed after two writes.\<close>

definition sample_moves :: "transfer_move list" where
  "sample_moves = [Sender_Moves, Receiver_Moves, Sender_Moves, Receiver_Moves, Sender_Moves, Sender_Moves,
     Receiver_Moves, Sender_Moves, Sender_Killed]"

lemmas sample_transfer_defs = sample_moves_def transfer_start_def sample_kernel_def sample_receiver_def
  sample_sender_def sample_blocking_def receive_bind_def receive_take_def first_fd_def send_connect_def
  send_rights_def send_close_def

lemma sample_transfer_run:
  "\<exists>s. transfer_moves sample_receiver sample_sender sample_blocking [''sender'', ''/tmp/r/sock''] sample_moves
      (transfer_start sample_kernel) = Some s \<and>
    x_recv s = R_Reading 7 \<and> x_send s = S_Gone \<and> x_writes s = 2 \<and> x_printed s = [5]"
  by (simp add: sample_transfer_defs)

lemma sample_transfer_reach:
  "\<exists>s. transfer_reach sample_receiver sample_sender sample_blocking [''sender'', ''/tmp/r/sock'']
      (transfer_start sample_kernel) s \<and>
    x_recv s = R_Reading 7 \<and> x_send s = S_Gone \<and> x_writes s = 2 \<and> x_printed s = [5]"
  using sample_transfer_run transfer_moves_reach [OF _ transfer_reach.start] by metis

theorem transfer_reads_what_is_written_witness:
  "\<exists>s p. transfer_reach sample_receiver sample_sender sample_blocking [''sender'', ''/tmp/r/sock'']
      (transfer_start sample_kernel) s \<and>
    k_rfd (x_world s) 7 = Some p \<and> x_printed s = [5] \<and> length (k_content (x_world s) p) = 5"
proof -
  obtain s where s: "transfer_reach sample_receiver sample_sender sample_blocking [''sender'', ''/tmp/r/sock'']
      (transfer_start sample_kernel) s" "x_recv s = R_Reading 7" "x_writes s = 2" "x_printed s = [5]"
    using sample_transfer_reach by blast
  have "k_inbox sample_kernel = []" by (simp add: sample_kernel_def)
  from transfer_reads_what_is_written [OF sample_transfer_laws this s(1)] s show ?thesis by auto
qed

theorem transfer_comes_to_its_end_witness:
  "\<exists>s' args. transfer_reach sample_receiver sample_sender sample_blocking args (transfer_start sample_kernel) s' \<and>
    x_recv s' = R_Done \<and> sum_list (x_printed s') = 10"
proof -
  obtain s where s: "transfer_reach sample_receiver sample_sender sample_blocking [''sender'', ''/tmp/r/sock'']
      (transfer_start sample_kernel) s" "x_send s = S_Gone" "x_recv s = R_Reading 7" "x_writes s = 2"
    using sample_transfer_reach by blast
  have "k_inbox sample_kernel = []" by (simp add: sample_kernel_def)
  from transfer_comes_to_its_end [OF sample_transfer_laws this s(1,2,3)] obtain n s' where
    "transfer_moves sample_receiver sample_sender sample_blocking [''sender'', ''/tmp/r/sock'']
      (replicate n Receiver_Moves) s = Some s'" "x_recv s' = R_Done" "sum_list (x_printed s') = 5 * x_writes s" by blast
  with transfer_moves_reach [OF _ s(1)] s(4) show ?thesis by auto
qed

end
