(* ===== verification/Show_Profiles.thy ===== *)
theory Show_Profiles
  imports Prelude
begin

text \<open>
  \<open>show-profiles\<close> (its Windows build): the IP addresses of the machine, and for each the connected
  profile of its network adapter.  The calls of the \<open>windows\<close> crate are parameters; each can fail, and
  each sees the state of the system at the moment of the call.
\<close>

section \<open>Calls\<close>

datatype host_name_type = DomainName | Ipv4 | Ipv6 | Bluetooth

text \<open>
  \<open>'w\<close> is the system, \<open>'h\<close> are host names, \<open>'p\<close> profiles, \<open>'a\<close> network adapters, \<open>'g\<close> their
  identifiers, \<open>'f\<close> filters.  \<open>host_adapter\<close> is \<open>IPInformation()?.NetworkAdapter()\<close>.
\<close>

record ('w, 'h, 'p, 'a, 'g, 'f) win_api =
  get_host_names :: "'w \<Rightarrow> (io_error + 'h list) \<times> 'w"
  host_type :: "'h \<Rightarrow> 'w \<Rightarrow> (io_error + host_name_type) \<times> 'w"
  host_adapter :: "'h \<Rightarrow> 'w \<Rightarrow> (io_error + 'a) \<times> 'w"
  host_string :: "'h \<Rightarrow> 'w \<Rightarrow> (io_error + string) \<times> 'w"
  adapter_id :: "'a \<Rightarrow> 'w \<Rightarrow> (io_error + 'g) \<times> 'w"
  new_filter :: "'w \<Rightarrow> (io_error + 'f) \<times> 'w"
  set_connected :: "'f \<Rightarrow> 'w \<Rightarrow> (io_error + 'f) \<times> 'w"
  find_profiles :: "'f \<Rightarrow> 'w \<Rightarrow> (io_error + 'p list) \<times> 'w"
  profile_adapter :: "'p \<Rightarrow> 'w \<Rightarrow> (io_error + 'a) \<times> 'w"
  profile_name :: "'p \<Rightarrow> 'w \<Rightarrow> (io_error + string) \<times> 'w"
  profile_cost :: "'p \<Rightarrow> 'w \<Rightarrow> (io_error + nat) \<times> 'w"
  watch_status :: "'w \<Rightarrow> (io_error + unit) \<times> 'w"

section \<open>The program\<close>

text \<open>The addresses among the host names (lines 15 to 22).\<close>

fun ip_host_names :: "('w, 'h, 'p, 'a, 'g, 'f) win_api \<Rightarrow> 'h list \<Rightarrow> 'w \<Rightarrow> (io_error + 'h list) \<times> 'w" where
  "ip_host_names W [] w = (Inr [], w)"
| "ip_host_names W (h # hs) w =
     (case host_type W h w of
        (Inl e, w1) \<Rightarrow> (Inl e, w1)
      | (Inr t, w1) \<Rightarrow>
          (case ip_host_names W hs w1 of
             (Inl e, w2) \<Rightarrow> (Inl e, w2)
           | (Inr ipaddrs, w2) \<Rightarrow> (Inr (if t = Ipv4 \<or> t = Ipv6 then h # ipaddrs else ipaddrs), w2)))"

fun find_loop :: "('w, 'h, 'p, 'a, 'g, 'f) win_api \<Rightarrow> 'g \<Rightarrow> 'p list \<Rightarrow> 'w \<Rightarrow> (io_error + 'p option) \<times> 'w" where
  "find_loop W guid [] w = (Inr None, w)"
| "find_loop W guid (p # ps) w =
     (case profile_adapter W p w of
        (Inl e, w1) \<Rightarrow> (Inl e, w1)
      | (Inr a, w1) \<Rightarrow>
          (case adapter_id W a w1 of
             (Inl e, w2) \<Rightarrow> (Inl e, w2)
           | (Inr g, w2) \<Rightarrow> if g = guid then (Inr (Some p), w2) else find_loop W guid ps w2))"

definition find_connected_profile :: "('w, 'h, 'p, 'a, 'g, 'f) win_api \<Rightarrow> 'g \<Rightarrow> 'w \<Rightarrow> (io_error + 'p option) run \<times> 'w" where
  "find_connected_profile W guid w =
     (case new_filter W w of
        (Inl e, w1) \<Rightarrow> (Inr (Inl e), w1)
      | (Inr filter0, w1) \<Rightarrow>
          (case set_connected W filter0 w1 of
             (Inl e, w2) \<Rightarrow> (Inl Unwrap_Err, w2)
           | (Inr filter1, w2) \<Rightarrow>
               (case find_profiles W filter1 w2 of
                  (Inl e, w3) \<Rightarrow> (Inr (Inl e), w3)
                | (Inr ps, w3) \<Rightarrow> (case find_loop W guid ps w3 of (r, w4) \<Rightarrow> (Inr r, w4)))))"

datatype profile_line = Profile_Line string string | Cost_Line nat

text \<open>
  The loop over the addresses (lines 24 to 35): what was printed, and the error that ended it, if
  one did.
\<close>

fun show_loop :: "('w, 'h, 'p, 'a, 'g, 'f) win_api \<Rightarrow> 'h list \<Rightarrow> profile_line list \<Rightarrow> 'w
    \<Rightarrow> (profile_line list \<times> (io_error + unit)) run \<times> 'w" where
  "show_loop W [] out w = (Inr (out, Inr ()), w)"
| "show_loop W (h # hs) out w =
     (case host_adapter W h w of
        (Inl e, w1) \<Rightarrow> (Inr (out, Inl e), w1)
      | (Inr adapter, w1) \<Rightarrow>
          (case adapter_id W adapter w1 of
             (Inl e, w2) \<Rightarrow> (Inr (out, Inl e), w2)
           | (Inr guid, w2) \<Rightarrow>
               (case find_connected_profile W guid w2 of
                  (Inl pn, w3) \<Rightarrow> (Inl pn, w3)
                | (Inr (Inl e), w3) \<Rightarrow> (Inr (out, Inl e), w3)
                | (Inr (Inr None), w3) \<Rightarrow> show_loop W hs out w3
                | (Inr (Inr (Some p)), w3) \<Rightarrow>
                    (case host_string W h w3 of
                       (Inl e, w4) \<Rightarrow> (Inr (out, Inl e), w4)
                     | (Inr s, w4) \<Rightarrow>
                         (case profile_name W p w4 of
                            (Inl e, w5) \<Rightarrow> (Inr (out, Inl e), w5)
                          | (Inr name, w5) \<Rightarrow>
                              (case profile_cost W p w5 of
                                 (Inl e, w6) \<Rightarrow> (Inr (out @ [Profile_Line s name], Inl e), w6)
                               | (Inr cost, w6) \<Rightarrow>
                                   show_loop W hs (out @ [Profile_Line s name, Cost_Line cost]) w6))))))"

text \<open>
  \<open>main\<close> up to its sleep of \<open>Duration::MAX\<close>, from which only the status handler prints.
\<close>

definition show_main :: "('w, 'h, 'p, 'a, 'g, 'f) win_api \<Rightarrow> 'w \<Rightarrow> (profile_line list \<times> (io_error + unit)) run \<times> 'w" where
  "show_main W w =
     (case get_host_names W w of
        (Inl e, w1) \<Rightarrow> (Inr ([], Inl e), w1)
      | (Inr names, w1) \<Rightarrow>
          (case ip_host_names W names w1 of
             (Inl e, w2) \<Rightarrow> (Inr ([], Inl e), w2)
           | (Inr ipaddrs, w2) \<Rightarrow>
               (case show_loop W ipaddrs [] w2 of
                  (Inl pn, w3) \<Rightarrow> (Inl pn, w3)
                | (Inr (out, Inl e), w3) \<Rightarrow> (Inr (out, Inl e), w3)
                | (Inr (out, Inr _), w3) \<Rightarrow> (case watch_status W w3 of (r, w4) \<Rightarrow> (Inr (out, r), w4)))))"

section \<open>The queries and the lines\<close>

text \<open>
  \<open>log\<close> is the history of the profile queries: each filter that was used, with its answer.  A call that
  \<open>gives\<close> a value succeeds with it at any time and is no query.
\<close>

type_synonym ('f, 'p) query = "'f \<times> 'p list"

definition gives :: "('w \<Rightarrow> 'q) \<Rightarrow> ('w \<Rightarrow> (io_error + 'x) \<times> 'w) \<Rightarrow> 'x \<Rightarrow> bool" where
  "gives log call x \<longleftrightarrow> (\<forall>w. \<exists>w'. call w = (Inr x, w') \<and> log w' = log w)"

lemma givesE:
  assumes "gives log call x"
  obtains w' where "call w = (Inr x, w')" and "log w' = log w"
  using assms by (auto simp: gives_def)

text \<open>The queries succeed, and \<open>conn\<close> are the filters for connected profiles.\<close>

definition query_laws :: "('w, 'h, 'p, 'a, 'g, 'f) win_api \<Rightarrow> ('f \<Rightarrow> bool) \<Rightarrow> ('w \<Rightarrow> ('f, 'p) query list) \<Rightarrow> bool" where
  "query_laws W conn log \<longleftrightarrow>
     (\<forall>w. \<exists>f w'. new_filter W w = (Inr f, w') \<and> log w' = log w) \<and>
     (\<forall>f w. \<exists>f' w'. set_connected W f w = (Inr f', w') \<and> conn f' \<and> log w' = log w) \<and>
     (\<forall>f w. \<exists>ps w'. find_profiles W f w = (Inr ps, w') \<and> log w' = log w @ [(f, ps)])"

text \<open>When the adapters of the profiles can be read, the search is \<open>List.find\<close>.\<close>

lemma find_loop_find:
  assumes "\<forall>p \<in> set ps. gives log (profile_adapter W p) (pa p) \<and> gives log (adapter_id W (pa p)) (ident p)"
  shows "\<exists>w'. find_loop W guid ps w = (Inr (List.find (\<lambda>p. ident p = guid) ps), w') \<and> log w' = log w"
  using assms
proof (induction ps arbitrary: w)
  case (Cons p ps)
  obtain w1 where 1: "profile_adapter W p w = (Inr (pa p), w1)" "log w1 = log w"
    using Cons.prems by (auto elim: givesE [of log "profile_adapter W p"])
  obtain w2 where 2: "adapter_id W (pa p) w1 = (Inr (ident p), w2)" "log w2 = log w1"
    using Cons.prems by (auto elim: givesE [of log "adapter_id W (pa p)"])
  from Cons.IH [of w2] Cons.prems 1 2 show ?case by auto
qed simp

lemma ip_host_names_filter:
  assumes "\<forall>h \<in> set hs. gives log (host_type W h) (ty h)"
  shows "\<exists>w'. ip_host_names W hs w = (Inr (filter (\<lambda>h. ty h = Ipv4 \<or> ty h = Ipv6) hs), w') \<and> log w' = log w"
  using assms
proof (induction hs arbitrary: w)
  case (Cons h hs)
  obtain w1 where "host_type W h w = (Inr (ty h), w1)" "log w1 = log w"
    using Cons.prems by (auto elim: givesE [of log "host_type W h"])
  with Cons.IH [of w1] Cons.prems show ?case by auto
qed simp

text \<open>What can be read of a profile.\<close>

definition profile_read :: "('w, 'h, 'p, 'a, 'g, 'f) win_api \<Rightarrow> ('w \<Rightarrow> ('f, 'p) query list) \<Rightarrow> ('p \<Rightarrow> 'a) \<Rightarrow> ('p \<Rightarrow> 'g)
    \<Rightarrow> ('p \<Rightarrow> string) \<Rightarrow> ('p \<Rightarrow> nat) \<Rightarrow> 'p \<Rightarrow> bool" where
  "profile_read W log pa ident name cost p \<longleftrightarrow> gives log (profile_adapter W p) (pa p) \<and>
     gives log (adapter_id W (pa p)) (ident p) \<and> gives log (profile_name W p) (name p) \<and>
     gives log (profile_cost W p) (cost p)"

text \<open>One search: one query, with a filter for connected profiles, and the first profile of its answer.\<close>

lemma find_connected_profile_query:
  assumes laws: "query_laws W conn log"
    and profiles: "\<forall>f w ps w'. find_profiles W f w = (Inr ps, w') \<longrightarrow>
        (\<forall>p \<in> set ps. profile_read W log pa ident name cost p)"
  shows "\<exists>f ps w'. find_connected_profile W guid w = (Inr (Inr (List.find (\<lambda>p. ident p = guid) ps)), w')
    \<and> conn f \<and> log w' = log w @ [(f, ps)] \<and> (\<forall>p \<in> set ps. profile_read W log pa ident name cost p)"
proof -
  obtain f0 w1 where 1: "new_filter W w = (Inr f0, w1)" "log w1 = log w"
    using laws unfolding query_laws_def by blast
  obtain f w2 where 2: "set_connected W f0 w1 = (Inr f, w2)" "conn f" "log w2 = log w1"
    using laws unfolding query_laws_def by blast
  obtain ps w3 where 3: "find_profiles W f w2 = (Inr ps, w3)" "log w3 = log w2 @ [(f, ps)]"
    using laws unfolding query_laws_def by blast
  have read: "\<forall>p \<in> set ps. profile_read W log pa ident name cost p" using profiles 3(1) by blast
  then obtain w4 where "find_loop W guid ps w3 = (Inr (List.find (\<lambda>p. ident p = guid) ps), w4)" "log w4 = log w3"
    using find_loop_find [of ps log W pa ident guid w3] by (auto simp: profile_read_def)
  with 1 2 3 read show ?thesis by (auto simp: find_connected_profile_def)
qed

text \<open>The lines for one address, from the answer to its query.\<close>

definition host_lines ::
    "('h \<Rightarrow> string) \<Rightarrow> ('h \<Rightarrow> 'g) \<Rightarrow> ('p \<Rightarrow> 'g) \<Rightarrow> ('p \<Rightarrow> string) \<Rightarrow> ('p \<Rightarrow> nat) \<Rightarrow> ('f, 'p) query \<Rightarrow> 'h
     \<Rightarrow> profile_line list" where
  "host_lines str hid ident name cost q h =
     (case List.find (\<lambda>p. ident p = hid h) (snd q) of
        None \<Rightarrow> []
      | Some p \<Rightarrow> [Profile_Line (str h) (name p), Cost_Line (cost p)])"

lemma show_loop_lines:
  assumes laws: "query_laws W conn log"
    and profiles: "\<forall>f w ps w'. find_profiles W f w = (Inr ps, w') \<longrightarrow>
        (\<forall>p \<in> set ps. profile_read W log pa ident name cost p)"
    and hosts: "\<forall>h \<in> set hs. gives log (host_adapter W h) (ha h) \<and> gives log (adapter_id W (ha h)) (hid h)
        \<and> gives log (host_string W h) (str h)"
  shows "\<exists>qs w'. length qs = length hs \<and> (\<forall>q \<in> set qs. conn (fst q)) \<and> log w' = log w @ qs \<and>
    show_loop W hs out w = (Inr (out @ concat (map2 (host_lines str hid ident name cost) qs hs), Inr ()), w')"
  using hosts
proof (induction hs arbitrary: out w)
  case (Cons h hs)
  obtain w1 where 1: "host_adapter W h w = (Inr (ha h), w1)" "log w1 = log w"
    using Cons.prems by (auto elim: givesE [of log "host_adapter W h"])
  obtain w2 where 2: "adapter_id W (ha h) w1 = (Inr (hid h), w2)" "log w2 = log w1"
    using Cons.prems by (auto elim: givesE [of log "adapter_id W (ha h)"])
  obtain f ps w3 where 3: "find_connected_profile W (hid h) w2 = (Inr (Inr (List.find (\<lambda>p. ident p = hid h) ps)), w3)"
    "conn f" "log w3 = log w2 @ [(f, ps)]" and read: "\<forall>p \<in> set ps. profile_read W log pa ident name cost p"
    using find_connected_profile_query [OF laws profiles, of "hid h" w2] by blast
  let ?lines = "host_lines str hid ident name cost (f, ps) h"
  have "\<exists>w4. log w4 = log w3 \<and> show_loop W (h # hs) out w = show_loop W hs (out @ ?lines) w4"
  proof (cases "List.find (\<lambda>p. ident p = hid h) ps")
    case None
    with 1 2 3 show ?thesis by (intro exI [of _ w3]) (simp add: host_lines_def)
  next
    case (Some p)
    then have p: "profile_read W log pa ident name cost p" using read by (auto simp: find_Some_iff)
    obtain w4 where 4: "host_string W h w3 = (Inr (str h), w4)" "log w4 = log w3"
      using Cons.prems by (auto elim: givesE [of log "host_string W h"])
    obtain w5 where 5: "profile_name W p w4 = (Inr (name p), w5)" "log w5 = log w4"
      using p by (auto simp: profile_read_def elim: givesE [of log "profile_name W p"])
    obtain w6 where 6: "profile_cost W p w5 = (Inr (cost p), w6)" "log w6 = log w5"
      using p by (auto simp: profile_read_def elim: givesE [of log "profile_cost W p"])
    from Some 1 2 3 4 5 6 show ?thesis by (intro exI [of _ w6]) (simp add: host_lines_def)
  qed
  then obtain w4 where 4: "log w4 = log w3" "show_loop W (h # hs) out w = show_loop W hs (out @ ?lines) w4" by blast
  have "\<forall>h \<in> set hs. gives log (host_adapter W h) (ha h) \<and> gives log (adapter_id W (ha h)) (hid h)
      \<and> gives log (host_string W h) (str h)" using Cons.prems by simp
  from Cons.IH [OF this, of w4 "out @ ?lines"] obtain qs w' where qs: "length qs = length hs"
    "\<forall>q \<in> set qs. conn (fst q)" "log w' = log w4 @ qs"
    "show_loop W hs (out @ ?lines) w4 =
      (Inr ((out @ ?lines) @ concat (map2 (host_lines str hid ident name cost) qs hs), Inr ()), w')" by blast
  show ?case
    using qs 1(2) 2(2) 3(2,3) 4 by (intro exI [of _ "(f, ps) # qs"] exI [of _ w']) simp
qed simp

section \<open>Properties\<close>

text \<open>
  C35: When the calls that it makes succeed, the program asks the system for the connected profiles
  once for each host name that is an IPv4 or IPv6 address, in the order of the system, and prints for
  it the name and the cost of the first profile, among those just answered, that is on the address's
  network adapter, and nothing for an address without one.  The answers may differ from one query to
  the next.  Of the host names that are no addresses only the type is asked.
\<close>

theorem profiles_shown:
  assumes names: "get_host_names W w = (Inr hs, w0)" "log w0 = log w"
      "\<forall>h \<in> set hs. gives log (host_type W h) (ty h)"
    and laws: "query_laws W conn log"
    and profiles: "\<forall>f w ps w'. find_profiles W f w = (Inr ps, w') \<longrightarrow>
        (\<forall>p \<in> set ps. profile_read W log pa ident name cost p)"
    and hosts: "\<forall>h \<in> set hs. ty h = Ipv4 \<or> ty h = Ipv6 \<longrightarrow> gives log (host_adapter W h) (ha h)
        \<and> gives log (adapter_id W (ha h)) (hid h) \<and> gives log (host_string W h) (str h)"
    and ips: "ips = filter (\<lambda>h. ty h = Ipv4 \<or> ty h = Ipv6) hs"
  shows "\<exists>qs w1. length qs = length ips \<and> (\<forall>q \<in> set qs. conn (fst q)) \<and> log w1 = log w @ qs \<and>
    show_main W w = (Inr (concat (map2 (host_lines str hid ident name cost) qs ips), fst (watch_status W w1)),
      snd (watch_status W w1))"
proof -
  obtain w2 where types: "ip_host_names W hs w0 = (Inr ips, w2)" "log w2 = log w0"
    using ip_host_names_filter [OF names(3), of w0] ips by blast
  have "\<forall>h \<in> set ips. gives log (host_adapter W h) (ha h) \<and> gives log (adapter_id W (ha h)) (hid h)
      \<and> gives log (host_string W h) (str h)" using hosts ips by auto
  from show_loop_lines [OF laws profiles this, of w2 "[]"] obtain qs w1 where
    qs: "length qs = length ips" "\<forall>q \<in> set qs. conn (fst q)" "log w1 = log w2 @ qs"
      "show_loop W ips [] w2 = (Inr ([] @ concat (map2 (host_lines str hid ident name cost) qs ips), Inr ()), w1)" by blast
  have "show_main W w = (Inr (concat (map2 (host_lines str hid ident name cost) qs ips), fst (watch_status W w1)),
      snd (watch_status W w1))"
    using names(1) types(1) qs(4) by (simp add: show_main_def split_beta)
  with qs(1-3) types(2) names(2) show ?thesis by (intro exI [of _ qs] exI [of _ w1]) simp
qed

text \<open>
  A domain name without IP information and two addresses; the profile on the first one's adapter is
  gone when the second is looked up.
\<close>

definition sample_win :: "((bool, nat) query list, nat, nat, nat, nat, bool) win_api" where
  "sample_win = \<lparr>get_host_names = (\<lambda>w. (Inr [1, 2, 3], w)),
     host_type = (\<lambda>h w. (Inr (if h = 1 then DomainName else if h = 2 then Ipv4 else Ipv6), w)),
     host_adapter = (\<lambda>h w. (if h = 1 then Inl (Io_Error Other ''null'') else Inr h, w)),
     host_string = (\<lambda>h w. (Inr (if h = 2 then ''10.0.0.1'' else ''::1''), w)), adapter_id = (\<lambda>a w. (Inr a, w)),
     new_filter = (\<lambda>w. (Inr False, w)), set_connected = (\<lambda>f w. (Inr True, w)),
     find_profiles = (\<lambda>f w. let ps = (if w = [] then [7, 2, 3] else [7]) in (Inr ps, w @ [(f, ps)])),
     profile_adapter = (\<lambda>p w. (Inr p, w)), profile_name = (\<lambda>p w. (Inr ''lan'', w)),
     profile_cost = (\<lambda>p w. (Inr p, w)), watch_status = (\<lambda>w. (Inr (), w))\<rparr>"

lemma sample_win_run:
  "show_main sample_win [] =
     (Inr ([Profile_Line ''10.0.0.1'' ''lan'', Cost_Line 2], Inr ()), [(True, [7, 2, 3]), (True, [7])])"
  by (simp add: show_main_def find_connected_profile_def sample_win_def Let_def)

theorem profiles_shown_witness:
  "\<exists>qs. length qs = 2 \<and> show_main sample_win [] =
     (Inr (concat (map2 (host_lines (\<lambda>h. if h = 2 then ''10.0.0.1'' else ''::1'') (\<lambda>h. h) (\<lambda>p. p)
        (\<lambda>p. ''lan'') (\<lambda>p. p)) qs [2, 3]), Inr ()), qs) \<and>
     show_main sample_win [] = (Inr ([Profile_Line ''10.0.0.1'' ''lan'', Cost_Line 2], Inr ()),
        [(True, [7, 2, 3]), (True, [7])])"
proof -
  have read: "\<forall>f w ps w'. find_profiles sample_win f w = (Inr ps, w') \<longrightarrow>
      (\<forall>p \<in> set ps. profile_read sample_win (\<lambda>w. w) (\<lambda>p. p) (\<lambda>p. p) (\<lambda>p. ''lan'') (\<lambda>p. p) p)"
    by (simp add: profile_read_def gives_def sample_win_def)
  have laws: "query_laws sample_win (\<lambda>f. f) (\<lambda>w. w)"
    by (auto simp: query_laws_def sample_win_def Let_def)
  have "\<exists>qs w1. length qs = length [2, 3 :: nat] \<and> (\<forall>q \<in> set qs. fst q) \<and> w1 = [] @ qs \<and>
      show_main sample_win [] = (Inr (concat (map2 (host_lines (\<lambda>h. if h = 2 then ''10.0.0.1'' else ''::1'') (\<lambda>h. h)
          (\<lambda>p. p) (\<lambda>p. ''lan'') (\<lambda>p. p)) qs [2, 3]), fst (watch_status sample_win w1)), snd (watch_status sample_win w1))"
    by (rule profiles_shown [where hs = "[1, 2, 3]" and ty = "\<lambda>h. if h = 1 then DomainName else if h = 2 then Ipv4 else Ipv6"
          and ha = "\<lambda>h. h" and log = "\<lambda>w. w", OF _ _ _ laws read])
      (simp_all add: sample_win_def gives_def)
  then show ?thesis unfolding sample_win_run by (auto simp: sample_win_def)
qed

end
