(* ===== verification/Embedded_Efi.thy ===== *)
theory Embedded_Efi
  imports Machine_Words
begin

text \<open>
  \<open>embedded-tls-efi\<close>: a UEFI program that makes sure of an IP configuration, asks for an address and
  sends an HTTP request to it.  The \<open>efi\<close> crate is a parameter; \<open>unwrap\<close> on an error is a panic,
  and the panic handler loops for ever.
\<close>

section \<open>Calls\<close>

record dhcp_config =
  dhcp_ip :: string
  dhcp_mask :: string
  dhcp_server :: "string option"

text \<open>\<open>'e\<close> are the errors of the crate; \<open>no_response\<close> is \<open>EfiErrorKind::NoResponse.into()\<close>.\<close>

record ('w, 'p, 'c, 'e) efi_api =
  system_table :: "'w \<Rightarrow> ('e + unit) \<times> 'w"
  pxe_protocols :: "'w \<Rightarrow> ('e + 'p list) \<times> 'w"
  cached_dhcp :: "'p \<Rightarrow> 'w \<Rightarrow> ('e + dhcp_config option) \<times> 'w"
  run_dhcp :: "'p \<Rightarrow> 'w \<Rightarrow> ('e + dhcp_config) \<times> 'w"
  stdin_line :: "'w \<Rightarrow> ('e + string) option \<times> 'w"
  tcp_open :: "string \<Rightarrow> 'w \<Rightarrow> ('e + 'c) \<times> 'w"
  tcp_write :: "'c \<Rightarrow> string \<Rightarrow> 'w \<Rightarrow> ('e + nat) \<times> 'w"
  tcp_read :: "'c \<Rightarrow> nat \<Rightarrow> 'w \<Rightarrow> ('e + u8 list) \<times> 'w"
  no_response :: 'e

datatype efi_line =
    Line string
  | Found_Protocols nat
  | Dhcp_Line string string
  | Dhcp_Server string
  | Connecting string
  | Response "u8 list"

datatype 'e run_error = Locating_Failed | No_Pxe | Dhcp_Failed 'e | Connect_Failed 'e

section \<open>The program\<close>

definition crlf :: string where
  "crlf = [CHR 0x0D, CHR 0x0A]"

definition request_parts :: "string list" where
  "request_parts = [''GET / HTTP/1.1'', crlf, ''Content-Length: 0'' @ crlf, crlf]"

text \<open>The four writes of the request, each with \<open>unwrap\<close>; the lengths written are ignored.\<close>

fun write_parts :: "('w, 'p, 'c, 'e) efi_api \<Rightarrow> 'c \<Rightarrow> string list \<Rightarrow> 'w \<Rightarrow> 'w run" where
  "write_parts E stream [] w = Inr w"
| "write_parts E stream (s # ss) w =
     (case tcp_write E stream s w of
        (Inl e, w1) \<Rightarrow> Inl Unwrap_Err
      | (Inr n, w1) \<Rightarrow> write_parts E stream ss w1)"

text \<open>The closure of \<open>and_then\<close> (lines 68 to 97).\<close>

definition http_get ::
    "('w, 'p, 'c, 'e) efi_api \<Rightarrow> 'c \<Rightarrow> 'w \<Rightarrow> (efi_line list \<times> ('e + unit) \<times> 'w) run" where
  "http_get E stream w =
     (case write_parts E stream request_parts w of
        Inl p \<Rightarrow> Inl p
      | Inr w1 \<Rightarrow>
          (case tcp_read E stream 2048 w1 of
             (Inl e, w2) \<Rightarrow> Inl Unwrap_Err
           | (Inr bs, w2) \<Rightarrow>
               (let out = [Line ''Connected!'', Line ''Req sent'', Line [], Line ''Received resp: '']
                in if length bs = 0 then Inr (out, Inl (no_response E), w2)
                   else Inr (out @ [Response bs, Line []], Inr (), w2))))"

text \<open>The DHCP step (lines 48 to 56): \<open>cached_dhcp_config().unwrap_or(None)\<close> hides an error.\<close>

definition ensure_dhcp ::
    "('w, 'p, 'c, 'e) efi_api \<Rightarrow> 'p \<Rightarrow> 'w \<Rightarrow> efi_line list \<times> ('e run_error + unit) \<times> 'w" where
  "ensure_dhcp E p w =
     (let (cached, w1) = cached_dhcp E p w;
          config = (case cached of Inl e \<Rightarrow> None | Inr c \<Rightarrow> c)
      in case config of
           Some _ \<Rightarrow> ([], Inr (), w1)
         | None \<Rightarrow>
             (case run_dhcp E p w1 of
                (Inl e, w2) \<Rightarrow> ([Line ''Performing DHCP...''], Inl (Dhcp_Failed e), w2)
              | (Inr c, w2) \<Rightarrow>
                  (Line ''Performing DHCP...'' # Dhcp_Line (dhcp_ip c) (dhcp_mask c)
                     # (case dhcp_server c of None \<Rightarrow> [] | Some ip \<Rightarrow> [Dhcp_Server ip]), Inr (), w2)))"

definition run_efi ::
    "('w, 'p, 'c, 'e) efi_api \<Rightarrow> 'w \<Rightarrow> (efi_line list \<times> ('e run_error + unit) \<times> 'w) run" where
  "run_efi E w =
     (let hello = [Line ''Hello from UEFI'', Line []] in
      case pxe_protocols E w of
        (Inl e, w1) \<Rightarrow> Inr (hello, Inl Locating_Failed, w1)
      | (Inr [], w1) \<Rightarrow> Inr (hello, Inl No_Pxe, w1)
      | (Inr (p # ps), w1) \<Rightarrow>
          (case ensure_dhcp E p w1 of
             (dhcp_out, Inl e, w2) \<Rightarrow> Inr (hello @ Found_Protocols (length (p # ps)) # dhcp_out, Inl e, w2)
           | (dhcp_out, Inr _, w2) \<Rightarrow>
               (let out = hello @ Found_Protocols (length (p # ps)) # dhcp_out
                      @ [Line [], Line ''Testing TCP by sending HTTP request to the given addr'',
                         Line ''Enter addr to connect to (<host>:<port>): '']
                in case stdin_line E w2 of
                     (None, w3) \<Rightarrow> Inl Unwrap_None
                   | (Some (Inl e), w3) \<Rightarrow> Inl Unwrap_Err
                   | (Some (Inr addr), w3) \<Rightarrow>
                       (case tcp_open E addr w3 of
                          (Inl e, w4) \<Rightarrow> Inr (out @ [Connecting addr], Inl (Connect_Failed e), w4)
                        | (Inr stream, w4) \<Rightarrow>
                            (case http_get E stream w4 of
                               Inl pn \<Rightarrow> Inl pn
                             | Inr (lines, Inl e, w5) \<Rightarrow>
                                 Inr (out @ Connecting addr # lines, Inl (Connect_Failed e), w5)
                             | Inr (lines, Inr _, w5) \<Rightarrow> Inr (out @ Connecting addr # lines, Inr (), w5))))))"

text \<open>The entry point returns 0 whatever \<open>run\<close> says; only a panic keeps it from returning.\<close>

definition efi_main :: "('w, 'p, 'c, 'e) efi_api \<Rightarrow> 'w \<Rightarrow> (int \<times> efi_line list \<times> 'e run_error option \<times> 'w) run" where
  "efi_main E w =
     (case system_table E w of
        (Inl e, w1) \<Rightarrow> Inl Unwrap_Err
      | (Inr _, w1) \<Rightarrow>
          (case run_efi E w1 of
             Inl pn \<Rightarrow> Inl pn
           | Inr (out, Inl msg, w2) \<Rightarrow> Inr (0, out, Some msg, w2)
           | Inr (out, Inr _, w2) \<Rightarrow> Inr (0, out, None, w2)))"

text \<open>
  The panic handler loops for ever (\<open>alloc_error\<close> does the same), so the image that the firmware
  started returns to it only when \<open>efi_main\<close> does not panic.
\<close>

partial_function (option) panic_handler :: "panic \<Rightarrow> 'r option" where
  "panic_handler info = panic_handler info"

definition efi_image :: "('w, 'p, 'c, 'e) efi_api \<Rightarrow> 'w \<Rightarrow> (int \<times> efi_line list \<times> 'e run_error option \<times> 'w) option" where
  "efi_image E w = (case efi_main E w of Inl info \<Rightarrow> panic_handler info | Inr r \<Rightarrow> Some r)"

lemma panic_handler_hangs: "(panic_handler info :: 'r option) = None"
proof -
  have "(panic_handler info :: 'r option) = Some r \<longrightarrow> False" for r
    by (rule panic_handler.raw_induct [where P = "\<lambda>_ _. False", THEN impI]) auto
  then show ?thesis by (metis not_Some_eq)
qed

lemma efi_image_returns_iff: "efi_image E w = None \<longleftrightarrow> panics (efi_main E w)"
  by (auto simp: efi_image_def panic_handler_hangs panics_def split: sum.splits)

section \<open>The request on the wire\<close>

text \<open>
  A connection that takes every write completely: \<open>wire\<close> is what was sent on it.  No other call of
  the program changes it.
\<close>

definition full_writes :: "('w, 'p, 'c, 'e) efi_api \<Rightarrow> ('w \<Rightarrow> 'c \<Rightarrow> string) \<Rightarrow> bool" where
  "full_writes E wire \<longleftrightarrow>
     (\<forall>c s w. \<exists>w1. tcp_write E c s w = (Inr (length s), w1) \<and> wire w1 c = wire w c @ s)
     \<and> (\<forall>c n w. wire (snd (tcp_read E c n w)) = wire w)"

lemma write_parts_wire:
  assumes "full_writes E wire"
  shows "\<exists>w1. write_parts E c ss w = Inr w1 \<and> wire w1 c = wire w c @ concat ss"
proof (induction ss arbitrary: w)
  case (Cons s ss)
  obtain w1 where w1: "tcp_write E c s w = (Inr (length s), w1)" "wire w1 c = wire w c @ s"
    using assms unfolding full_writes_def by blast
  obtain w2 where "write_parts E c ss w1 = Inr w2" "wire w2 c = wire w1 c @ concat ss"
    using Cons.IH [of w1] by blast
  with w1 show ?case by simp
qed simp

section \<open>Properties\<close>

text \<open>
  C36: On a connection that takes every write completely the request sent is a
  request line and one header, ended by an empty line (without the \<open>Host\<close> header that HTTP/1.1 asks
  for); the exchange then panics only when reading fails,
  fails with \<open>NoResponse\<close> exactly when the peer closed without an answer, and otherwise prints the
  answer, at most one read of it.
\<close>

theorem http_exchange:
  assumes full: "full_writes E wire" and fresh: "wire w c = []"
    and sent: "write_parts E c request_parts w = Inr w1" and answer: "tcp_read E c 2048 w1 = (r, w2)"
  shows "wire w2 c = ''GET / HTTP/1.1'' @ crlf @ ''Content-Length: 0'' @ crlf @ crlf
    \<and> (panics (http_get E c w) \<longleftrightarrow> (\<exists>e. r = Inl e))
    \<and> (\<forall>bs. r = Inr bs \<longrightarrow> (\<exists>out. http_get E c w = Inr (out, (if bs = [] then Inl (no_response E) else Inr ()), w2)
        \<and> (bs \<noteq> [] \<longrightarrow> Response bs \<in> set out)))"
proof -
  have "wire w1 c = concat request_parts"
    using write_parts_wire [OF full, of c request_parts w] sent fresh by simp
  moreover have "wire w2 = wire w1" using full answer by (metis full_writes_def snd_conv)
  ultimately have "wire w2 c = ''GET / HTTP/1.1'' @ crlf @ ''Content-Length: 0'' @ crlf @ crlf"
    by (simp add: request_parts_def)
  then show ?thesis
    by (cases r) (auto simp: http_get_def sent answer panics_def Let_def)
qed

text \<open>The program returns 0 unless it panics, and reports the error of \<open>run\<close>.\<close>

lemma efi_main_returns_0: "efi_main E w = Inr (code, out, msg, w1) \<Longrightarrow> code = 0"
  by (auto simp: efi_main_def split: prod.splits sum.splits)

definition sample_efi :: "(string, unit, unit, nat) efi_api" where
  "sample_efi = \<lparr>system_table = (\<lambda>w. (Inr (), w)), pxe_protocols = (\<lambda>w. (Inr [()], w)),
     cached_dhcp = (\<lambda>p w. (Inr None, w)), run_dhcp = (\<lambda>p w. (Inl 1, w)),
     stdin_line = (\<lambda>w. (Some (Inr ''10.0.0.2:80''), w)), tcp_open = (\<lambda>a w. (Inr (), w)),
     tcp_write = (\<lambda>c s w. (Inr (length s), w @ s)), tcp_read = (\<lambda>c n w. (Inr [72], w)), no_response = 7\<rparr>"

theorem http_exchange_witness:
  "\<exists>out. http_get sample_efi () [] = Inr (out, Inr (), concat request_parts) \<and> Response [72] \<in> set out"
proof -
  have full: "full_writes sample_efi (\<lambda>w c. w)" by (simp add: full_writes_def sample_efi_def)
  have sent: "write_parts sample_efi () request_parts [] = Inr (concat request_parts)"
    by (simp add: request_parts_def sample_efi_def)
  have answer: "tcp_read sample_efi () 2048 (concat request_parts) = (Inr [72], concat request_parts)"
    by (simp add: sample_efi_def)
  show ?thesis using http_exchange [OF full _ sent answer] by auto
qed

end
