(* ===== verification/Spec2Isabelle.thy ===== *)
theory Spec2Isabelle
  imports
    Command_Correct
    Recv_Stream
    Send_Stream
    Dgram_Write
    Dgram_Read
    Connection_Runs
    Poll_Read_Client
    System_Properties
    Cmsg
    Migrate_Main
    Mio_Programs
    Tcp_Correct
    Recvmsg_Quic
    Build_Script
    Tokio_Udp
    Multipath_Log
    Transfer_Correct
    Show_Profiles
    Embedded_Efi
begin

text \<open>
  \<^bold>\<open>The rust_codes workspace.\<close>  The repository is a collection of small network programs in Rust, one
  crate each.  The largest, \<open>poll-read\<close>, is the skeleton of a QUIC library: stream and datagram
  handles with hand-written \<open>poll\<close> functions that talk over channels to one connection task.  The
  others exercise one interface of the operating system each: control messages of Winsock
  (\<open>migrate-Udp\<close>, \<open>mio-and-recvmsg\<close>), readiness loops with \<open>mio\<close> (\<open>mio-TcpStream\<close>, \<open>mio-UdpDgram\<close>,
  \<open>mio-UnixStream\<close>, \<open>mio-UnixDgram\<close>, \<open>mio-UnixPipe\<close>) or \<open>tokio\<close> (\<open>tokio-UdpDgram\<close>), sending over every
  interface (\<open>multipath-Udp\<close>), passing a descriptor (\<open>transfer-fd\<close>), connection profiles
  (\<open>show-profiles\<close>) and a UEFI client (\<open>embedded-tls-efi\<close>).

  \<^bold>\<open>How the code is modelled.\<close>  A struct is a record, an enum a datatype, a \<open>poll\<close> function a function
  on the object's record and on a world \<open>'w\<close> that stands for everything outside the object; it
  returns the updated record and world.  A panic is a value: \<open>'a run = panic + 'a\<close>, where \<open>Inl\<close> is the
  panic.  \<open>Poll<T>\<close> is \<open>'a poll\<close>, \<open>Result\<close> is a sum with the error on the left.  A loop that may not
  end is a \<open>partial_function (option)\<close> and \<open>None\<close> means that it does not return; an endless loop of a
  thread or task is run for a number of rounds.  Lengths and counters are natural numbers with the
  overflow check of a development build written out (\<open>usize_add\<close>, \<open>uadd\<close>), or 64-bit words where bit
  masks matter.  Libraries (\<open>bytes\<close>, \<open>tokio\<close>, \<open>mio\<close>, \<open>socket2\<close>, Winsock, ...) are records of
  functions, arguments of the definitions that use them; what the theorems rely on of them is stated
  as named laws (\<open>bytes_laws\<close>, \<open>receiver_laws\<close>, \<open>tcp_laws\<close>, ...), and \<open>Sample_Runtime\<close> and the
  witnesses give concrete functions that satisfy these laws.

  \<^bold>\<open>Theories.\<close>
  \<^item> \<open>Prelude\<close>: panics, polls, I/O errors, the executor \<open>drive\<close> that polls a future along a schedule of
    wakers and of what the rest of the program does in between, checked arithmetic, the \<open>fifo\<close> locale
    and \<open>VecDeque\<close>.  \<open>Library_Api\<close>: \<open>Bytes\<close>, \<open>ReadBuf\<close>, channels, \<open>PollSender\<close> and one-shot cells with
    their laws.  \<open>Machine_Words\<close>: words, checked word arithmetic, byte memory.
  \<^item> \<open>poll-read/src/main.rs\<close>, part by part: \<open>Command\<close> (the request future, lines 338 to 421),
    \<open>Recv_Stream\<close> (16 to 65), \<open>Pending_Table\<close> (the shared use of \<open>cmd_pending\<close>), \<open>Send_Stream\<close> (67 to
    117), \<open>Dgram_Write\<close> (124 to 268), \<open>Dgram_Read\<close> (270 to 323), \<open>Connection_Task\<close> (430 to 552),
    \<open>Poll_Read_Client\<close> (parts of the script of \<open>main\<close> awaited to their end, 554 to 639).
    \<open>Command_Correct\<close>, \<open>Connection_Correct\<close> and \<open>Connection_Runs\<close> hold properties; the last one the
    step relation of the task, its reachable states and its runs.
  \<^item> \<open>poll-read\<close> as a whole program: \<open>Poll_Read_System\<close> (the objects and the script of \<open>main\<close>, the
    client's next poll and the task's next round as moves on one state \<open>sys\<close>, \<open>sys_reach\<close>),
    \<open>System_Laws\<close> (what the runtime does to channels, one-shot cells and handles, over the abstract
    state \<open>net\<close>), \<open>Sample_Net\<close> (a concrete runtime that satisfies these laws), \<open>System_Client\<close> (what
    one poll of each operation does), \<open>System_Task\<close> (what one round does), \<open>System_Correct\<close> (the
    invariant of all runs), \<open>System_Live\<close> (progress under a fair schedule), \<open>System_Properties\<close>.
  \<^item> \<open>migrate-Udp/src/main.rs\<close>: \<open>Cmsg\<close> (the control-message helpers, 110 to 157), \<open>Migrate_Udp\<close> (the
    rest), \<open>Migrate_Udp_Correct\<close>, \<open>Migrate_Main\<close> (the threads as a whole and the joins).
  \<^item> The \<open>mio\<close> programs: \<open>Mio_Loop\<close> (the inner loops and the event loop they share), \<open>Mio_Drain\<close> (the
    contract of an inner loop), \<open>Mio_Programs\<close> (the four programs that consist of these loops),
    \<open>Tcp_Server\<close> and \<open>Tcp_Correct\<close> (\<open>mio-TcpStream\<close>), \<open>Recvmsg_Quic\<close> (\<open>mio-and-recvmsg\<close>, with its C
    function), \<open>Build_Script\<close> (its build script).
  \<^item> \<open>Tokio_Udp\<close>, \<open>Multipath_Udp\<close>, \<open>Transfer_Fd\<close>, \<open>Show_Profiles\<close>, \<open>Embedded_Efi\<close>: one program each.
    \<open>Multipath_Log\<close>: through which interface the datagrams leave.  \<open>Transfer_System\<close>, \<open>Transfer_Correct\<close>:
    the sender and the receiver of a descriptor interleaved over one kernel.

  \<^bold>\<open>Interfaces.\<close>  \<open>fifo\<close> (a queue and its contents, interpreted on \<open>VecDeque\<close>), \<open>command_executor\<close>
  (what the handles rely on when they poll a command, interpreted on \<open>poll_execute\<close>), \<open>cmsg_layout\<close>
  (where a message and its data lie, interpreted on the \<open>WSA_CMSG\<close> functions), \<open>drain_loop\<close> (an inner
  loop ends by blocking, interpreted on the receiving and the sending loop), \<open>token_source\<close> (tokens
  are fresh, interpreted on \<open>next\<close>).

  \<^bold>\<open>What is shown.\<close>
  \<^item> \<open>poll-read\<close> as a whole, for every script and every interleaving: no panic on either side, answers
    that fit their requests, the results of the operations, the datagrams as one first-in first-out
    queue from the script to the acknowledgement; that the script gets to its end when both sides take
    turns and the program shuts down; and the schedule under which \<open>main\<close> waits for ever.
  \<^item> Requests: a polled command sends its request at most once under any interleaving and exactly once
    when it is answered, and awaiting it does not panic; a write and a datagram are handed over exactly
    once; the ways in which sharing the table under the address of \<open>cx\<close> goes wrong.
  \<^item> Reading a stream: no byte is lost, repeated or reordered; when the call is ready, when it returns.
  \<^item> The connection: the window accounts for every byte, datagrams leave in order, the only panics are
    those of a \<open>Read\<close> of length 0 or above \<open>isize::MAX\<close>; when ready and flush requests are answered, and
    when they are not; which answer makes a flush panic that shares its key with a pending \<open>poll_ready\<close>.
  \<^item> Control messages: alignment and its error, the walk over headers, the round trip from the sender's
    layout to the receiver's address, reading only what was received, the destination computed in C.
  \<^item> Event loops: what a receiver takes from its socket and a sender hands over until it would block, when
    a loop does not end; the table of the TCP server and the registry of its poll agree in every state; what a closed
    connection does; when \<open>main\<close> of \<open>migrate-Udp\<close> ends.
  \<^item> The two programs of \<open>transfer-fd\<close> together: what is written is what is read, to the end.
  \<^item> The small programs: which interfaces are tried and used, that a pipe is read to its end, which profiles are
    shown, the request on the wire, the overwritten vector, the branch of the C file that is compiled.

  \<^bold>\<open>Bounds.\<close>  The number of rounds given to a thread or task is arbitrary in every theorem, and so is
  the length of a run of the whole program.  The inner loops are not bounded; where they return, this
  is proved (\<open>poll_read_returns\<close>, \<open>dgram_receiver_reads_all\<close>, \<open>senders_send_until_block\<close>,
  \<open>connection_read_and_removed\<close>, \<open>receiver_reads_whole_pipe\<close>).  Progress of the whole program is shown for
  the schedule \<open>fair_round\<close> (the task serves a request if there is one and ticks otherwise, then
  the client is polled) and for scripts whose datagrams fit the initial window of 10000 bytes; the
  3900 bytes of \<open>main\<close> do.  The laws of the channels let every poll be \<open>Pending\<close> without a reason, as
  \<open>tokio\<close> does; progress asks that an empty channel of bytes has room (\<open>room_laws\<close>) and, of the run,
  that rounds in which no poll is pending without a reason (\<open>served_round\<close>) keep coming.

  \<^bold>\<open>Not modelled.\<close>  In \<open>poll-read\<close>, interleavings finer than one poll of the client or one round of the
  task (the runtime may run them in parallel; the channels and cells they share are atomic).
  Elsewhere: the interleaving of the two threads of a \<open>mio\<close> program or of \<open>migrate-Udp\<close> on a shared
  world (each runs from its own view, what the other does is in the answers of the system), the
  printing of progress messages without effect on the state, the contents of receive buffers that the
  programs never look at, the alignment of addresses, the C compiler of the build script, the
  declarations of foreign functions and types (their functions are parameters).

  \<^bold>\<open>Next steps.\<close>  The exactly-once property of a flush; the two threads of the \<open>mio\<close> programs on one
  shared world; the table of the TCP server as a refinement of a set of connections.
\<close>

end
